(* ===== verification/Prelude.thy ===== *)
theory Prelude
  imports Main "HOL-Library.Word" "HOL-Library.Monad_Syntax"
begin

unbundle bit_operations_syntax

text \<open>
  Shared vocabulary of the development: the machine types of \<^verbatim>\<open>lib/stdint.h\<close>, the
  constants of \<^verbatim>\<open>kernel/global.h\<close>, the meaning given to a failed \<^verbatim>\<open>ASSERT\<close>, the
  collections of rewrite rules the components extend, and generic facts on words, bytes and
  lists.

  A kernel operation that can fail an \<^verbatim>\<open>ASSERT\<close> or reach a \<^verbatim>\<open>PANIC\<close> returns a value of
  type \<open>'a option\<close>. \<^verbatim>\<open>panic_spin\<close> disables interrupts and spins forever, so the caller
  never continues: \<open>None\<close> is \<open>the call does not return\<close>, which is also the meaning
  \<^theory_text>\<open>partial_function (option)\<close> gives to a loop that does not end. Ordinary error
  returns of the code (\<open>-1\<close>, \<open>NULL\<close>) are values, never \<open>None\<close>.
\<close>

section \<open>Machine types and constants\<close>

type_synonym u8 = "8 word"
type_synonym u16 = "16 word"
type_synonym u32 = "32 word"
type_synonym u64 = "64 word"

text \<open>An address of the flat 32-bit address space; the null pointer is 0.\<close>
type_synonym addr = u32

abbreviation NULL :: addr where "NULL \<equiv> 0"

definition PG_SIZE :: nat where "PG_SIZE = 4096"

definition DIV_ROUND_UP :: "nat \<Rightarrow> nat \<Rightarrow> nat" where
  "DIV_ROUND_UP x s = (x + s - 1) div s"

definition ASSERT :: "bool \<Rightarrow> unit option" where
  "ASSERT c = (if c then Some () else None)"

text \<open>A string literal of the code, without its terminator.\<close>

definition ascii :: "string \<Rightarrow> u8 list" where
  "ascii cs = map of_char cs"

section \<open>Rule collections\<close>

named_theorems kernel_simps \<open>evaluation rules of the model's constants\<close>
named_theorems frame_simps \<open>what an operation leaves unchanged\<close>

section \<open>The option monad as the panic monad\<close>

lemma ASSERT_simps [simp]:
  "ASSERT True = Some ()"
  "ASSERT False = None"
  "(ASSERT c = Some u) = c"
  "(ASSERT c = None) = (\<not> c)"
  by (simp_all add: ASSERT_def)

lemma ASSERT_bind [simp]: "Option.bind (ASSERT c) f = (if c then f () else None)"
  by (simp add: ASSERT_def)

lemma bind_if_Some [simp]:
  "(Option.bind (if c then Some x else None) f = Some y) = (c \<and> f x = Some y)"
  by simp

section \<open>Rounding up\<close>

lemma DIV_ROUND_UP_covers: "0 < s \<Longrightarrow> x \<le> DIV_ROUND_UP x s * s"
proof -
  assume s: "0 < s"
  have "(x + s - 1) div s * s + (x + s - 1) mod s = x + s - 1"
    by simp
  moreover have "(x + s - 1) mod s < s" using s by simp
  ultimately show ?thesis unfolding DIV_ROUND_UP_def using s by linarith
qed

lemma DIV_ROUND_UP_tight: "0 < s \<Longrightarrow> DIV_ROUND_UP x s * s < x + s"
proof -
  assume s: "0 < s"
  have "(x + s - 1) div s * s \<le> x + s - 1" by (rule div_times_less_eq_dividend)
  then show ?thesis unfolding DIV_ROUND_UP_def using s by linarith
qed

section \<open>Bytes and their bits\<close>

lemma bit_mask_test:
  fixes w :: "'a::len word"
  assumes "k < LENGTH('a)"
  shows "(w AND push_bit k 1 = 0) = (\<not> bit w k)"
proof
  assume z: "w AND push_bit k 1 = 0"
  show "\<not> bit w k"
  proof
    assume "bit w k"
    then have "bit (w AND push_bit k 1) k"
      using assms by (auto simp: bit_and_iff bit_push_bit_iff bit_1_iff simp del: push_bit_of_1)
    with z show False by simp
  qed
next
  assume n: "\<not> bit w k"
  show "w AND push_bit k 1 = 0"
    by (rule bit_eqI) (use n in \<open>auto simp: bit_and_iff bit_push_bit_iff bit_1_iff simp del: push_bit_of_1\<close>)
qed

lemma bit_u8_mask: "k < 8 \<Longrightarrow> ((w :: u8) AND push_bit k 1 = 0) = (\<not> bit w k)"
  by (rule bit_mask_test) simp

lemma bit_u8_full: "k < 8 \<Longrightarrow> bit (0xff :: u8) k"
proof -
  have "(0xff :: u8) = - 1" by simp
  then show "k < 8 \<Longrightarrow> bit (0xff :: u8) k"
    by (metis bit_minus_1_iff len_num1 len_bit0 mult_2 numeral_Bit0 one_add_one possible_bit_word)
qed

lemma u8_not_full:
  fixes w :: u8
  assumes "w \<noteq> 0xff"
  shows "\<exists>k<8. \<not> bit w k"
proof (rule ccontr)
  assume "\<not> (\<exists>k<8. \<not> bit w k)"
  then have all: "\<And>k. k < 8 \<Longrightarrow> bit w k" by blast
  have "w = 0xff"
  proof (rule bit_word_eqI)
    fix n assume "n < LENGTH(8)"
    then have "n < 8" by simp
    then show "bit w n = bit (0xff :: u8) n" using all bit_u8_full by simp
  qed
  with assms show False by simp
qed

section \<open>Addresses as numbers\<close>

lemma bit_u32_bound: "bit (w :: u32) n \<Longrightarrow> n < 32"
  using bit_imp_le_length [of w n] by simp

lemma unat_u32_less: "unat (w :: u32) < 2 ^ 32"
  using unsigned_less [of w] by simp

lemma of_nat_u32_eq: "a < 2 ^ 32 \<Longrightarrow> b < 2 ^ 32 \<Longrightarrow> ((of_nat a :: u32) = of_nat b) = (a = b)"
  by (simp add: word_of_nat_eq_iff take_bit_nat_eq_self)

lemma unat_of_nat_u32: "a < 2 ^ 32 \<Longrightarrow> unat (of_nat a :: u32) = a"
  by (simp add: unsigned_of_nat take_bit_nat_eq_self)

lemma u32_eq_of_nat: "k < 2 ^ 32 \<Longrightarrow> ((w :: u32) = of_nat k) = (unat w = k)"
  using unat_of_nat_u32 [of k] by (auto simp del: unsigned_of_nat)

lemma sint_of_nat_small: "n < 2 ^ 31 \<Longrightarrow> sint (of_nat n :: u32) = int n"
  by (simp add: signed_of_nat signed_take_bit_int_eq_self_iff)

section \<open>Lists\<close>

lemma set_tl_subset: "set (tl xs) \<subseteq> set xs"
  by (cases xs) auto

end
