(* ===== verification/Bitmap.thy ===== *)
theory Bitmap
  imports Prelude
begin

unbundle bit_operations_syntax

text \<open>
  \<^verbatim>\<open>lib/kernel/bitmap.c\<close>: the allocation bitmap behind the physical frame pools, the virtual
  page pools, the pid pool and the inode and block maps of the file system.

  \<^verbatim>\<open>bits\<close> is a raw pointer, so the model gives it the whole memory that follows it, as a
  function of the byte offset: a read or write past \<^verbatim>\<open>btmp_bytes_len\<close> is a read or write of
  whatever lies there, as in C. The bitmaps of the kernel hold at most a few thousand bytes, so
  bit numbers are natural numbers; \<^verbatim>\<open>bitmap_scan\<close> returns the C \<^verbatim>\<open>int\<close>, with \<open>-1\<close> for no
  room.
\<close>

section \<open>The code\<close>

record bitmap =
  btmp_bytes_len :: nat
  bits :: "nat \<Rightarrow> u8"

definition BITMAP_MASK :: u8 where "BITMAP_MASK = 1"

definition bitmap_init :: "bitmap \<Rightarrow> bitmap" where
  "bitmap_init b = b\<lparr>bits := (\<lambda>i. if i < btmp_bytes_len b then 0 else bits b i)\<rparr>"

definition bitmap_scan_test :: "bitmap \<Rightarrow> nat \<Rightarrow> u8" where
  "bitmap_scan_test b bit_idx =
     (let byte_idx = bit_idx div 8; bit_odd = bit_idx mod 8
      in bits b byte_idx AND push_bit bit_odd BITMAP_MASK)"

text \<open>The three loops of \<^verbatim>\<open>bitmap_scan\<close>, in the order of the code.\<close>

function scan_byte :: "bitmap \<Rightarrow> nat \<Rightarrow> nat" where
  "scan_byte b idx_byte =
     (if 0xff = bits b idx_byte \<and> idx_byte < btmp_bytes_len b
      then scan_byte b (idx_byte + 1) else idx_byte)"
  by pat_completeness auto
termination
  by (relation "measure (\<lambda>(b, i). btmp_bytes_len b - i)") auto

declare scan_byte.simps [simp del]

function scan_bit :: "u8 \<Rightarrow> nat \<Rightarrow> nat" where
  "scan_bit byte idx_bit =
     (if push_bit idx_bit BITMAP_MASK AND byte \<noteq> 0 then scan_bit byte (idx_bit + 1) else idx_bit)"
  by pat_completeness auto
termination
proof (relation "measure (\<lambda>(byte, k). 8 - k)")
  fix byte :: u8 and k :: nat
  assume nz: "push_bit k BITMAP_MASK AND byte \<noteq> 0"
  have "k < 8"
  proof (rule ccontr)
    assume "\<not> k < 8"
    then have "push_bit k BITMAP_MASK = (0 :: u8)"
      by (intro bit_word_eqI) (auto simp: BITMAP_MASK_def bit_push_bit_iff simp del: push_bit_of_1)
    with nz show False by simp
  qed
  then show "((byte, k + 1), (byte, k)) \<in> measure (\<lambda>(byte, k). 8 - k)" by simp
qed auto

declare scan_bit.simps [simp del]

fun scan_run :: "bitmap \<Rightarrow> nat \<Rightarrow> nat \<Rightarrow> nat \<Rightarrow> nat \<Rightarrow> int" where
  "scan_run b cnt 0 next_bit count = - 1"
| "scan_run b cnt (Suc bit_left) next_bit count =
     (let count' = (if bitmap_scan_test b next_bit = 0 then count + 1 else 0)
      in if count' = cnt then int next_bit - int cnt + 1
         else scan_run b cnt bit_left (next_bit + 1) count')"

definition bitmap_scan :: "bitmap \<Rightarrow> nat \<Rightarrow> int option" where
  "bitmap_scan b cnt =
     (let idx_byte = scan_byte b 0
      in if idx_byte = btmp_bytes_len b then Some (- 1)
         else do {
           ASSERT (idx_byte < btmp_bytes_len b);
           let idx_bit = scan_bit (bits b idx_byte) 0;
           let bit_idx_start = idx_byte * 8 + idx_bit;
           if cnt = 1 then Some (int bit_idx_start)
           else Some (scan_run b cnt (btmp_bytes_len b * 8 - bit_idx_start) (bit_idx_start + 1) 1)
         })"

definition bitmap_set :: "bitmap \<Rightarrow> nat \<Rightarrow> int \<Rightarrow> bitmap option" where
  "bitmap_set b bit_idx value = do {
     ASSERT (value = 0 \<or> value = 1);
     let byte_idx = bit_idx div 8;
     let bit_odd = bit_idx mod 8;
     Some (if value \<noteq> 0
           then b\<lparr>bits := (bits b)(byte_idx := bits b byte_idx OR push_bit bit_odd BITMAP_MASK)\<rparr>
           else b\<lparr>bits := (bits b)(byte_idx := bits b byte_idx AND NOT (push_bit bit_odd BITMAP_MASK))\<rparr>)
   }"

section \<open>The bitmap as a set of used positions\<close>

text \<open>What the client sees: position \<open>i\<close> is used when its bit is set.\<close>

definition bm_used :: "bitmap \<Rightarrow> nat \<Rightarrow> bool" where
  "bm_used b i = bit (bits b (i div 8)) (i mod 8)"

definition bm_cap :: "bitmap \<Rightarrow> nat" where
  "bm_cap b = 8 * btmp_bytes_len b"

text \<open>\<open>cnt\<close> unused positions from \<open>r\<close> on.\<close>

definition free_run :: "bitmap \<Rightarrow> nat \<Rightarrow> nat \<Rightarrow> bool" where
  "free_run b r cnt = (\<forall>i<cnt. \<not> bm_used b (r + i))"

lemma scan_test_used [simp]: "(bitmap_scan_test b i = 0) = (\<not> bm_used b i)"
  by (simp add: bitmap_scan_test_def bm_used_def BITMAP_MASK_def Let_def bit_u8_mask
      del: push_bit_of_1)

lemma bm_init_used: "bm_used (bitmap_init b) i = (bm_cap b \<le> i \<and> bm_used b i)"
  by (auto simp: bm_used_def bitmap_init_def bm_cap_def)

lemma bm_init_cap [simp]: "bm_cap (bitmap_init b) = bm_cap b"
  by (simp add: bm_cap_def bitmap_init_def)

lemma div_mod_eq_8: "((i::nat) = j) = (i div 8 = j div 8 \<and> i mod 8 = j mod 8)"
  by (metis div_mult_mod_eq)

lemma bitmap_set_Some:
  "v = 0 \<or> v = 1 \<Longrightarrow> \<exists>b'. bitmap_set b i v = Some b'"
  by (auto simp: bitmap_set_def Let_def)

lemma bitmap_set_used:
  assumes "bitmap_set b i v = Some b'"
  shows "bm_used b' j = (if j = i then v = 1 else bm_used b j)"
proof -
  have v: "v = 0 \<or> v = 1" using assms by (simp add: bitmap_set_def split: if_splits)
  have m: "i mod 8 < 8" "j mod 8 < 8" by simp_all
  from v assms m show ?thesis
    unfolding bm_used_def div_mod_eq_8 [of j i]
    by (auto simp: bitmap_set_def Let_def BITMAP_MASK_def bit_or_iff bit_and_iff bit_not_iff
        bit_push_bit_iff bit_1_iff simp del: push_bit_of_1 split: if_splits)
qed

lemma bitmap_set_cap: "bitmap_set b i v = Some b' \<Longrightarrow> bm_cap b' = bm_cap b"
  by (auto simp: bitmap_set_def Let_def bm_cap_def split: if_splits)


section \<open>The loops\<close>

lemma scan_byte_spec:
  "i \<le> btmp_bytes_len b \<Longrightarrow>
   i \<le> scan_byte b i \<and> scan_byte b i \<le> btmp_bytes_len b \<and>
   (\<forall>k. i \<le> k \<and> k < scan_byte b i \<longrightarrow> bits b k = 0xff) \<and>
   (scan_byte b i < btmp_bytes_len b \<longrightarrow> bits b (scan_byte b i) \<noteq> 0xff)"
proof (induction b i rule: scan_byte.induct)
  case (1 b i)
  show ?case
  proof (cases "0xff = bits b i \<and> i < btmp_bytes_len b")
    case True
    then have eq: "scan_byte b i = scan_byte b (i + 1)"
      by (simp add: scan_byte.simps [of b i])
    from True have "i + 1 \<le> btmp_bytes_len b" by simp
    with "1.IH" [OF True] True show ?thesis
      unfolding eq by (metis Suc_eq_plus1 Suc_leD not_less_eq_eq order_antisym)
  next
    case False
    then have "scan_byte b i = i" by (auto simp: scan_byte.simps [of b i])
    with False "1.prems" show ?thesis by auto
  qed
qed

lemma scan_bit_spec:
  "k \<le> 8 \<Longrightarrow> \<forall>j<k. bit w j \<Longrightarrow>
   scan_bit w k \<le> 8 \<and> (\<forall>j < scan_bit w k. bit w j) \<and>
   (scan_bit w k < 8 \<longrightarrow> \<not> bit w (scan_bit w k))"
proof (induction w k rule: scan_bit.induct)
  case (1 w k)
  have mask: "k < 8 \<Longrightarrow> (push_bit k BITMAP_MASK AND w \<noteq> 0) = bit w k"
    using bit_u8_mask [of k w] by (simp add: BITMAP_MASK_def and.commute)
  show ?case
  proof (cases "k < 8 \<and> bit w k")
    case True
    with mask have nz: "push_bit k BITMAP_MASK AND w \<noteq> 0" by simp
    then have eq: "scan_bit w k = scan_bit w (k + 1)" by (simp add: scan_bit.simps [of w k])
    from True "1.prems" have "\<forall>j<k + 1. bit w j" by (auto simp: less_Suc_eq)
    with "1.IH" [OF nz] True show ?thesis unfolding eq by auto
  next
    case False
    have "scan_bit w k = k"
    proof (cases "k < 8")
      case True
      with False mask show ?thesis by (simp add: scan_bit.simps [of w k])
    next
      case f: False
      with "1.prems" have "k = 8" by simp
      then have "push_bit k BITMAP_MASK = (0 :: u8)" by (simp add: BITMAP_MASK_def)
      then show ?thesis by (simp add: scan_bit.simps [of w k])
    qed
    with False "1.prems" show ?thesis by auto
  qed
qed

text \<open>The first two loops find the first unused position.\<close>

lemma first_free:
  assumes "scan_byte b 0 < btmp_bytes_len b"
  defines "f \<equiv> scan_byte b 0 * 8 + scan_bit (bits b (scan_byte b 0)) 0"
  shows "f < bm_cap b" and "\<not> bm_used b f" and "\<forall>i<f. bm_used b i"
proof -
  let ?B = "scan_byte b 0" and ?k = "scan_bit (bits b (scan_byte b 0)) 0"
  have B: "\<forall>k<?B. bits b k = 0xff" "bits b ?B \<noteq> 0xff"
    using scan_byte_spec [of 0 b] assms(1) by auto
  have k: "?k \<le> 8" "\<forall>j<?k. bit (bits b ?B) j" "?k < 8 \<longrightarrow> \<not> bit (bits b ?B) ?k"
    using scan_bit_spec [of 0 "bits b ?B"] by auto
  have k8: "?k < 8"
    using u8_not_full [OF B(2)] k(1,2) by (metis leD le_neq_implies_less less_imp_le_nat)
  then show "f < bm_cap b" using assms(1) by (simp add: f_def bm_cap_def)
  have fd: "f div 8 = ?B" "f mod 8 = ?k" using k8 by (simp_all add: f_def)
  show "\<not> bm_used b f" using k(3) k8 by (simp add: bm_used_def fd)
  show "\<forall>i<f. bm_used b i"
  proof (intro allI impI)
    fix i assume i: "i < f"
    show "bm_used b i"
    proof (cases "i div 8 < ?B")
      case True
      then show ?thesis using B(1) bit_u8_full by (simp add: bm_used_def)
    next
      case False
      have "i div 8 \<le> f div 8" using i by (simp add: div_le_mono)
      with False fd have q: "i div 8 = ?B" by simp
      moreover have "i mod 8 < ?k" using i q fd by (metis div_mult_mod_eq nat_add_left_cancel_less)
      ultimately show ?thesis using k(2) by (simp add: bm_used_def)
    qed
  qed
qed

text \<open>
  The third loop. \<open>count\<close> is the length of the free run that ends just before \<open>next\<close>, and no
  window of \<open>cnt\<close> free positions ends there or earlier.
\<close>

definition run_inv :: "bitmap \<Rightarrow> nat \<Rightarrow> nat \<Rightarrow> nat \<Rightarrow> bool" where
  "run_inv b cnt nxt count =
     (count < cnt \<and> count \<le> nxt \<and> free_run b (nxt - count) count \<and>
      (count < nxt \<longrightarrow> bm_used b (nxt - count - 1)) \<and>
      (\<forall>r. r + cnt \<le> nxt \<longrightarrow> \<not> free_run b r cnt))"

definition first_fit :: "bitmap \<Rightarrow> nat \<Rightarrow> nat \<Rightarrow> int \<Rightarrow> bool" where
  "first_fit b cnt lim res =
     (if \<exists>r. r + cnt \<le> lim \<and> free_run b r cnt
      then \<exists>r. res = int r \<and> r + cnt \<le> lim \<and> free_run b r cnt \<and> (\<forall>r'<r. \<not> free_run b r' cnt)
      else res = - 1)"

lemma first_fit_one:
  assumes "f < lim" and "\<not> bm_used b f" and "\<forall>i<f. bm_used b i"
  shows "first_fit b 1 lim (int f)"
proof -
  have "f + 1 \<le> lim \<and> free_run b f 1 \<and> (\<forall>r'<f. \<not> free_run b r' 1)"
    using assms by (simp add: free_run_def)
  then show ?thesis unfolding first_fit_def by metis
qed

lemma run_inv_used:
  assumes "run_inv b cnt nxt count" and "bm_used b nxt"
  shows "run_inv b cnt (nxt + 1) 0"
proof -
  have "\<not> free_run b r cnt" if "r + cnt \<le> nxt + 1" for r
  proof (cases "r + cnt \<le> nxt")
    case True
    then show ?thesis using assms(1) by (simp add: run_inv_def)
  next
    case False
    with that assms(1) have "nxt = r + (cnt - 1)" "cnt - 1 < cnt" by (auto simp: run_inv_def)
    with assms(2) show ?thesis by (auto simp: free_run_def)
  qed
  with assms show ?thesis by (auto simp: run_inv_def free_run_def)
qed

lemma run_inv_free:
  assumes "run_inv b cnt nxt count" and "\<not> bm_used b nxt"
  shows "free_run b (nxt - count) (count + 1)"
    and "count + 1 < cnt \<Longrightarrow> run_inv b cnt (nxt + 1) (count + 1)"
proof -
  show fr: "free_run b (nxt - count) (count + 1)"
    using assms by (auto simp: run_inv_def free_run_def less_Suc_eq)
  assume lt: "count + 1 < cnt"
  have "\<not> free_run b r cnt" if "r + cnt \<le> nxt + 1" for r
  proof (cases "r + cnt \<le> nxt")
    case True
    then show ?thesis using assms(1) by (simp add: run_inv_def)
  next
    case False
    with that lt have r: "nxt - count - 1 = r + (cnt - count - 2)" "count < nxt" by auto
    moreover have "cnt - count - 2 < cnt" using lt by simp
    ultimately show ?thesis using assms(1) by (metis free_run_def run_inv_def)
  qed
  with assms lt fr show "run_inv b cnt (nxt + 1) (count + 1)" by (auto simp: run_inv_def)
qed

lemma scan_run_spec:
  "run_inv b cnt nxt count \<Longrightarrow> first_fit b cnt (nxt + left) (scan_run b cnt left nxt count)"
proof (induction left arbitrary: nxt count)
  case 0
  then show ?case by (auto simp: run_inv_def first_fit_def)
next
  case (Suc left)
  show ?case
  proof (cases "bm_used b nxt")
    case True
    have "cnt \<noteq> 0" using Suc.prems by (simp add: run_inv_def)
    with Suc.IH [OF run_inv_used [OF Suc.prems True]] True show ?thesis by simp
  next
    case False
    note fr = run_inv_free [OF Suc.prems False]
    have le: "count < cnt" "count \<le> nxt" using Suc.prems by (simp_all add: run_inv_def)
    show ?thesis
    proof (cases "count + 1 = cnt")
      case True
      then have res: "scan_run b cnt (Suc left) nxt count = int (nxt - count)"
        using False le by simp
      have "\<not> free_run b r cnt" if "r < nxt - count" for r
        using Suc.prems that True by (auto simp: run_inv_def)
      moreover have "free_run b (nxt - count) cnt" using fr(1) True by simp
      moreover have "nxt - count + cnt \<le> nxt + Suc left" using True le by simp
      ultimately show ?thesis unfolding first_fit_def res by (metis (no_types))
    next
      case ne: False
      with le have "count + 1 < cnt" by simp
      with Suc.IH [OF fr(2)] False ne show ?thesis by simp
    qed
  qed
qed

section \<open>The scan\<close>

text \<open>
  How far a window may reach: the multi-bit search tests one position past the end of the map.
\<close>

definition scan_limit :: "bitmap \<Rightarrow> nat \<Rightarrow> nat" where
  "scan_limit b cnt = (if cnt = 1 then bm_cap b else bm_cap b + 1)"

lemma run_inv_start:
  assumes "\<not> bm_used b f" and "\<forall>i<f. bm_used b i" and "2 \<le> cnt"
  shows "run_inv b cnt (f + 1) 1"
proof -
  have "\<not> free_run b r cnt" if "r + cnt \<le> f + 1" for r
  proof -
    have "r < f" "0 < cnt" using that assms(3) by simp_all
    with assms(2) show ?thesis by (auto simp: free_run_def)
  qed
  with assms show ?thesis by (auto simp: run_inv_def free_run_def)
qed

lemma bitmap_scan_first_fit:
  assumes "1 \<le> cnt"
  shows "\<exists>r. bitmap_scan b cnt = Some r \<and> first_fit b cnt (scan_limit b cnt) r"
proof (cases "scan_byte b 0 = btmp_bytes_len b")
  case True
  then have all: "\<forall>i<bm_cap b. bm_used b i"
    using scan_byte_spec [of 0 b] bit_u8_full
    by (auto simp: bm_cap_def bm_used_def)
  have "\<not> free_run b r cnt" if "r + cnt \<le> scan_limit b cnt" for r
  proof -
    have "r < bm_cap b" "0 < cnt" using that assms by (auto simp: scan_limit_def split: if_splits)
    with all show ?thesis by (auto simp: free_run_def)
  qed
  with True show ?thesis by (auto simp: bitmap_scan_def first_fit_def)
next
  case False
  then have lt: "scan_byte b 0 < btmp_bytes_len b" using scan_byte_spec [of 0 b] by auto
  note f = first_free [OF lt]
  let ?f = "scan_byte b 0 * 8 + scan_bit (bits b (scan_byte b 0)) 0"
  show ?thesis
  proof (cases "cnt = 1")
    case True
    have "first_fit b 1 (bm_cap b) (int ?f)" by (rule first_fit_one [OF f])
    with True lt show ?thesis
      by (simp add: bitmap_scan_def scan_limit_def Let_def)
  next
    case c: False
    with assms have "2 \<le> cnt" by simp
    from scan_run_spec [OF run_inv_start [OF f(2,3) this], of "bm_cap b - ?f"]
    have "first_fit b cnt (bm_cap b + 1) (scan_run b cnt (bm_cap b - ?f) (?f + 1) 1)"
      using f(1) by simp
    with c lt show ?thesis
      by (simp add: bitmap_scan_def scan_limit_def Let_def bm_cap_def mult.commute)
  qed
qed

section \<open>The contract of a pool of numbered slots\<close>

text \<open>
  What the clients of the bitmap (frame pools, pids, inodes, blocks) rely on: a scan for one
  slot finds the lowest unused slot or answers \<open>-1\<close> when there is none, and setting a slot
  changes that slot alone.
\<close>

locale slot_pool =
  fixes scan :: "'b \<Rightarrow> nat \<Rightarrow> int option"
    and setb :: "'b \<Rightarrow> nat \<Rightarrow> int \<Rightarrow> 'b option"
    and used :: "'b \<Rightarrow> nat \<Rightarrow> bool"
    and cap :: "'b \<Rightarrow> nat"
  assumes scan_none: "\<forall>i<cap b. used b i \<Longrightarrow> scan b 1 = Some (- 1)"
    and scan_some: "i < cap b \<Longrightarrow> \<not> used b i \<Longrightarrow> \<forall>j<i. used b j \<Longrightarrow> scan b 1 = Some (int i)"
    and set_some: "v = 0 \<or> v = 1 \<Longrightarrow> \<exists>b'. setb b i v = Some b'"
    and set_used: "setb b i v = Some b' \<Longrightarrow> used b' j = (if j = i then v = 1 else used b j)"
    and set_cap: "setb b i v = Some b' \<Longrightarrow> cap b' = cap b"
begin

lemma scan_cases:
  obtains (full) "scan b 1 = Some (- 1)" and "\<forall>i<cap b. used b i"
  | (free) i where "scan b 1 = Some (int i)" and "i < cap b" and "\<not> used b i"
      and "\<forall>j<i. used b j"
proof (cases "\<forall>i<cap b. used b i")
  case True
  then show ?thesis using full scan_none by blast
next
  case False
  let ?P = "\<lambda>i. i < cap b \<and> \<not> used b i"
  from False have ex: "\<exists>i. ?P i" by blast
  define i where "i = (LEAST i. ?P i)"
  have i: "i < cap b" "\<not> used b i" using LeastI_ex [OF ex] by (simp_all add: i_def)
  have below: "\<forall>j<i. used b j"
  proof (intro allI impI)
    fix j assume "j < i"
    then have "\<not> ?P j" unfolding i_def by (rule not_less_Least)
    then show "used b j" using \<open>j < i\<close> i(1) by simp
  qed
  from free [OF scan_some [OF i below] i below] show ?thesis .
qed

text \<open>Taking the slot that a scan found marks that slot and no other.\<close>

lemma take_slot:
  assumes "scan b 1 = Some (int i)"
  shows "\<exists>b'. setb b i 1 = Some b' \<and> cap b' = cap b \<and> i < cap b \<and> \<not> used b i \<and> used b' i
     \<and> (\<forall>j. j \<noteq> i \<longrightarrow> used b' j = used b j)"
proof -
  obtain b' where b': "setb b i 1 = Some b'" using set_some [of 1 b i] by blast
  have "i < cap b \<and> \<not> used b i"
  proof (cases rule: scan_cases [of b])
    case full
    with assms show ?thesis by simp
  next
    case (free k)
    with assms show ?thesis by simp
  qed
  with b' set_used [OF b'] set_cap [OF b'] show ?thesis by simp
qed

text \<open>Giving a slot back and taking one again yields the lowest unused slot.\<close>

lemma give_back:
  assumes "i < cap b" and "\<forall>j<i. used b j"
  shows "\<exists>b'. setb b i 0 = Some b' \<and> scan b' 1 = Some (int i)"
proof -
  obtain b' where b': "setb b i 0 = Some b'" using set_some [of 0 b i] by blast
  have "\<forall>j<i. used b' j" "\<not> used b' i" "i < cap b'"
    using assms set_used [OF b'] set_cap [OF b'] by simp_all
  with b' scan_some show ?thesis by blast
qed

lemma used_count_take:
  assumes "scan b 1 = Some (int i)" and "setb b i 1 = Some b'"
  shows "card {k. k < cap b' \<and> used b' k} = Suc (card {k. k < cap b \<and> used b k})"
proof -
  have *: "i < cap b" "\<not> used b i" "cap b' = cap b" "\<And>k. used b' k = (k = i \<or> used b k)"
    using take_slot [OF assms(1)] assms(2) by auto
  then have "{k. k < cap b' \<and> used b' k} = insert i {k. k < cap b \<and> used b k}" by auto
  moreover have "finite {k. k < cap b \<and> used b k}" by simp
  ultimately show ?thesis using *(2) by simp
qed

end

interpretation bm: slot_pool bitmap_scan bitmap_set bm_used bm_cap
proof
  fix b :: bitmap
  assume all: "\<forall>i<bm_cap b. bm_used b i"
  obtain r where r: "bitmap_scan b 1 = Some r" "first_fit b 1 (bm_cap b) r"
    using bitmap_scan_first_fit [of 1 b] by (auto simp: scan_limit_def)
  with all show "bitmap_scan b 1 = Some (- 1)"
    by (auto simp: first_fit_def free_run_def split: if_splits)
next
  fix i b
  assume i: "i < bm_cap b" "\<not> bm_used b i" "\<forall>j<i. bm_used b j"
  obtain r where r: "bitmap_scan b 1 = Some r" "first_fit b 1 (bm_cap b) r"
    using bitmap_scan_first_fit [of 1 b] by (auto simp: scan_limit_def)
  from i have "i + 1 \<le> bm_cap b \<and> free_run b i 1" by (simp add: free_run_def)
  with r obtain k where k: "r = int k" "k < bm_cap b" "\<not> bm_used b k" "\<forall>j<k. bm_used b j"
    by (auto simp: first_fit_def free_run_def split: if_splits)
  have "k = i" using k(3,4) i(2,3) by (metis linorder_less_linear)
  with k r show "bitmap_scan b 1 = Some (int i)" by simp
next
  fix v b i
  show "v = 0 \<or> v = 1 \<Longrightarrow> \<exists>b'. bitmap_set b i v = Some b'" by (rule bitmap_set_Some)
next
  fix b i v b' j
  show "bitmap_set b i v = Some b' \<Longrightarrow> bm_used b' j = (if j = i then v = 1 else bm_used b j)"
    by (rule bitmap_set_used)
next
  fix b i v b'
  show "bitmap_set b i v = Some b' \<Longrightarrow> bm_cap b' = bm_cap b" by (rule bitmap_set_cap)
qed

section \<open>Properties\<close>



text \<open>
  The search for several bits tests one position too many. When the last position of the map
  is its only unused one and the bit after the map happens to be clear, \<^verbatim>\<open>bitmap_scan\<close> grants
  two bits of which the second is not part of the map.
\<close>
theorem bitmap_scan_overrun:
  assumes "0 < bm_cap b" and "\<forall>i<bm_cap b - 1. bm_used b i"
    and "\<not> bm_used b (bm_cap b - 1)" and "\<not> bm_used b (bm_cap b)"
  shows "bitmap_scan b 2 = Some (int (bm_cap b - 1))"
proof -
  let ?r = "bm_cap b - 1"
  have fr: "free_run b ?r 2" using assms by (auto simp: free_run_def less_Suc_eq numeral_2_eq_2)
  have nf: "\<not> free_run b r 2" if "r < ?r" for r
    using assms(2) that by (auto simp: free_run_def intro!: exI [of _ 0])
  obtain res where res: "bitmap_scan b 2 = Some res" "first_fit b 2 (bm_cap b + 1) res"
    using bitmap_scan_first_fit [of 2 b] by (auto simp: scan_limit_def)
  have "?r + 2 \<le> bm_cap b + 1" using assms(1) by simp
  with fr res(2) obtain r where r: "res = int r" "free_run b r 2" "\<forall>r'<r. \<not> free_run b r' 2"
    unfolding first_fit_def by (metis (no_types, lifting))
  have "r = ?r" using r(2,3) nf fr by (metis linorder_less_linear)
  with res(1) r(1) show ?thesis by simp
qed

theorem bitmap_scan_overrun_witness:
  "bitmap_scan \<lparr>btmp_bytes_len = 1, bits = (\<lambda>i. if i = 0 then 0x7f else 0)\<rparr> 2 = Some 7"
proof -
  define b where "b = \<lparr>btmp_bytes_len = 1, bits = (\<lambda>i. if i = 0 then 0x7f else 0 :: u8)\<rparr>"
  have cap: "bm_cap b = 8" by (simp add: bm_cap_def b_def)
  have m: "(0x7f :: u8) = mask 7" by (simp add: mask_eq_exp_minus_1)
  have "\<forall>i<7. bm_used b i" by (simp add: bm_used_def m bit_mask_iff b_def)
  moreover have "\<not> bm_used b 7" "\<not> bm_used b 8" by (simp_all add: bm_used_def b_def)
  ultimately have "bitmap_scan b 2 = Some 7" using bitmap_scan_overrun [of b] by (simp add: cap)
  then show ?thesis unfolding b_def .
qed

text \<open>
  \<^verbatim>\<open>bitmap_set\<close> and \<^verbatim>\<open>bitmap_scan_test\<close> are a lookup table: after setting position \<open>i\<close>
  to \<open>v\<close>, the test of \<open>i\<close> answers \<open>v\<close>, and every other position answers as before; a value that
  is neither 0 nor 1 panics.
\<close>
theorem bitmap_set_get:
  "(v \<noteq> 0 \<and> v \<noteq> 1 \<and> bitmap_set b i v = None)
   \<or> ((v = 0 \<or> v = 1) \<and> (\<exists>b'. bitmap_set b i v = Some b' \<and> btmp_bytes_len b' = btmp_bytes_len b
        \<and> (\<forall>j. (bitmap_scan_test b' j \<noteq> 0)
               = (if j = i then v = 1 else bitmap_scan_test b j \<noteq> 0))))"
proof (cases "v = 0 \<or> v = 1")
  case True
  then obtain b' where b': "bitmap_set b i v = Some b'" using bitmap_set_Some by blast
  have "btmp_bytes_len b' = btmp_bytes_len b" using bitmap_set_cap [OF b'] by (simp add: bm_cap_def)
  with True b' bitmap_set_used [OF b'] show ?thesis by simp
next
  case False
  then show ?thesis by (simp add: bitmap_set_def)
qed

end
