(* ===== verification/Interrupt.thy ===== *)
theory Interrupt
  imports Prelude
begin

unbundle bit_operations_syntax

text \<open>
  \<^verbatim>\<open>kernel/interrupt.c\<close> and the descriptor code of \<^verbatim>\<open>userprog/tss.c\<close>: the interrupt flag
  and the critical-section bracket built from it, the gates of the interrupt descriptor table,
  the handler table, and the segment descriptors of the global descriptor table.

  The processor state the kernel reads here is \<^verbatim>\<open>eflags\<close>; the record is extended by the
  theories that add the kernel's data. \<^verbatim>\<open>sti\<close> and \<^verbatim>\<open>cli\<close> set and clear bit 9. The programming
  of the interrupt controller is the sequence of port writes it performs.
\<close>

section \<open>The interrupt flag\<close>

datatype intr_status = INTR_OFF | INTR_ON

record cpu =
  eflags :: u32

definition EFLAGS_IF :: u32 where "EFLAGS_IF = 0x00000200"

definition intr_get_status :: "'a cpu_scheme \<Rightarrow> intr_status" where
  "intr_get_status s = (if EFLAGS_IF AND eflags s \<noteq> 0 then INTR_ON else INTR_OFF)"

definition intr_enable :: "'a cpu_scheme \<Rightarrow> intr_status \<times> 'a cpu_scheme" where
  "intr_enable s =
     (if INTR_ON = intr_get_status s then (INTR_ON, s)
      else (INTR_OFF, s\<lparr>eflags := eflags s OR EFLAGS_IF\<rparr>))"

definition intr_disable :: "'a cpu_scheme \<Rightarrow> intr_status \<times> 'a cpu_scheme" where
  "intr_disable s =
     (if INTR_ON = intr_get_status s then (INTR_ON, s\<lparr>eflags := eflags s AND NOT EFLAGS_IF\<rparr>)
      else (INTR_OFF, s))"

definition intr_set_status :: "intr_status \<Rightarrow> 'a cpu_scheme \<Rightarrow> intr_status \<times> 'a cpu_scheme" where
  "intr_set_status status s = (if status = INTR_ON then intr_enable s else intr_disable s)"

section \<open>The interrupt descriptor table\<close>

record gate_desc =
  func_offset_low_word :: u16
  selector :: u16
  dcount :: u8
  attribute :: u8
  func_offset_high_word :: u16

definition SELECTOR_K_CODE :: u16 where "SELECTOR_K_CODE = push_bit 3 1 + push_bit 2 0 + 0"

definition IDT_DESC_CNT :: nat where "IDT_DESC_CNT = 0x81"

definition IDT_DESC_ATTR_DPL0 :: u8 where "IDT_DESC_ATTR_DPL0 = push_bit 7 1 + push_bit 5 0 + 0xE"
definition IDT_DESC_ATTR_DPL3 :: u8 where "IDT_DESC_ATTR_DPL3 = push_bit 7 1 + push_bit 5 3 + 0xE"

definition make_idt_desc :: "u8 \<Rightarrow> u32 \<Rightarrow> gate_desc" where
  "make_idt_desc attr func =
     \<lparr>func_offset_low_word = ucast (func AND 0x0000FFFF),
      selector = SELECTOR_K_CODE,
      dcount = 0,
      attribute = attr,
      func_offset_high_word = ucast (drop_bit 16 (func AND 0xFFFF0000))\<rparr>"

text \<open>
  \<^verbatim>\<open>intr_entry_table\<close> and \<^verbatim>\<open>syscall_handler\<close> are the entry points of \<^verbatim>\<open>kernel.S\<close>; the loop
  fills all gates and the last gate is then replaced.
\<close>

definition idt_desc_init :: "(nat \<Rightarrow> u32) \<Rightarrow> u32 \<Rightarrow> gate_desc list" where
  "idt_desc_init intr_entry_table syscall_handler =
     (map (\<lambda>i. make_idt_desc IDT_DESC_ATTR_DPL0 (intr_entry_table i)) [0..<IDT_DESC_CNT])
       [IDT_DESC_CNT - 1 := make_idt_desc IDT_DESC_ATTR_DPL3 syscall_handler]"

text \<open>
  The C handlers: \<^verbatim>\<open>exception_init\<close> points every vector at the general handler and names the
  processor exceptions; \<^verbatim>\<open>register_handler\<close> overwrites one entry. A vector beyond the table would
  write outside the array, so it has no defined result.
\<close>

datatype handler = general_intr_handler | intr_timer_handler_ptr | intr_keyboard_handler_ptr
  | intr_hd_handler_ptr

record handlers =
  idt_table :: "handler list"
  intr_name :: "string list"

definition exception_names :: "(nat \<times> string) list" where
  "exception_names =
    [(0, ''#DE Divide Error''),
     (1, ''#DB Debug Exception''),
     (2, ''NMI Interrupt''),
     (3, ''#BP Breakpoint Exception''),
     (4, ''#OF Overflow Exception''),
     (5, ''#BR BOUND Range Exceeded Exception''),
     (6, ''#UD Invalid Opcode Exception''),
     (7, ''#NM Device Not Available Exception''),
     (8, ''#DF Double Fault Exception''),
     (9, ''Coprocessor Segment Overrun''),
     (10, ''#TS Invalid TSS Exception''),
     (11, ''#NP Segment Not Present''),
     (12, ''#SS Stack Fault Exception''),
     (13, ''#GP General Protection Exception''),
     (14, ''#PF Page-Fault Exception''),
     (16, ''#MF x87 FPU Floating-Point Error''),
     (17, ''#AC Alignment Check Exception''),
     (18, ''#MC Machine-Check Exception''),
     (19, ''#XF SIMD Floating-Point Exception'')]"

definition exception_init :: handlers where
  "exception_init =
     \<lparr>idt_table = replicate IDT_DESC_CNT general_intr_handler,
      intr_name = fold (\<lambda>(i, n) ns. ns[i := n]) exception_names
        (replicate IDT_DESC_CNT ''unknown intr or handler unimplemented'')\<rparr>"

definition register_handler :: "u8 \<Rightarrow> handler \<Rightarrow> handlers \<Rightarrow> handlers option" where
  "register_handler vector_no func h =
     (if unat vector_no < length (idt_table h)
      then Some (h\<lparr>idt_table := (idt_table h)[unat vector_no := func]\<rparr>) else None)"

text \<open>The port writes that program the two interrupt controllers, as (port, byte) pairs.\<close>

definition pic_init :: "(u16 \<times> u8) list" where
  "pic_init =
    [(0x20, 0x11), (0x21, 0x20), (0x21, 0x04), (0x21, 0x01),
     (0xa0, 0x11), (0xa1, 0x28), (0xa1, 0x02), (0xa1, 0x01),
     (0x21, 0xf8), (0xa1, 0xbf)]"

text \<open>
  What \<^verbatim>\<open>general_intr_handler\<close> and \<^verbatim>\<open>panic_spin\<close> put on the screen, as the calls of the routines of \<^verbatim>\<open>print.S\<close> in
  order. The handler returns only for the two spurious interrupts; otherwise it loops for ever with interrupts
  off, as \<^verbatim>\<open>panic_spin\<close> does. A vector beyond the table of names has no defined result; \<open>cr2\<close> is the address that faulted.
\<close>

datatype screen_call = Set_cursor u32 | Put_char u8 | Put_str string | Put_int u32

datatype after_call = Returns | Spins

definition general_intr :: "u8 \<Rightarrow> u32 \<Rightarrow> handlers \<Rightarrow> (screen_call list \<times> after_call) option" where
  "general_intr vec_nr cr2 h =
     (if vec_nr = 0x27 \<or> vec_nr = 0x2f then Some ([], Returns)
      else if unat vec_nr < length (intr_name h) then
        Some ([Set_cursor 0] @ replicate 320 (Put_char 0x20)
          @ [Set_cursor 0, Put_str (''!!!!!!!      exception message begin  !!!!!!!!'' @ [CHR 0x0a]),
             Set_cursor 88, Put_str (intr_name h ! unat vec_nr)]
          @ (if vec_nr = 14 then [Put_str (CHR 0x0a # ''page fault addr is ''), Put_int cr2] else [])
          @ [Put_str (CHR 0x0a # ''!!!!!!!      exception message end    !!!!!!!!'' @ [CHR 0x0a])], Spins)
      else None)"

definition panic_spin :: "string \<Rightarrow> u32 \<Rightarrow> string \<Rightarrow> string \<Rightarrow> 'a cpu_scheme \<Rightarrow> screen_call list \<times> after_call \<times> 'a cpu_scheme" where
  "panic_spin filename line func condition s =
     ([Put_str ([CHR 0x0a, CHR 0x0a, CHR 0x0a] @ ''!!!!! error !!!!!'' @ [CHR 0x0a]),
       Put_str ''filename:'', Put_str filename, Put_str [CHR 0x0a],
       Put_str ''line:0x'', Put_int line, Put_str [CHR 0x0a],
       Put_str ''function:'', Put_str func, Put_str [CHR 0x0a],
       Put_str ''condition:'', Put_str condition, Put_str [CHR 0x0a]], Spins, snd (intr_disable s))"

text \<open>\<^verbatim>\<open>idt_init\<close>: the gates, the handlers, the port writes, and the operand of \<^verbatim>\<open>lidt\<close>, with the table at \<open>idt_addr\<close>.\<close>

definition idt_init :: "addr \<Rightarrow> (nat \<Rightarrow> u32) \<Rightarrow> u32 \<Rightarrow> gate_desc list \<times> handlers \<times> (u16 \<times> u8) list \<times> u64" where
  "idt_init idt_addr intr_entry_table syscall_handler =
     (idt_desc_init intr_entry_table syscall_handler, exception_init, pic_init,
      of_nat (IDT_DESC_CNT * 8 - 1) OR push_bit 16 (ucast idt_addr))"

section \<open>Segment descriptors\<close>

record gdt_desc =
  limit_low_word :: u16
  base_low_word :: u16
  base_mid_byte :: u8
  attr_low_byte :: u8
  limit_high_attr_high :: u8
  base_high_byte :: u8

definition make_gdt_desc :: "u32 \<Rightarrow> u32 \<Rightarrow> u8 \<Rightarrow> u8 \<Rightarrow> gdt_desc" where
  "make_gdt_desc desc_base limit attr_low attr_high =
     \<lparr>limit_low_word = ucast (limit AND 0x0000ffff),
      base_low_word = ucast (desc_base AND 0x0000ffff),
      base_mid_byte = ucast (drop_bit 16 (desc_base AND 0x00ff0000)),
      attr_low_byte = attr_low,
      limit_high_attr_high = ucast (drop_bit 16 (limit AND 0x000f0000) + ucast attr_high),
      base_high_byte = ucast (drop_bit 24 desc_base)\<rparr>"

definition GDT_ATTR_HIGH :: u8 where
  "GDT_ATTR_HIGH = push_bit 7 1 + push_bit 6 1 + push_bit 5 0 + push_bit 4 0"
definition GDT_CODE_ATTR_LOW_DPL3 :: u8 where
  "GDT_CODE_ATTR_LOW_DPL3 = push_bit 7 1 + push_bit 5 3 + push_bit 4 1 + 8"
definition GDT_DATA_ATTR_LOW_DPL3 :: u8 where
  "GDT_DATA_ATTR_LOW_DPL3 = push_bit 7 1 + push_bit 5 3 + push_bit 4 1 + 2"
definition TSS_ATTR_HIGH :: u8 where
  "TSS_ATTR_HIGH = push_bit 7 1 + push_bit 6 0 + push_bit 5 0 + push_bit 4 0 + 0x0"
definition TSS_ATTR_LOW :: u8 where
  "TSS_ATTR_LOW = push_bit 7 1 + push_bit 5 0 + push_bit 4 0 + 9"

text \<open>
  The task state segment as far as the kernel writes it, and the descriptors \<^verbatim>\<open>tss_init\<close> adds:
  slot \<open>i\<close> of the table lies at \<^verbatim>\<open>0xc0000900 + 8 * i\<close>, so the three writes fill slots 4, 5, 6.
\<close>

record tss =
  esp0 :: u32
  ss0 :: u32
  io_base :: u32

definition SELECTOR_K_STACK :: u32 where "SELECTOR_K_STACK = push_bit 3 2 + push_bit 2 0 + 0"

definition tss_size :: nat where "tss_size = 27 * 4"

definition update_tss_esp :: "addr \<Rightarrow> tss \<Rightarrow> tss" where
  "update_tss_esp pthread t = t\<lparr>esp0 := pthread + of_nat PG_SIZE\<rparr>"

definition tss_init :: "addr \<Rightarrow> (nat \<Rightarrow> gdt_desc) \<Rightarrow> tss \<times> (nat \<Rightarrow> gdt_desc) \<times> u64" where
  "tss_init tss_addr gdt =
     (\<lparr>esp0 = 0, ss0 = SELECTOR_K_STACK, io_base = of_nat tss_size\<rparr>,
      gdt(4 := make_gdt_desc tss_addr (of_nat tss_size - 1) TSS_ATTR_LOW TSS_ATTR_HIGH,
          5 := make_gdt_desc 0 0xfffff GDT_CODE_ATTR_LOW_DPL3 GDT_ATTR_HIGH,
          6 := make_gdt_desc 0 0xfffff GDT_DATA_ATTR_LOW_DPL3 GDT_ATTR_HIGH),
      push_bit 16 (0xc0000900 :: u64) OR (8 * 7 - 1))"

section \<open>Critical sections\<close>

lemma get_status_simps [simp]:
  "intr_get_status (snd (intr_disable s)) = INTR_OFF"
  "intr_get_status (snd (intr_enable s)) = INTR_ON"
proof -
  have "EFLAGS_IF AND (eflags s AND NOT EFLAGS_IF) = 0"
    by (rule bit_eqI) (auto simp: bit_simps)
  then show "intr_get_status (snd (intr_disable s)) = INTR_OFF"
    by (auto simp: intr_disable_def intr_get_status_def)
  have "EFLAGS_IF AND (eflags s OR EFLAGS_IF) = EFLAGS_IF"
    by (rule bit_eqI) (auto simp: bit_simps)
  moreover have "EFLAGS_IF \<noteq> 0" by (simp add: EFLAGS_IF_def)
  ultimately show "intr_get_status (snd (intr_enable s)) = INTR_ON"
    by (auto simp: intr_enable_def intr_get_status_def)
qed

lemma intr_disable_more [frame_simps]: "cpu.more (snd (intr_disable s)) = cpu.more s"
  and intr_enable_more [frame_simps]: "cpu.more (snd (intr_enable s)) = cpu.more s"
  and intr_set_status_more [frame_simps]: "cpu.more (snd (intr_set_status st s)) = cpu.more s"
  by (auto simp: intr_disable_def intr_enable_def intr_set_status_def)

lemma fst_intr_disable [simp]: "fst (intr_disable s) = intr_get_status s"
  by (cases "intr_get_status s") (auto simp: intr_disable_def)

lemma EFLAGS_IF_push: "EFLAGS_IF = push_bit 9 1"
  by (simp add: EFLAGS_IF_def)

lemma IF_bit: "(EFLAGS_IF AND w = 0) = (\<not> bit w 9)"
  unfolding EFLAGS_IF_push and.commute [of _ w] by (rule bit_mask_test) simp

text \<open>
  \<^verbatim>\<open>old = intr_disable(); ...; intr_set_status(old)\<close> leaves \<^verbatim>\<open>eflags\<close> as it was when the body
  leaves it alone.
\<close>

lemma intr_bracket:
  assumes "eflags t = eflags (snd (intr_disable s))"
  shows "eflags (snd (intr_set_status (fst (intr_disable s)) t)) = eflags s"
proof (cases "intr_get_status s")
  case INTR_ON
  then have b: "bit (eflags s) 9" by (simp add: intr_get_status_def IF_bit split: if_splits)
  have "eflags s AND NOT EFLAGS_IF OR EFLAGS_IF = eflags s"
    by (rule bit_eqI) (use b in \<open>auto simp: bit_simps EFLAGS_IF_push simp del: push_bit_of_1\<close>)
  moreover have "EFLAGS_IF AND (eflags s AND NOT EFLAGS_IF) = 0"
    by (rule bit_eqI) (auto simp: bit_simps)
  ultimately show ?thesis
    using INTR_ON assms
    by (auto simp: intr_set_status_def intr_enable_def intr_disable_def)
      (auto simp: intr_get_status_def)
next
  case INTR_OFF
  then have "eflags t = eflags s" using assms by (simp add: intr_disable_def)
  moreover from this have "intr_get_status t = INTR_OFF"
    using INTR_OFF by (simp add: intr_get_status_def)
  ultimately show ?thesis using INTR_OFF by (simp add: intr_set_status_def intr_disable_def)
qed

text \<open>The status operations as updates of the flag register.\<close>

lemma intr_disable_upd: "snd (intr_disable s) = s\<lparr>eflags := eflags s AND NOT EFLAGS_IF\<rparr>"
proof (cases "intr_get_status s")
  case INTR_OFF
  then have b: "\<not> bit (eflags s) 9" by (simp add: intr_get_status_def IF_bit split: if_splits)
  have "eflags s AND NOT EFLAGS_IF = eflags s"
    by (rule bit_eqI) (use b in \<open>auto simp: bit_simps EFLAGS_IF_push simp del: push_bit_of_1\<close>)
  then show ?thesis using INTR_OFF by (simp add: intr_disable_def)
qed (simp add: intr_disable_def)

lemma intr_enable_upd: "snd (intr_enable s) = s\<lparr>eflags := eflags s OR EFLAGS_IF\<rparr>"
proof (cases "intr_get_status s")
  case INTR_ON
  then have b: "bit (eflags s) 9" by (simp add: intr_get_status_def IF_bit split: if_splits)
  have "eflags s OR EFLAGS_IF = eflags s"
    by (rule bit_eqI) (use b in \<open>auto simp: bit_simps EFLAGS_IF_push simp del: push_bit_of_1\<close>)
  then show ?thesis using INTR_ON by (simp add: intr_enable_def)
qed (simp add: intr_enable_def)

lemma intr_set_status_upd:
  "snd (intr_set_status st s) = s\<lparr>eflags := (if st = INTR_ON then eflags s OR EFLAGS_IF else eflags s AND NOT EFLAGS_IF)\<rparr>"
  by (simp add: intr_set_status_def intr_enable_upd intr_disable_upd)

lemma intr_bracket_upd:
  assumes "eflags t = eflags s AND NOT EFLAGS_IF"
  shows "snd (intr_set_status (intr_get_status s) t) = t\<lparr>eflags := eflags s\<rparr>"
proof (rule cpu.equality)
  show "eflags (snd (intr_set_status (intr_get_status s) t)) = eflags (t\<lparr>eflags := eflags s\<rparr>)"
    using intr_bracket [of t s] assms by (simp add: intr_disable_upd)
qed (simp add: frame_simps)

lemma intr_get_status_off [simp]: "intr_get_status (s\<lparr>eflags := w AND NOT EFLAGS_IF\<rparr>) = INTR_OFF"
proof -
  have "EFLAGS_IF AND (w AND NOT EFLAGS_IF) = 0" by (rule bit_eqI) (auto simp: bit_simps)
  then show ?thesis by (simp add: intr_get_status_def)
qed

lemma intr_off_mask: "intr_get_status s = INTR_OFF \<Longrightarrow> eflags s AND NOT EFLAGS_IF = eflags s"
proof -
  assume "intr_get_status s = INTR_OFF"
  then have b: "\<not> bit (eflags s) 9" by (simp add: intr_get_status_def IF_bit split: if_splits)
  show ?thesis
    by (rule bit_eqI) (use b in \<open>auto simp: bit_simps EFLAGS_IF_push simp del: push_bit_of_1\<close>)
qed

section \<open>What the processor reads back\<close>

text \<open>The entry point and privilege level of a gate, the base and limit of a segment.\<close>

definition gate_target :: "gate_desc \<Rightarrow> u32" where
  "gate_target g = push_bit 16 (ucast (func_offset_high_word g)) OR ucast (func_offset_low_word g)"

definition gate_dpl :: "gate_desc \<Rightarrow> nat" where
  "gate_dpl g = unat (drop_bit 5 (attribute g) AND 3)"

definition desc_base :: "gdt_desc \<Rightarrow> u32" where
  "desc_base d = push_bit 24 (ucast (base_high_byte d)) OR push_bit 16 (ucast (base_mid_byte d))
     OR ucast (base_low_word d)"

definition desc_limit :: "gdt_desc \<Rightarrow> u32" where
  "desc_limit d = push_bit 16 (ucast (limit_high_attr_high d AND 0x0f)) OR ucast (limit_low_word d)"

definition desc_attr_high :: "gdt_desc \<Rightarrow> u8" where
  "desc_attr_high d = limit_high_attr_high d AND 0xf0"

lemma mask_constants:
  "(0x0000FFFF :: u32) = mask 16" "(0xFFFF0000 :: u32) = push_bit 16 (mask 16)"
  "(0x00ff0000 :: u32) = push_bit 16 (mask 8)" "(0x000f0000 :: u32) = push_bit 16 (mask 4)"
  "(0x0f :: u8) = mask 4" "(0x0f :: u32) = mask 4" "(0xf0 :: u8) = push_bit 4 (mask 4)"
  by (simp_all add: mask_eq_exp_minus_1)

lemma gate_target_make: "gate_target (make_idt_desc a f) = f"
  unfolding gate_target_def make_idt_desc_def mask_constants
  by (rule bit_word_eqI) (auto simp: bit_simps)

lemma gate_dpl_make:
  "gate_dpl (make_idt_desc IDT_DESC_ATTR_DPL0 f) = 0"
  "gate_dpl (make_idt_desc IDT_DESC_ATTR_DPL3 f) = 3"
  by (simp_all add: gate_dpl_def make_idt_desc_def IDT_DESC_ATTR_DPL0_def IDT_DESC_ATTR_DPL3_def)

lemma desc_base_make: "desc_base (make_gdt_desc b l al ah) = b"
proof (rule bit_word_eqI)
  fix n assume "n < LENGTH(32)"
  then consider "n < 16" | "16 \<le> n" "n < 24" | "24 \<le> n" "n < 32" by fastforce
  then show "bit (desc_base (make_gdt_desc b l al ah)) n = bit b n"
    unfolding desc_base_def make_gdt_desc_def mask_constants
    by cases (auto simp: bit_simps)
qed

text \<open>
  The byte that holds the upper limit bits and the upper attributes is formed by an addition; it
  is a disjunction because the two parts do not overlap.
\<close>

lemma low_nibble_clear:
  fixes ah :: u8
  assumes "ah AND 0x0f = 0" and "bit ah n"
  shows "4 \<le> n"
proof (rule ccontr)
  assume "\<not> 4 \<le> n"
  then have "bit (ah AND 0x0f) n" using assms(2) by (simp add: mask_constants bit_simps)
  with assms(1) show False by simp
qed

lemma limit_attr_byte:
  assumes "ah AND 0x0f = 0"
  shows "limit_high_attr_high (make_gdt_desc b l al ah) = ucast (drop_bit 16 l AND 0x0f) OR ah"
proof -
  note nb = low_nibble_clear [OF assms]
  have dis: "drop_bit 16 (l AND 0x000f0000) AND ucast ah = (0 :: u32)"
    unfolding mask_constants using nb by (fastforce simp: bit_eq_iff bit_simps)
  have "drop_bit 16 (l AND 0x000f0000) + ucast ah = drop_bit 16 (l AND 0x000f0000) OR (ucast ah :: u32)"
    using dis by (simp add: disjunctive_add_eq_or)
  then show ?thesis
    unfolding make_gdt_desc_def
    by (simp add: mask_constants) (rule bit_word_eqI, auto simp: bit_simps)
qed

section \<open>Properties\<close>

text \<open>
  The critical-section bracket of the kernel. Interrupts are off inside
  \<^verbatim>\<open>old = intr_disable(); ... intr_set_status(old)\<close>, and when the body does not touch \<^verbatim>\<open>eflags\<close>
  the flag register is exactly what it was before, so brackets nest.
\<close>
theorem critical_section_restores:
  fixes s t :: "'a cpu_scheme"
  assumes "eflags t = eflags (snd (intr_disable s))"
  shows "intr_get_status (snd (intr_disable s)) = INTR_OFF
       \<and> eflags (snd (intr_set_status (fst (intr_disable s)) t)) = eflags s
       \<and> cpu.more (snd (intr_set_status (fst (intr_disable s)) t)) = cpu.more t"
  using intr_bracket [OF assms] by (simp add: frame_simps)

theorem critical_section_restores_witness:
  "let s = \<lparr>eflags = 0x202\<rparr>; (old, t) = intr_disable s
   in old = INTR_ON \<and> eflags t = 2 \<and> eflags (snd (intr_set_status old t)) = 0x202"
  using critical_section_restores [of "snd (intr_disable \<lparr>eflags = 0x202\<rparr>)" "\<lparr>eflags = 0x202\<rparr>"]
  by (simp add: intr_disable_def intr_get_status_def EFLAGS_IF_def)

text \<open>
  The interrupt descriptor table after \<^verbatim>\<open>idt_desc_init\<close>: every gate enters the kernel code
  segment at its own entry point, and the system call gate \<^verbatim>\<open>0x80\<close> is the only one that user
  code may raise by an \<^verbatim>\<open>int\<close> instruction (privilege level 3).
\<close>
theorem idt_gates:
  assumes "i < IDT_DESC_CNT"
  shows "length (idt_desc_init entry sys) = IDT_DESC_CNT
       \<and> gate_target (idt_desc_init entry sys ! i) = (if i = 0x80 then sys else entry i)
       \<and> selector (idt_desc_init entry sys ! i) = SELECTOR_K_CODE
       \<and> (gate_dpl (idt_desc_init entry sys ! i) = 3) = (i = 0x80)"
proof (cases "i = 0x80")
  case True
  then show ?thesis
    by (simp add: idt_desc_init_def IDT_DESC_CNT_def gate_target_make gate_dpl_make make_idt_desc_def
        [THEN arg_cong [of _ _ selector]])
next
  case False
  with assms show ?thesis
    by (simp add: idt_desc_init_def IDT_DESC_CNT_def gate_target_make gate_dpl_make make_idt_desc_def
        [THEN arg_cong [of _ _ selector]])
qed

theorem idt_gates_witness:
  "gate_dpl (idt_desc_init (\<lambda>i. 0xc0001500 + of_nat i) 0xc0001a00 ! 0x21) \<noteq> 3
   \<and> gate_target (idt_desc_init (\<lambda>i. 0xc0001500 + of_nat i) 0xc0001a00 ! 0x80) = 0xc0001a00"
  using idt_gates [of "0x21" "\<lambda>i. 0xc0001500 + of_nat i" "0xc0001a00"]
    idt_gates [of "0x80" "\<lambda>i. 0xc0001500 + of_nat i" "0xc0001a00"]
  by (simp add: IDT_DESC_CNT_def)

text \<open>
  \<^verbatim>\<open>make_gdt_desc\<close> stores its arguments: the scattered base, the 20-bit limit and the
  attributes are read back from the descriptor when the upper attributes leave the low half of
  their byte clear, as every use in \<^verbatim>\<open>tss_init\<close> does.
\<close>
theorem gdt_desc_roundtrip:
  assumes "ah AND 0x0f = 0"
  shows "desc_base (make_gdt_desc b l al ah) = b
       \<and> desc_limit (make_gdt_desc b l al ah) = l AND 0xfffff
       \<and> attr_low_byte (make_gdt_desc b l al ah) = al
       \<and> desc_attr_high (make_gdt_desc b l al ah) = ah"
proof -
  note nb = low_nibble_clear [OF assms]
  have m: "(0xfffff :: u32) = mask 20" by (simp add: mask_eq_exp_minus_1)
  have low: "limit_low_word (make_gdt_desc b l al ah) = ucast (l AND 0x0000ffff)"
    by (simp add: make_gdt_desc_def)
  have "desc_limit (make_gdt_desc b l al ah) = l AND 0xfffff"
    unfolding desc_limit_def limit_attr_byte [OF assms] low unfolding mask_constants m
    by (rule bit_word_eqI) (use nb in \<open>fastforce simp: bit_simps\<close>)
  moreover have "desc_attr_high (make_gdt_desc b l al ah) = ah"
    unfolding desc_attr_high_def limit_attr_byte [OF assms] unfolding mask_constants
    by (rule bit_word_eqI) (use nb in \<open>auto simp: bit_simps\<close>)
  moreover have "attr_low_byte (make_gdt_desc b l al ah) = al" by (simp add: make_gdt_desc_def)
  ultimately show ?thesis by (simp add: desc_base_make)
qed

theorem gdt_desc_roundtrip_witness:
  "desc_limit (make_gdt_desc 0 0xfffff GDT_CODE_ATTR_LOW_DPL3 GDT_ATTR_HIGH) = 0xfffff
   \<and> desc_attr_high (make_gdt_desc 0 0xfffff GDT_CODE_ATTR_LOW_DPL3 GDT_ATTR_HIGH) = 0xc0"
  using gdt_desc_roundtrip [of GDT_ATTR_HIGH 0 "0xfffff" GDT_CODE_ATTR_LOW_DPL3]
  by (simp add: GDT_ATTR_HIGH_def)

end
