(* ===== verification/Klist.thy ===== *)
theory Klist
  imports Interrupt
begin

text \<open>
  \<^verbatim>\<open>lib/kernel/list.c\<close>: the intrusive doubly linked list of the kernel, on an explicit heap.
  A \<^verbatim>\<open>struct list_elem\<close> is an address; its two fields are the functions \<open>lprev\<close> and \<open>lnext\<close> on
  addresses. A \<^verbatim>\<open>struct list\<close> at address \<open>l\<close> is its \<^verbatim>\<open>head\<close> at \<open>l\<close> and its \<^verbatim>\<open>tail\<close> at
  \<open>l + 8\<close>. Aliasing is therefore visible: the operations read and write the same heap, and the
  lemmas say which nodes they need and which they leave alone.

  The walking loops follow \<^verbatim>\<open>next\<close> until the tail and do not end on a broken list, so they are
  \<^theory_text>\<open>partial_function (option)\<close>; on a well-formed list they are shown to return.
\<close>

section \<open>The code\<close>

record lheap = cpu +
  lprev :: "addr \<Rightarrow> addr"
  lnext :: "addr \<Rightarrow> addr"

definition list_tail :: "addr \<Rightarrow> addr" where "list_tail l = l + 8"

definition list_init :: "addr \<Rightarrow> 'a lheap_scheme \<Rightarrow> 'a lheap_scheme" where
  "list_init l s =
     s\<lparr>lprev := (lprev s)(l := NULL, list_tail l := l),
       lnext := (lnext s)(l := list_tail l, list_tail l := NULL)\<rparr>"

definition list_insert_before :: "addr \<Rightarrow> addr \<Rightarrow> 'a lheap_scheme \<Rightarrow> 'a lheap_scheme" where
  "list_insert_before before elem s =
     (let (old_status, s) = intr_disable s;
          s = s\<lparr>lnext := (lnext s)(lprev s before := elem)\<rparr>;
          s = s\<lparr>lprev := (lprev s)(elem := lprev s before)\<rparr>;
          s = s\<lparr>lnext := (lnext s)(elem := before)\<rparr>;
          s = s\<lparr>lprev := (lprev s)(before := elem)\<rparr>
      in snd (intr_set_status old_status s))"

definition list_push :: "addr \<Rightarrow> addr \<Rightarrow> 'a lheap_scheme \<Rightarrow> 'a lheap_scheme" where
  "list_push plist elem s = list_insert_before (lnext s plist) elem s"

definition list_append :: "addr \<Rightarrow> addr \<Rightarrow> 'a lheap_scheme \<Rightarrow> 'a lheap_scheme" where
  "list_append plist elem s = list_insert_before (list_tail plist) elem s"

definition list_remove :: "addr \<Rightarrow> 'a lheap_scheme \<Rightarrow> 'a lheap_scheme" where
  "list_remove pelem s =
     (let (old_status, s) = intr_disable s;
          s = s\<lparr>lnext := (lnext s)(lprev s pelem := lnext s pelem)\<rparr>;
          s = s\<lparr>lprev := (lprev s)(lnext s pelem := lprev s pelem)\<rparr>
      in snd (intr_set_status old_status s))"

definition list_pop :: "addr \<Rightarrow> 'a lheap_scheme \<Rightarrow> addr \<times> 'a lheap_scheme" where
  "list_pop plist s = (let elem = lnext s plist in (elem, list_remove elem s))"

definition list_empty :: "addr \<Rightarrow> 'a lheap_scheme \<Rightarrow> bool" where
  "list_empty plist s = (lnext s plist = list_tail plist)"

partial_function (option) elem_find_from ::
    "addr \<Rightarrow> addr \<Rightarrow> addr \<Rightarrow> 'a lheap_scheme \<Rightarrow> bool option" where
  "elem_find_from plist obj_elem elem s =
     (if elem = list_tail plist then Some False
      else if elem = obj_elem then Some True
      else elem_find_from plist obj_elem (lnext s elem) s)"

definition elem_find :: "addr \<Rightarrow> addr \<Rightarrow> 'a lheap_scheme \<Rightarrow> bool option" where
  "elem_find plist obj_elem s = elem_find_from plist obj_elem (lnext s plist) s"

partial_function (option) list_len_from ::
    "addr \<Rightarrow> addr \<Rightarrow> u32 \<Rightarrow> 'a lheap_scheme \<Rightarrow> u32 option" where
  "list_len_from plist elem len s =
     (if elem = list_tail plist then Some len
      else list_len_from plist (lnext s elem) (len + 1) s)"

definition list_len :: "addr \<Rightarrow> 'a lheap_scheme \<Rightarrow> u32 option" where
  "list_len plist s = list_len_from plist (lnext s plist) 0 s"

text \<open>The callback of \<^verbatim>\<open>list_traversal\<close> may change the kernel state (\<^verbatim>\<open>init_adopt_a_child\<close>).\<close>

partial_function (option) traverse_from ::
    "addr \<Rightarrow> (addr \<Rightarrow> int \<Rightarrow> 'a lheap_scheme \<Rightarrow> (bool \<times> 'a lheap_scheme) option) \<Rightarrow> int \<Rightarrow> addr
     \<Rightarrow> 'a lheap_scheme \<Rightarrow> (addr \<times> 'a lheap_scheme) option" where
  "traverse_from plist func arg elem s =
     (if elem = list_tail plist then Some (NULL, s)
      else Option.bind (func elem arg s) (\<lambda>r.
        if fst r then Some (elem, snd r)
        else traverse_from plist func arg (lnext (snd r) elem) (snd r)))"

definition list_traversal ::
    "addr \<Rightarrow> (addr \<Rightarrow> int \<Rightarrow> 'a lheap_scheme \<Rightarrow> (bool \<times> 'a lheap_scheme) option) \<Rightarrow> int
     \<Rightarrow> 'a lheap_scheme \<Rightarrow> (addr \<times> 'a lheap_scheme) option" where
  "list_traversal plist func arg s =
     (if list_empty plist s then Some (NULL, s)
      else traverse_from plist func arg (lnext s plist) s)"

section \<open>Abstraction: the sequence of nodes\<close>

fun chain :: "(addr \<Rightarrow> addr) \<Rightarrow> (addr \<Rightarrow> addr) \<Rightarrow> addr list \<Rightarrow> bool" where
  "chain nx pv (a # b # xs) = (nx a = b \<and> pv b = a \<and> chain nx pv (b # xs))"
| "chain nx pv _ = True"

definition lnodes :: "addr \<Rightarrow> addr list \<Rightarrow> addr set" where
  "lnodes l xs = set (l # xs @ [list_tail l])"

text \<open>\<open>dlist s l xs\<close>: the list at \<open>l\<close> is well formed and holds the nodes \<open>xs\<close> in this order.\<close>

definition dlist :: "'a lheap_scheme \<Rightarrow> addr \<Rightarrow> addr list \<Rightarrow> bool" where
  "dlist s l xs =
     (distinct (l # xs @ [list_tail l]) \<and> chain (lnext s) (lprev s) (l # xs @ [list_tail l]))"

lemma list_tail_neq [simp]: "list_tail l \<noteq> l" "l \<noteq> list_tail l"
  by (simp_all add: list_tail_def)

lemma chain_append: "chain nx pv (xs @ a # ys) = (chain nx pv (xs @ [a]) \<and> chain nx pv (a # ys))"
  by (induction nx pv xs rule: chain.induct) auto

lemma chain_mid:
  "chain nx pv (A @ p # b # B) = (chain nx pv (A @ [p]) \<and> nx p = b \<and> pv b = p \<and> chain nx pv (b # B))"
  using chain_append [of nx pv A p "b # B"] by simp

lemma chain_cong:
  "\<forall>x\<in>set (butlast xs). nx' x = nx x \<Longrightarrow> \<forall>x\<in>set (tl xs). pv' x = pv x \<Longrightarrow>
   chain nx' pv' xs = chain nx pv xs"
  by (induction nx pv xs rule: chain.induct) (auto split: if_splits)

lemma chain_frame:
  "\<forall>x\<in>set xs. nx' x = nx x \<and> pv' x = pv x \<Longrightarrow> chain nx' pv' xs = chain nx pv xs"
  by (rule chain_cong) (cases xs; auto dest: in_set_butlastD)+

lemma dlist_frame:
  "\<forall>x\<in>lnodes l xs. lnext t x = lnext s x \<and> lprev t x = lprev s x \<Longrightarrow> dlist t l xs = dlist s l xs"
  unfolding dlist_def lnodes_def by (metis chain_frame)

section \<open>The two pointer updates\<close>

text \<open>The interrupt bracket leaves \<^verbatim>\<open>eflags\<close> alone, so each operation is its pointer update.\<close>

lemma list_insert_before_eq:
  "list_insert_before before elem s =
     s\<lparr>lnext := (lnext s)(lprev s before := elem, elem := before),
       lprev := (lprev s)(elem := lprev s before, before := elem)\<rparr>"
proof -
  define t where "t = (snd (intr_disable s))
     \<lparr>lnext := (lnext s)(lprev s before := elem, elem := before),
       lprev := (lprev s)(elem := lprev s before, before := elem)\<rparr>"
  have fields: "lprev (snd (intr_disable s)) = lprev s" "lnext (snd (intr_disable s)) = lnext s"
    by (simp_all add: intr_disable_def)
  have "list_insert_before before elem s = snd (intr_set_status (fst (intr_disable s)) t)"
    by (simp add: list_insert_before_def t_def Let_def split_beta fields)
  moreover have "eflags (snd (intr_set_status (fst (intr_disable s)) t)) = eflags s"
    by (rule intr_bracket) (simp add: t_def)
  moreover have "cpu.more (snd (intr_set_status (fst (intr_disable s)) t)) = cpu.more t"
    by (simp add: frame_simps)
  moreover have "cpu.more t = cpu.more (s\<lparr>lnext := (lnext s)(lprev s before := elem, elem := before),
       lprev := (lprev s)(elem := lprev s before, before := elem)\<rparr>)"
    by (cases s) (simp add: t_def intr_disable_def)
  ultimately show ?thesis by (simp add: cpu.equality)
qed

lemma list_remove_eq:
  "list_remove pelem s =
     (let nx = (lnext s)(lprev s pelem := lnext s pelem)
      in s\<lparr>lnext := nx, lprev := (lprev s)(nx pelem := lprev s pelem)\<rparr>)"
proof -
  define nx where "nx = (lnext s)(lprev s pelem := lnext s pelem)"
  define t where "t = (snd (intr_disable s))
     \<lparr>lnext := nx, lprev := (lprev s)(nx pelem := lprev s pelem)\<rparr>"
  have fields: "lprev (snd (intr_disable s)) = lprev s" "lnext (snd (intr_disable s)) = lnext s"
    by (simp_all add: intr_disable_def)
  have "list_remove pelem s = snd (intr_set_status (fst (intr_disable s)) t)"
    by (simp add: list_remove_def t_def nx_def Let_def split_beta fields)
  moreover have "eflags (snd (intr_set_status (fst (intr_disable s)) t)) = eflags s"
    by (rule intr_bracket) (simp add: t_def)
  moreover have "cpu.more (snd (intr_set_status (fst (intr_disable s)) t)) = cpu.more t"
    by (simp add: frame_simps)
  moreover have "cpu.more t = cpu.more (s\<lparr>lnext := nx, lprev := (lprev s)(nx pelem := lprev s pelem)\<rparr>)"
    by (cases s) (simp add: t_def intr_disable_def)
  ultimately show ?thesis by (simp add: cpu.equality nx_def Let_def)
qed

lemma chain_insert:
  assumes "chain nx pv (A @ p # b # B)" and "distinct (A @ p # b # B)" and "e \<notin> set (A @ p # b # B)"
  shows "chain (nx(p := e, e := b)) (pv(e := p, b := e)) (A @ p # e # b # B)"
proof -
  let ?nx = "nx(p := e, e := b)" and ?pv = "pv(e := p, b := e)"
  from assms(1) have "chain nx pv (A @ [p])" "chain nx pv (b # B)"
    by (simp_all add: chain_mid)
  moreover have "chain ?nx ?pv (A @ [p]) = chain nx pv (A @ [p])"
    by (rule chain_cong) (use assms(2,3) in \<open>cases A; auto\<close>)+
  moreover have "chain ?nx ?pv (b # B) = chain nx pv (b # B)"
    by (rule chain_cong) (use assms(2,3) in \<open>auto dest: in_set_butlastD split: if_splits\<close>)
  ultimately show ?thesis
    using assms(2,3) by (auto simp: chain_mid)
qed

lemma chain_remove:
  assumes "chain nx pv (A @ p # e # n # B)" and "distinct (A @ p # e # n # B)"
  shows "chain (nx(p := n)) (pv(n := p)) (A @ p # n # B)"
proof -
  let ?nx = "nx(p := n)" and ?pv = "pv(n := p)"
  from assms(1) have "chain nx pv (A @ [p])" "chain nx pv (n # B)"
    by (simp_all add: chain_mid)
  moreover have "chain ?nx ?pv (A @ [p]) = chain nx pv (A @ [p])"
    by (rule chain_cong) (use assms(2) in \<open>cases A; auto\<close>)+
  moreover have "chain ?nx ?pv (n # B) = chain nx pv (n # B)"
    by (rule chain_cong) (use assms(2) in \<open>auto dest: in_set_butlastD split: if_splits\<close>)
  ultimately show ?thesis
    using assms(2) by (simp add: chain_mid)
qed

text \<open>A cut point of a list: the node before and the node after it.\<close>

lemma list_cut:
  obtains A p b B where "l # xs @ ys @ [list_tail l] = A @ p # b # B"
    and "l # xs = A @ [p]" and "ys @ [list_tail l] = b # B"
proof -
  have "l # xs = butlast (l # xs) @ [last (l # xs)]" by simp
  moreover obtain b B where "ys @ [list_tail l] = b # B" by (cases ys) auto
  ultimately show ?thesis using that by (metis append.assoc append_Cons append_Nil)
qed

section \<open>Operations on well-formed lists\<close>

lemma insert_before_dlist:
  assumes "dlist s l (xs @ ys)" and "e \<notin> lnodes l (xs @ ys)"
  shows "dlist (list_insert_before (hd (ys @ [list_tail l])) e s) l (xs @ e # ys)"
proof -
  obtain A p b B where W: "l # xs @ ys @ [list_tail l] = A @ p # b # B"
    and A: "l # xs = A @ [p]" and B: "ys @ [list_tail l] = b # B" by (rule list_cut)
  have ch: "chain (lnext s) (lprev s) (A @ p # b # B)" and di: "distinct (A @ p # b # B)"
    using assms(1) by (simp_all add: dlist_def W [symmetric])
  have e: "e \<notin> set (A @ p # b # B)" using assms(2) by (simp add: lnodes_def W [symmetric])
  have pb: "lprev s b = p" using ch by (simp add: chain_mid)
  have W': "l # (xs @ e # ys) @ [list_tail l] = A @ p # e # b # B" using A B by simp
  show ?thesis
    unfolding dlist_def W' using chain_insert [OF ch di e] di e B
    by (auto simp: list_insert_before_eq pb)
qed

lemma remove_dlist:
  assumes "dlist s l (xs @ e # ys)"
  shows "dlist (list_remove e s) l (xs @ ys)"
proof -
  obtain A p b B where W: "l # xs @ ys @ [list_tail l] = A @ p # b # B"
    and A: "l # xs = A @ [p]" and B: "ys @ [list_tail l] = b # B" by (rule list_cut)
  have W': "l # (xs @ e # ys) @ [list_tail l] = A @ p # e # b # B" using A B by simp
  have ch: "chain (lnext s) (lprev s) (A @ p # e # b # B)" and di: "distinct (A @ p # e # b # B)"
    using assms unfolding dlist_def W' by simp_all
  have pe: "lprev s e = p" "lnext s e = b" using ch by (simp_all add: chain_mid)
  have "dlist (list_remove e s) l (xs @ ys) =
    (distinct (A @ p # b # B) \<and> chain (lnext (list_remove e s)) (lprev (list_remove e s)) (A @ p # b # B))"
    unfolding dlist_def using W by simp
  then show ?thesis using chain_remove [OF ch di] di by (simp add: list_remove_eq pe Let_def)
qed

lemma insert_before_other:
  assumes "dlist s l (xs @ ys)" and "x \<notin> lnodes l (xs @ ys)" and "x \<noteq> e"
  shows "lnext (list_insert_before (hd (ys @ [list_tail l])) e s) x = lnext s x"
    and "lprev (list_insert_before (hd (ys @ [list_tail l])) e s) x = lprev s x"
proof -
  obtain A p b B where W: "l # xs @ ys @ [list_tail l] = A @ p # b # B"
    and A: "l # xs = A @ [p]" and B: "ys @ [list_tail l] = b # B" by (rule list_cut)
  have "chain (lnext s) (lprev s) (A @ p # b # B)"
    using assms(1) by (simp add: dlist_def W [symmetric])
  then have "lprev s b = p" by (simp add: chain_mid)
  moreover have "x \<noteq> p" "x \<noteq> b" using assms(2) by (auto simp: lnodes_def W)
  ultimately show "lnext (list_insert_before (hd (ys @ [list_tail l])) e s) x = lnext s x"
    and "lprev (list_insert_before (hd (ys @ [list_tail l])) e s) x = lprev s x"
    using assms(3) B by (simp_all add: list_insert_before_eq)
qed

lemma remove_other:
  assumes "dlist s l (xs @ e # ys)" and "x \<notin> lnodes l (xs @ e # ys)"
  shows "lnext (list_remove e s) x = lnext s x" and "lprev (list_remove e s) x = lprev s x"
proof -
  obtain A p b B where A: "l # xs = A @ [p]" and B: "ys @ [list_tail l] = b # B"
    by (rule list_cut)
  have W: "l # (xs @ e # ys) @ [list_tail l] = A @ p # e # b # B" using A B by simp
  have ch: "chain (lnext s) (lprev s) (A @ p # e # b # B)" and di: "distinct (A @ p # e # b # B)"
    using assms(1) unfolding dlist_def W by simp_all
  have "lprev s e = p" "lnext s e = b" using ch by (simp_all add: chain_mid)
  moreover have "x \<noteq> p" "x \<noteq> b" using assms(2) unfolding lnodes_def W by auto
  ultimately show "lnext (list_remove e s) x = lnext s x" "lprev (list_remove e s) x = lprev s x"
    using di by (auto simp: list_remove_eq Let_def)
qed

lemma list_init_dlist: "dlist (list_init l s) l []"
  by (simp add: dlist_def list_init_def)

lemma dlist_head: "dlist s l xs \<Longrightarrow> lnext s l = hd (xs @ [list_tail l])"
  by (cases xs) (auto simp: dlist_def)

lemma append_dlist: "dlist s l xs \<Longrightarrow> e \<notin> lnodes l xs \<Longrightarrow> dlist (list_append l e s) l (xs @ [e])"
  using insert_before_dlist [of s l xs "[]" e] by (simp add: list_append_def)

lemma push_dlist: "dlist s l xs \<Longrightarrow> e \<notin> lnodes l xs \<Longrightarrow> dlist (list_push l e s) l (e # xs)"
  using insert_before_dlist [of s l "[]" xs e] by (simp add: list_push_def dlist_head)

lemma pop_dlist:
  assumes "dlist s l (x # xs)"
  shows "fst (list_pop l s) = x" and "dlist (snd (list_pop l s)) l xs"
  using assms remove_dlist [of s l "[]" x xs] by (simp_all add: list_pop_def dlist_head Let_def)

lemma list_empty_dlist: "dlist s l xs \<Longrightarrow> list_empty l s = (xs = [])"
  by (cases xs) (auto simp: list_empty_def dlist_def)

lemma dlist_others:
  assumes "dlist s l' ys" and "\<And>x. x \<in> lnodes l' ys \<Longrightarrow> lnext t x = lnext s x"
    and "\<And>x. x \<in> lnodes l' ys \<Longrightarrow> lprev t x = lprev s x"
  shows "dlist t l' ys"
  using assms dlist_frame [of l' ys t s] by simp

lemma append_dlist_frame:
  assumes "dlist s l xs" and "dlist s l' ys" and "lnodes l xs \<inter> lnodes l' ys = {}"
    and "e \<notin> lnodes l' ys"
  shows "dlist (list_append l e s) l' ys"
  using insert_before_other [of s l xs "[]" _ e] assms
  by (intro dlist_others [OF assms(2)]) (auto simp: list_append_def)

lemma push_dlist_frame:
  assumes "dlist s l xs" and "dlist s l' ys" and "lnodes l xs \<inter> lnodes l' ys = {}"
    and "e \<notin> lnodes l' ys"
  shows "dlist (list_push l e s) l' ys"
  using insert_before_other [of s l "[]" xs _ e] assms
  by (intro dlist_others [OF assms(2)]) (auto simp: list_push_def dlist_head)

lemma remove_dlist_frame:
  assumes "dlist s l (xs @ e # zs)" and "dlist s l' ys"
    and "lnodes l (xs @ e # zs) \<inter> lnodes l' ys = {}"
  shows "dlist (list_remove e s) l' ys"
  using remove_other [OF assms(1)] assms(3) by (intro dlist_others [OF assms(2)]) auto

lemma pop_dlist_frame:
  assumes "dlist s l (x # xs)" and "dlist s l' ys" and "lnodes l (x # xs) \<inter> lnodes l' ys = {}"
  shows "dlist (snd (list_pop l s)) l' ys"
  using remove_dlist_frame [of s l "[]" x xs l' ys] assms
  by (simp add: list_pop_def dlist_head Let_def)

text \<open>No operation changes anything but the two link fields.\<close>

lemma list_op_frames [frame_simps]:
  "lheap.more (list_append l e s) = lheap.more s" "eflags (list_append l e s) = eflags s"
  "lheap.more (list_push l e s) = lheap.more s" "eflags (list_push l e s) = eflags s"
  "lheap.more (list_remove e s) = lheap.more s" "eflags (list_remove e s) = eflags s"
  "lheap.more (snd (list_pop l s)) = lheap.more s" "eflags (snd (list_pop l s)) = eflags s"
  "lheap.more (list_init l s) = lheap.more s" "eflags (list_init l s) = eflags s"
  by (simp_all add: list_append_def list_push_def list_pop_def list_insert_before_eq
      list_remove_eq list_init_def Let_def)

section \<open>The loops return\<close>

lemma elem_find_from_chain:
  "chain (lnext s) (lprev s) (xs @ [list_tail l]) \<Longrightarrow> list_tail l \<notin> set xs \<Longrightarrow>
   elem_find_from l x (hd (xs @ [list_tail l])) s = Some (x \<in> set xs)"
proof (induction xs)
  case Nil
  then show ?case by (simp add: elem_find_from.simps)
next
  case (Cons a xs)
  have nx: "lnext s a = hd (xs @ [list_tail l])"
    and ch: "chain (lnext s) (lprev s) (xs @ [list_tail l])"
    using Cons.prems(1) by (cases xs; simp)+
  show ?case using Cons.IH [OF ch] Cons.prems(2) by (auto simp: elem_find_from.simps [of l x a] nx)
qed

lemma dlist_chain: "dlist s l xs \<Longrightarrow> chain (lnext s) (lprev s) (xs @ [list_tail l])"
  unfolding dlist_def by (cases xs) auto

lemma elem_find_dlist: "dlist s l xs \<Longrightarrow> elem_find l x s = Some (x \<in> set xs)"
  using elem_find_from_chain [OF dlist_chain, of s l xs x]
  by (simp add: elem_find_def dlist_head) (simp add: dlist_def)

lemma list_len_from_chain:
  "chain (lnext s) (lprev s) (xs @ [list_tail l]) \<Longrightarrow> list_tail l \<notin> set xs \<Longrightarrow>
   list_len_from l (hd (xs @ [list_tail l])) n s = Some (n + of_nat (length xs))"
proof (induction xs arbitrary: n)
  case Nil
  then show ?case by (simp add: list_len_from.simps)
next
  case (Cons a xs)
  have nx: "lnext s a = hd (xs @ [list_tail l])"
    and ch: "chain (lnext s) (lprev s) (xs @ [list_tail l])"
    using Cons.prems(1) by (cases xs; simp)+
  show ?case using Cons.IH [OF ch] Cons.prems(2) by (auto simp: list_len_from.simps [of l a] nx)
qed

lemma list_len_dlist: "dlist s l xs \<Longrightarrow> list_len l s = Some (of_nat (length xs))"
  using list_len_from_chain [OF dlist_chain, of s l xs 0]
  by (simp add: list_len_def dlist_head) (simp add: dlist_def)

text \<open>
  \<^verbatim>\<open>list_traversal\<close> with a callback that leaves the state alone finds the first node it accepts.
\<close>

lemma traverse_from_chain:
  assumes pure: "\<And>e. func e arg s = Some (P e, s)"
  shows "chain (lnext s) (lprev s) (xs @ [list_tail l]) \<Longrightarrow> list_tail l \<notin> set xs \<Longrightarrow>
   traverse_from l func arg (hd (xs @ [list_tail l])) s
     = Some (case find P xs of None \<Rightarrow> NULL | Some e \<Rightarrow> e, s)"
proof (induction xs)
  case Nil
  then show ?case by (simp add: traverse_from.simps)
next
  case (Cons a xs)
  have nx: "lnext s a = hd (xs @ [list_tail l])"
    and ch: "chain (lnext s) (lprev s) (xs @ [list_tail l])"
    using Cons.prems(1) by (cases xs; simp)+
  show ?case
    using Cons.IH [OF ch] Cons.prems(2) by (auto simp: traverse_from.simps [of l _ _ a] nx pure)
qed

lemma list_traversal_dlist:
  assumes "dlist s l xs" and "\<And>e. func e arg s = Some (P e, s)"
  shows "list_traversal l func arg s = Some (case find P xs of None \<Rightarrow> NULL | Some e \<Rightarrow> e, s)"
proof (cases "xs = []")
  case True
  then show ?thesis using assms(1) by (simp add: list_traversal_def list_empty_dlist)
next
  case False
  have "list_tail l \<notin> set xs" using assms(1) by (simp add: dlist_def)
  from traverse_from_chain [where func = func and P = P, OF assms(2) dlist_chain [OF assms(1)] this]
    False assms(1)
  show ?thesis by (simp add: list_traversal_def list_empty_dlist dlist_head)
qed

section \<open>The contract of the list module\<close>

text \<open>
  What \<^verbatim>\<open>thread.c\<close>, \<^verbatim>\<open>sync.c\<close> and \<^verbatim>\<open>memory.c\<close> rely on. \<open>rep s l xs\<close> says that list \<open>l\<close>
  holds \<open>xs\<close>; the frame laws say that a list whose nodes are apart from the ones an operation
  works on is not disturbed.
\<close>

locale list_heap =
  fixes rep :: "'s \<Rightarrow> addr \<Rightarrow> addr list \<Rightarrow> bool"
    and append :: "addr \<Rightarrow> addr \<Rightarrow> 's \<Rightarrow> 's"
    and push :: "addr \<Rightarrow> addr \<Rightarrow> 's \<Rightarrow> 's"
    and remove :: "addr \<Rightarrow> 's \<Rightarrow> 's"
    and pop :: "addr \<Rightarrow> 's \<Rightarrow> addr \<times> 's"
    and empty :: "addr \<Rightarrow> 's \<Rightarrow> bool"
    and find_elem :: "addr \<Rightarrow> addr \<Rightarrow> 's \<Rightarrow> bool option"
  assumes rep_append: "rep s l xs \<Longrightarrow> e \<notin> lnodes l xs \<Longrightarrow> rep (append l e s) l (xs @ [e])"
    and rep_push: "rep s l xs \<Longrightarrow> e \<notin> lnodes l xs \<Longrightarrow> rep (push l e s) l (e # xs)"
    and rep_remove: "rep s l (xs @ e # ys) \<Longrightarrow> rep (remove e s) l (xs @ ys)"
    and rep_pop: "rep s l (x # xs) \<Longrightarrow> fst (pop l s) = x \<and> rep (snd (pop l s)) l xs"
    and rep_empty: "rep s l xs \<Longrightarrow> empty l s = (xs = [])"
    and rep_find: "rep s l xs \<Longrightarrow> find_elem l x s = Some (x \<in> set xs)"
    and rep_distinct: "rep s l xs \<Longrightarrow> distinct xs"
    and frame_append: "rep s l xs \<Longrightarrow> rep s l' ys \<Longrightarrow> lnodes l xs \<inter> lnodes l' ys = {} \<Longrightarrow>
      e \<notin> lnodes l' ys \<Longrightarrow> rep (append l e s) l' ys"
    and frame_push: "rep s l xs \<Longrightarrow> rep s l' ys \<Longrightarrow> lnodes l xs \<inter> lnodes l' ys = {} \<Longrightarrow>
      e \<notin> lnodes l' ys \<Longrightarrow> rep (push l e s) l' ys"
    and frame_remove: "rep s l (xs @ e # zs) \<Longrightarrow> rep s l' ys \<Longrightarrow>
      lnodes l (xs @ e # zs) \<inter> lnodes l' ys = {} \<Longrightarrow> rep (remove e s) l' ys"
    and frame_pop: "rep s l (x # xs) \<Longrightarrow> rep s l' ys \<Longrightarrow> lnodes l (x # xs) \<inter> lnodes l' ys = {} \<Longrightarrow>
      rep (snd (pop l s)) l' ys"
begin

text \<open>One turn of a queue: append at the tail, take from the head.\<close>

lemma rotate:
  assumes "rep s l (x # xs)" and "e \<notin> lnodes l (x # xs)"
  shows "fst (pop l (append l e s)) = x \<and> rep (snd (pop l (append l e s))) l (xs @ [e])"
  using rep_pop [of "append l e s" l x "xs @ [e]"] rep_append [OF assms] by simp

lemma push_then_pop:
  assumes "rep s l xs" and "e \<notin> lnodes l xs"
  shows "fst (pop l (push l e s)) = e \<and> rep (snd (pop l (push l e s))) l xs"
  using rep_pop [OF rep_push [OF assms]] .

lemma remove_member:
  assumes "rep s l xs" and "e \<in> set xs"
  shows "rep (remove e s) l (remove1 e xs)"
proof -
  obtain as bs where xs: "xs = as @ e # bs" and "e \<notin> set as"
    using split_list_first [OF assms(2)] by blast
  then show ?thesis using rep_remove [of s l as e bs] assms(1) by (simp add: remove1_append)
qed

lemma frame_remove_member:
  assumes "rep s l xs" and "e \<in> set xs" and "rep s l' ys" and "lnodes l xs \<inter> lnodes l' ys = {}"
  shows "rep (remove e s) l' ys"
  using split_list [OF assms(2)] frame_remove assms(1,3,4) by blast

end

interpretation kl: list_heap dlist list_append list_push list_remove list_pop list_empty elem_find
proof
  show "dlist s l xs \<Longrightarrow> e \<notin> lnodes l xs \<Longrightarrow> dlist (list_append l e s) l (xs @ [e])" for s l xs e
    by (rule append_dlist)
  show "dlist s l xs \<Longrightarrow> e \<notin> lnodes l xs \<Longrightarrow> dlist (list_push l e s) l (e # xs)" for s l xs e
    by (rule push_dlist)
  show "dlist s l (xs @ e # ys) \<Longrightarrow> dlist (list_remove e s) l (xs @ ys)" for s l xs e ys
    by (rule remove_dlist)
  show "dlist s l (x # xs) \<Longrightarrow> fst (list_pop l s) = x \<and> dlist (snd (list_pop l s)) l xs" for s l x xs
    using pop_dlist by blast
  show "dlist s l xs \<Longrightarrow> list_empty l s = (xs = [])" for s l xs
    by (rule list_empty_dlist)
  show "dlist s l xs \<Longrightarrow> elem_find l x s = Some (x \<in> set xs)" for s l xs x
    by (rule elem_find_dlist)
  show "dlist s l xs \<Longrightarrow> distinct xs" for s l xs
    by (simp add: dlist_def)
  show "dlist s l xs \<Longrightarrow> dlist s l' ys \<Longrightarrow> lnodes l xs \<inter> lnodes l' ys = {} \<Longrightarrow>
      e \<notin> lnodes l' ys \<Longrightarrow> dlist (list_append l e s) l' ys" for s l xs l' ys e
    by (rule append_dlist_frame)
  show "dlist s l xs \<Longrightarrow> dlist s l' ys \<Longrightarrow> lnodes l xs \<inter> lnodes l' ys = {} \<Longrightarrow>
      e \<notin> lnodes l' ys \<Longrightarrow> dlist (list_push l e s) l' ys" for s l xs l' ys e
    by (rule push_dlist_frame)
  show "dlist s l (xs @ e # zs) \<Longrightarrow> dlist s l' ys \<Longrightarrow>
      lnodes l (xs @ e # zs) \<inter> lnodes l' ys = {} \<Longrightarrow> dlist (list_remove e s) l' ys" for s l xs e zs l' ys
    by (rule remove_dlist_frame)
  show "dlist s l (x # xs) \<Longrightarrow> dlist s l' ys \<Longrightarrow> lnodes l (x # xs) \<inter> lnodes l' ys = {} \<Longrightarrow>
      dlist (snd (list_pop l s)) l' ys" for s l x xs l' ys
    by (rule pop_dlist_frame)
qed

section \<open>Properties\<close>

text \<open>
  C21: on a well-formed list the pointer operations are the operations on sequences. Appending and
  pushing a node that is not on the list adds it at the tail and at the head; removing a member
  takes it out; popping returns the first node; the walking loops return, with the membership
  and the length of the sequence. Every result list is again well formed.
\<close>
theorem list_ops_refine_sequences:
  assumes "dlist s l xs" and "e \<notin> lnodes l xs"
  shows "dlist (list_append l e s) l (xs @ [e])
       \<and> dlist (list_push l e s) l (e # xs)
       \<and> (\<forall>x\<in>set xs. dlist (list_remove x s) l (remove1 x xs))
       \<and> (xs \<noteq> [] \<longrightarrow> fst (list_pop l s) = hd xs \<and> dlist (snd (list_pop l s)) l (tl xs))
       \<and> list_empty l s = (xs = [])
       \<and> elem_find l x s = Some (x \<in> set xs)
       \<and> list_len l s = Some (of_nat (length xs))"
proof -
  have "fst (list_pop l s) = hd xs \<and> dlist (snd (list_pop l s)) l (tl xs)" if "xs \<noteq> []"
    using kl.rep_pop [of s l "hd xs" "tl xs"] assms(1) that by simp
  then show ?thesis
    using kl.rep_append [OF assms] kl.rep_push [OF assms] kl.remove_member [OF assms(1)]
      kl.rep_empty [OF assms(1)] kl.rep_find [OF assms(1)] list_len_dlist [OF assms(1)]
    by simp
qed

text \<open>An empty list at address 16 of a zeroed heap, and the node 64.\<close>
theorem list_ops_refine_sequences_witness:
  "let s = list_init 16 \<lparr>eflags = 2, lprev = (\<lambda>_. 0), lnext = (\<lambda>_. 0)\<rparr>
   in dlist (list_append 16 64 s) 16 [64] \<and> dlist (list_push 16 64 s) 16 [64]
      \<and> list_len 16 s = Some 0 \<and> elem_find 16 64 s = Some False"
  using list_ops_refine_sequences
    [OF list_init_dlist [of 16 "\<lparr>eflags = 2, lprev = (\<lambda>_. 0), lnext = (\<lambda>_. 0)\<rparr>"], of 64 64]
  by (simp add: lnodes_def list_tail_def Let_def)

text \<open>Popping several nodes in a row, for the statement of the queue discipline.\<close>

fun list_pops :: "nat \<Rightarrow> addr \<Rightarrow> 'a lheap_scheme \<Rightarrow> addr list \<times> 'a lheap_scheme" where
  "list_pops 0 l s = ([], s)"
| "list_pops (Suc n) l s =
     (let (x, s') = list_pop l s; (xs, s'') = list_pops n l s' in (x # xs, s''))"

lemma list_pops_fifo:
  "dlist s l (xs @ ys) \<Longrightarrow>
   fst (list_pops (length xs) l s) = xs \<and> dlist (snd (list_pops (length xs) l s)) l ys"
proof (induction xs arbitrary: s)
  case Nil
  then show ?case by simp
next
  case (Cons x xs)
  from kl.rep_pop [of s l x "xs @ ys"] Cons.prems
  have "fst (list_pop l s) = x" "dlist (snd (list_pop l s)) l (xs @ ys)" by simp_all
  with Cons.IH [of "snd (list_pop l s)"] show ?case by (simp add: split_beta)
qed

lemma fold_append_dlist:
  "dlist s l ys \<Longrightarrow> distinct xs \<Longrightarrow> set xs \<inter> lnodes l ys = {} \<Longrightarrow>
   dlist (fold (list_append l) xs s) l (ys @ xs)"
proof (induction xs arbitrary: s ys)
  case Nil
  then show ?case by simp
next
  case (Cons x xs)
  have "dlist (list_append l x s) l (ys @ [x])" using Cons.prems kl.rep_append by auto
  moreover have "set xs \<inter> lnodes l (ys @ [x]) = {}" using Cons.prems by (auto simp: lnodes_def)
  ultimately show ?case using Cons.IH [of "list_append l x s" "ys @ [x]"] Cons.prems by simp
qed

text \<open>
  a list used with \<^verbatim>\<open>list_append\<close> and \<^verbatim>\<open>list_pop\<close> is a first-in first-out queue: nodes
  appended to a list that already holds \<open>ys\<close> come out in the order they went in, after \<open>ys\<close>.
\<close>
theorem list_append_pop_fifo:
  assumes "dlist s l ys" and "distinct xs" and "set xs \<inter> lnodes l ys = {}"
  shows "fst (list_pops (length ys + length xs) l (fold (list_append l) xs s)) = ys @ xs"
  using list_pops_fifo [of "fold (list_append l) xs s" l "ys @ xs" "[]"] fold_append_dlist [OF assms]
  by simp

theorem list_append_pop_fifo_witness:
  "fst (list_pops 3 16 (fold (list_append 16) [64, 128, 72]
     (list_init 16 \<lparr>eflags = 2, lprev = (\<lambda>_. 0), lnext = (\<lambda>_. 0)\<rparr>))) = [64, 128, 72]"
  using list_append_pop_fifo [OF list_init_dlist, of "[64, 128, 72]" 16]
  by (simp add: lnodes_def list_tail_def numeral_3_eq_3)

text \<open>
  Lists do not disturb each other. When the nodes of two well-formed lists are disjoint,
  appending to, pushing on, removing from or popping one of them leaves the other as it is, and
  no operation changes the interrupt flag or any kernel data beyond the link fields.
\<close>
theorem list_ops_frame:
  assumes "dlist s l xs" and "dlist s l' ys" and "lnodes l xs \<inter> lnodes l' ys = {}"
    and "e \<notin> lnodes l' ys"
  shows "dlist (list_append l e s) l' ys \<and> dlist (list_push l e s) l' ys
       \<and> (\<forall>x\<in>set xs. dlist (list_remove x s) l' ys)
       \<and> (xs \<noteq> [] \<longrightarrow> dlist (snd (list_pop l s)) l' ys)
       \<and> (\<forall>t\<in>{list_append l e s, list_push l e s, list_remove e s, snd (list_pop l s)}.
            eflags t = eflags s \<and> lheap.more t = lheap.more s)"
proof -
  have "dlist (snd (list_pop l s)) l' ys" if "xs \<noteq> []"
    using kl.frame_pop [of s l "hd xs" "tl xs" l' ys] assms that by simp
  then show ?thesis
    using kl.frame_append [OF assms] kl.frame_push [OF assms]
      kl.frame_remove_member [OF assms(1) _ assms(2,3)]
    by (simp add: frame_simps)
qed

theorem list_ops_frame_witness:
  "let s = list_append 16 64 (list_init 32 (list_init 16 \<lparr>eflags = 2, lprev = (\<lambda>_. 0), lnext = (\<lambda>_. 0)\<rparr>))
   in dlist (list_append 32 128 s) 16 [64] \<and> dlist (list_remove 64 s) 32 []"
proof -
  define s :: lheap where "s = list_append 16 64 (list_init 32 (list_init 16 \<lparr>eflags = 2, lprev = (\<lambda>_. 0), lnext = (\<lambda>_. 0)\<rparr>))"
  have a: "dlist s 16 [64]" and b: "dlist s 32 []"
    by (simp_all add: s_def dlist_def list_append_def list_insert_before_eq list_init_def list_tail_def)
  have n: "lnodes 16 [64] = {16, 64, 24}" "lnodes 32 [] = {32, 40}"
    by (auto simp: lnodes_def list_tail_def)
  have "dlist (list_append 32 128 s) 16 [64]" using list_ops_frame [OF b a, of 128] by (simp add: n)
  moreover have "dlist (list_remove 64 s) 32 []" using list_ops_frame [OF a b, of 128] by (simp add: n)
  ultimately show ?thesis unfolding s_def Let_def by blast
qed

end
