(* ===== verification/Cstring.thy ===== *)
theory Cstring
  imports Prelude
begin

text \<open>
  \<^verbatim>\<open>lib/string.c\<close>: the byte and string routines, on a flat byte memory. An address is a 32-bit
  word, so pointer increments wrap as the hardware does; \<^verbatim>\<open>char\<close> is signed on this target, which
  decides the comparisons. A loop that runs to a terminating zero byte may never meet one and is
  a \<^theory_text>\<open>partial_function (option)\<close>; the loops that count are structural. The failing
  \<^verbatim>\<open>assert\<close> of a null argument is \<open>None\<close>.
\<close>

section \<open>The code\<close>

type_synonym mem = "addr \<Rightarrow> u8"

primrec memset_loop :: "nat \<Rightarrow> addr \<Rightarrow> u8 \<Rightarrow> mem \<Rightarrow> mem" where
  "memset_loop 0 p v m = m"
| "memset_loop (Suc n) p v m = memset_loop n (p + 1) v (m(p := v))"

definition memset :: "addr \<Rightarrow> u8 \<Rightarrow> u32 \<Rightarrow> mem \<Rightarrow> mem option" where
  "memset s value n m = do { ASSERT (s \<noteq> NULL); Some (memset_loop (unat n) s value m) }"

primrec memcpy_loop :: "nat \<Rightarrow> addr \<Rightarrow> addr \<Rightarrow> mem \<Rightarrow> mem" where
  "memcpy_loop 0 d s m = m"
| "memcpy_loop (Suc n) d s m = memcpy_loop n (d + 1) (s + 1) (m(d := m s))"

definition memcpy :: "addr \<Rightarrow> addr \<Rightarrow> u32 \<Rightarrow> mem \<Rightarrow> mem option" where
  "memcpy dst src n m =
     do { ASSERT (dst \<noteq> NULL \<and> src \<noteq> NULL); Some (memcpy_loop (unat n) dst src m) }"

primrec memcmp_loop :: "nat \<Rightarrow> addr \<Rightarrow> addr \<Rightarrow> mem \<Rightarrow> int" where
  "memcmp_loop 0 a b m = 0"
| "memcmp_loop (Suc n) a b m =
     (if m a \<noteq> m b then (if sint (m a) > sint (m b) then 1 else - 1)
      else memcmp_loop n (a + 1) (b + 1) m)"

definition memcmp :: "addr \<Rightarrow> addr \<Rightarrow> u32 \<Rightarrow> mem \<Rightarrow> int option" where
  "memcmp s1 s2 n m = do { ASSERT (s1 \<noteq> NULL \<or> s2 \<noteq> NULL); Some (memcmp_loop (unat n) s1 s2 m) }"

partial_function (option) strcpy_loop :: "addr \<Rightarrow> addr \<Rightarrow> mem \<Rightarrow> mem option" where
  "strcpy_loop d s m =
     (let m' = m(d := m s) in if m' d \<noteq> 0 then strcpy_loop (d + 1) (s + 1) m' else Some m')"

definition strcpy :: "addr \<Rightarrow> addr \<Rightarrow> mem \<Rightarrow> mem option" where
  "strcpy dst src m = do { ASSERT (dst \<noteq> NULL \<and> src \<noteq> NULL); strcpy_loop dst src m }"

text \<open>\<^verbatim>\<open>while (*p++) \<close>: the address just after the terminating zero.\<close>

partial_function (option) skip_string :: "addr \<Rightarrow> mem \<Rightarrow> addr option" where
  "skip_string p m = (if m p \<noteq> 0 then skip_string (p + 1) m else Some (p + 1))"

definition strlen :: "addr \<Rightarrow> mem \<Rightarrow> u32 option" where
  "strlen s m = do { ASSERT (s \<noteq> NULL); p \<leftarrow> skip_string s m; Some (p - s - 1) }"

partial_function (option) strcmp_loop :: "addr \<Rightarrow> addr \<Rightarrow> mem \<Rightarrow> int option" where
  "strcmp_loop a b m =
     (if m a \<noteq> 0 \<and> m a = m b then strcmp_loop (a + 1) (b + 1) m
      else Some (if sint (m a) < sint (m b) then - 1 else if sint (m a) > sint (m b) then 1 else 0))"

definition strcmp :: "addr \<Rightarrow> addr \<Rightarrow> mem \<Rightarrow> int option" where
  "strcmp a b m = do { ASSERT (a \<noteq> NULL \<and> b \<noteq> NULL); strcmp_loop a b m }"

text \<open>The searched byte is unsigned and the text is signed: a byte above 127 never matches.\<close>

partial_function (option) strchr_loop :: "addr \<Rightarrow> u8 \<Rightarrow> mem \<Rightarrow> addr option" where
  "strchr_loop s c m =
     (if m s \<noteq> 0 then (if sint (m s) = uint c then Some s else strchr_loop (s + 1) c m)
      else Some NULL)"

definition strchr :: "addr \<Rightarrow> u8 \<Rightarrow> mem \<Rightarrow> addr option" where
  "strchr s c m = do { ASSERT (s \<noteq> NULL); strchr_loop s c m }"

partial_function (option) strrchr_loop :: "addr \<Rightarrow> u8 \<Rightarrow> addr \<Rightarrow> mem \<Rightarrow> addr option" where
  "strrchr_loop s c ret m =
     (if m s \<noteq> 0 then strrchr_loop (s + 1) c (if sint (m s) = uint c then s else ret) m
      else Some ret)"

definition strrchr :: "addr \<Rightarrow> u8 \<Rightarrow> mem \<Rightarrow> addr option" where
  "strrchr s c m = do { ASSERT (s \<noteq> NULL); strrchr_loop s c NULL m }"

definition strcat :: "addr \<Rightarrow> addr \<Rightarrow> mem \<Rightarrow> mem option" where
  "strcat dst src m = do {
     ASSERT (dst \<noteq> NULL \<and> src \<noteq> NULL);
     str \<leftarrow> skip_string dst m;
     strcpy_loop (str - 1) src m
   }"

partial_function (option) strchrs_loop :: "addr \<Rightarrow> u8 \<Rightarrow> u32 \<Rightarrow> mem \<Rightarrow> u32 option" where
  "strchrs_loop s c cnt m =
     (if m s \<noteq> 0 then strchrs_loop (s + 1) c (if sint (m s) = uint c then cnt + 1 else cnt) m
      else Some cnt)"

definition strchrs :: "addr \<Rightarrow> u8 \<Rightarrow> mem \<Rightarrow> u32 option" where
  "strchrs s c m = do { ASSERT (s \<noteq> NULL); strchrs_loop s c 0 m }"

section \<open>Strings in memory\<close>

text \<open>\<open>cstr m a xs\<close>: the bytes \<open>xs\<close>, none of them zero, lie at \<open>a\<close>, followed by a zero byte.\<close>

fun cstr :: "mem \<Rightarrow> addr \<Rightarrow> u8 list \<Rightarrow> bool" where
  "cstr m a [] = (m a = 0)"
| "cstr m a (x # xs) = (x \<noteq> 0 \<and> m a = x \<and> cstr m (a + 1) xs)"

text \<open>The \<open>n\<close> addresses from \<open>a\<close> on.\<close>

definition region :: "addr \<Rightarrow> nat \<Rightarrow> addr set" where
  "region a n = (\<lambda>i. a + of_nat i) ` {..<n}"

lemma region_0 [simp]: "region a 0 = {}"
  by (simp add: region_def)

lemma region_Suc: "region a (Suc n) = insert a (region (a + 1) n)"
proof -
  have "{..<Suc n} = insert 0 (Suc ` {..<n})" by (rule lessThan_Suc_eq_insert_0)
  then show ?thesis
    by (simp add: region_def image_image add.assoc add.commute add.left_commute)
qed

lemma region_two: "region a 2 = {a, a + 1}"
  by (simp add: region_Suc numeral_2_eq_2)

lemma region_first: "n < 2 ^ 32 \<Longrightarrow> a \<notin> region (a + 1) n"
proof
  assume n: "n < 2 ^ 32" and "a \<in> region (a + 1) n"
  then obtain i where i: "i < n" "a = a + 1 + of_nat i" by (auto simp: region_def)
  then have "(of_nat (Suc i) :: u32) = 0" by (simp add: add.assoc)
  then have "2 ^ 32 dvd Suc i" unfolding word_of_nat_eq_0_iff by simp
  with i n show False by (auto dest!: dvd_imp_le)
qed

lemma cstr_cong: "\<forall>x\<in>region a (Suc (length xs)). m' x = m x \<Longrightarrow> cstr m' a xs = cstr m a xs"
  by (induction xs arbitrary: a) (auto simp: region_Suc)

lemma cstr_nonzero: "cstr m a xs \<Longrightarrow> 0 \<notin> set xs"
  by (induction xs arbitrary: a) auto

section \<open>The loops on strings\<close>

lemma skip_string_cstr: "cstr m a xs \<Longrightarrow> skip_string a m = Some (a + of_nat (length xs) + 1)"
  by (induction xs arbitrary: a) (subst skip_string.simps, simp add: algebra_simps)+

lemma strlen_cstr: "cstr m a xs \<Longrightarrow> a \<noteq> NULL \<Longrightarrow> strlen a m = Some (of_nat (length xs))"
  by (simp add: strlen_def skip_string_cstr)

text \<open>The order \<^verbatim>\<open>strcmp\<close> computes: lexicographic in the signed byte values.\<close>

fun bytes_cmp :: "u8 list \<Rightarrow> u8 list \<Rightarrow> int" where
  "bytes_cmp [] [] = 0"
| "bytes_cmp [] (y # ys) = (if 0 < sint y then - 1 else 1)"
| "bytes_cmp (x # xs) [] = (if sint x < 0 then - 1 else 1)"
| "bytes_cmp (x # xs) (y # ys) =
     (if x = y then bytes_cmp xs ys else if sint x < sint y then - 1 else 1)"

lemma sint_nonzero: "(x :: u8) \<noteq> 0 \<Longrightarrow> sint x \<noteq> 0"
  by (metis signed_eq_0_iff)

lemma sint_inj: "(sint (x :: u8) = sint y) = (x = y)"
  by (auto intro: signed_word_eqI)

lemma sint_neq_iff: "(x :: u8) \<noteq> y \<Longrightarrow> \<not> sint x < sint y \<Longrightarrow> sint y < sint x"
  by (metis linorder_neqE_linordered_idom sint_inj)

lemma strcmp_cstr:
  "cstr m a xs \<Longrightarrow> cstr m b ys \<Longrightarrow> strcmp_loop a b m = Some (bytes_cmp xs ys)"
proof (induction xs ys arbitrary: a b rule: bytes_cmp.induct)
  case 1
  then show ?case by (subst strcmp_loop.simps) simp
next
  case (2 y ys)
  then show ?case using sint_nonzero [of y] by (subst strcmp_loop.simps) auto
next
  case (3 x xs)
  then show ?case using sint_nonzero [of x] by (subst strcmp_loop.simps) auto
next
  case (4 x xs y ys)
  then show ?case using sint_neq_iff [of x y] by (subst strcmp_loop.simps) auto
qed

lemma bytes_cmp_0: "0 \<notin> set xs \<Longrightarrow> 0 \<notin> set ys \<Longrightarrow> (bytes_cmp xs ys = 0) = (xs = ys)"
  by (induction xs ys rule: bytes_cmp.induct) auto

lemma bytes_cmp_sym: "0 \<notin> set xs \<Longrightarrow> 0 \<notin> set ys \<Longrightarrow> bytes_cmp ys xs = - bytes_cmp xs ys"
proof (induction xs ys rule: bytes_cmp.induct)
  case (2 y ys)
  then show ?case using sint_nonzero [of y] by auto
next
  case (3 x xs)
  then show ?case using sint_nonzero [of x] by auto
next
  case (4 x xs y ys)
  then show ?case using sint_neq_iff [of x y] sint_inj [of x y] by auto
qed simp

lemma ascii_match:
  fixes x c :: u8
  assumes "c < 128"
  shows "(sint x = uint c) = (x = c)"
proof -
  have "sint c = uint c"
    using assms uint_ge_0 [of c]
    by (simp add: sint_uint word_less_def signed_take_bit_int_eq_self_iff order.trans [of _ 0])
  then show ?thesis by (metis sint_inj)
qed

lemma strchr_cstr:
  "c < 128 \<Longrightarrow> cstr m a xs \<Longrightarrow> strchr_loop a c m =
     Some (if c \<in> set xs then a + of_nat (length (takeWhile (\<lambda>x. x \<noteq> c) xs)) else NULL)"
proof (induction xs arbitrary: a)
  case Nil
  then show ?case by (subst strchr_loop.simps) simp
next
  case (Cons x xs)
  then show ?case by (subst strchr_loop.simps) (auto simp: ascii_match algebra_simps)
qed

text \<open>The last position: as far from the end as the first position of the reversed string.\<close>

lemma strrchr_cstr:
  "c < 128 \<Longrightarrow> cstr m a xs \<Longrightarrow> strrchr_loop a c r m =
     Some (if c \<in> set xs then a + of_nat (length xs) - 1 - of_nat (length (takeWhile (\<lambda>x. x \<noteq> c) (rev xs)))
           else r)"
proof (induction xs arbitrary: a r)
  case Nil
  then show ?case by (subst strrchr_loop.simps) simp
next
  case (Cons x xs)
  show ?case
  proof (cases "c \<in> set xs")
    case True
    then have "takeWhile (\<lambda>x. x \<noteq> c) (rev (x # xs)) = takeWhile (\<lambda>x. x \<noteq> c) (rev xs)"
      by (simp add: takeWhile_append1 [of c])
    with True Cons show ?thesis by (subst strrchr_loop.simps) (simp add: algebra_simps)
  next
    case False
    then have "takeWhile (\<lambda>x. x \<noteq> c) (rev xs) = rev xs" by (auto simp: takeWhile_eq_all_conv)
    with False have "length (takeWhile (\<lambda>x. x \<noteq> c) (rev (x # xs))) = length xs + (if x = c then 0 else 1)"
      by (simp add: takeWhile_append)
    with False Cons show ?thesis
      by (subst strrchr_loop.simps) (auto simp: ascii_match algebra_simps)
  qed
qed

lemma strchrs_cstr:
  "c < 128 \<Longrightarrow> cstr m a xs \<Longrightarrow> strchrs_loop a c n m = Some (n + of_nat (count_list xs c))"
proof (induction xs arbitrary: a n)
  case Nil
  then show ?case by (subst strchrs_loop.simps) simp
next
  case (Cons x xs)
  then show ?case by (subst strchrs_loop.simps) (auto simp: ascii_match algebra_simps)
qed

section \<open>Writing\<close>

lemma memset_loop_eq: "memset_loop n p v m = (\<lambda>x. if x \<in> region p n then v else m x)"
  by (induction n arbitrary: p m) (auto simp: region_Suc fun_eq_iff)

lemma strcpy_cstr:
  assumes "cstr m s xs" and "length xs < 2 ^ 32 - 1"
    and "region d (Suc (length xs)) \<inter> region s (Suc (length xs)) = {}"
  shows "\<exists>m'. strcpy_loop d s m = Some m' \<and> cstr m' d xs
           \<and> (\<forall>x. x \<notin> region d (Suc (length xs)) \<longrightarrow> m' x = m x)"
  using assms
proof (induction xs arbitrary: d s m)
  case Nil
  then show ?case by (subst strcpy_loop.simps) (simp add: Let_def region_Suc)
next
  case (Cons x xs)
  let ?m = "m(d := x)"
  have dis: "d \<notin> region (s + 1) (Suc (length xs))"
    and dis': "region (d + 1) (Suc (length xs)) \<inter> region (s + 1) (Suc (length xs)) = {}"
    using Cons.prems(3) unfolding length_Cons region_Suc [of d "Suc (length xs)"]
      region_Suc [of s "Suc (length xs)"] by blast+
  have "cstr ?m (s + 1) xs"
    using Cons.prems(1) dis cstr_cong [of "s + 1" xs ?m m] by (auto simp: fun_upd_def)
  moreover have "length xs < 2 ^ 32 - 1" using Cons.prems(2) by simp
  ultimately obtain m' where m': "strcpy_loop (d + 1) (s + 1) ?m = Some m'" "cstr m' (d + 1) xs"
    "\<forall>y. y \<notin> region (d + 1) (Suc (length xs)) \<longrightarrow> m' y = ?m y"
    using Cons.IH dis' by blast
  have "d \<notin> region (d + 1) (Suc (length xs))" using Cons.prems(2) by (intro region_first) simp
  then have "m' d = x" using m'(3) by simp
  moreover have "strcpy_loop d s m = Some m'"
    using Cons.prems(1) m'(1) by (subst strcpy_loop.simps) (simp add: Let_def)
  ultimately show ?case using Cons.prems(1) m'(2,3)
    by (intro exI [of _ m']) (auto simp: region_Suc [of d "Suc (length xs)"])
qed

lemma memcpy_loop_frame: "x \<notin> region d n \<Longrightarrow> memcpy_loop n d s m x = m x"
  by (induction n arbitrary: d s m) (auto simp: region_Suc)

lemma memcpy_loop_copies:
  "n \<le> 2 ^ 32 \<Longrightarrow> region d n \<inter> region s n = {} \<Longrightarrow> i < n \<Longrightarrow>
   memcpy_loop n d s m (d + of_nat i) = m (s + of_nat i)"
proof (induction n arbitrary: d s m i)
  case 0
  then show ?case by simp
next
  case (Suc n)
  have dis: "region (d + 1) n \<inter> region (s + 1) n = {}" "d \<notin> region (s + 1) n"
    using Suc.prems(2) by (auto simp: region_Suc)
  show ?case
  proof (cases i)
    case 0
    have "d \<notin> region (d + 1) n" using Suc.prems(1) by (intro region_first) simp
    then show ?thesis by (simp add: 0 memcpy_loop_frame)
  next
    case (Suc j)
    then have j: "j < n" using Suc.prems(3) by simp
    have "s + 1 + of_nat j \<in> region (s + 1) n" using j by (auto simp: region_def)
    then have "s + 1 + of_nat j \<noteq> d" using dis(2) by metis
    moreover have "memcpy_loop n (d + 1) (s + 1) (m(d := m s)) (d + 1 + of_nat j)
      = (m(d := m s)) (s + 1 + of_nat j)"
      using Suc.IH [OF _ dis(1) j] Suc.prems(1) by simp
    ultimately show ?thesis by (simp add: Suc add.assoc)
  qed
qed

lemma region_append: "region a (m + n) = region a m \<union> region (a + of_nat m) n"
  by (induction m arbitrary: a) (auto simp: region_Suc algebra_simps)

lemma cstr_append:
  "cstr m a xs \<Longrightarrow> cstr m' (a + of_nat (length xs)) ys \<Longrightarrow>
   \<forall>x\<in>region a (length xs). m' x = m x \<Longrightarrow> cstr m' a (xs @ ys)"
  by (induction xs arbitrary: a) (auto simp: region_Suc algebra_simps)

section \<open>Properties\<close>

text \<open>
  C31: the reading routines return on every terminated string and compute what their names say:
  \<^verbatim>\<open>strlen\<close> its length, \<^verbatim>\<open>strchr\<close> and \<^verbatim>\<open>strrchr\<close> the address of the first and the last
  occurrence of an ASCII byte (null when there is none), \<^verbatim>\<open>strchrs\<close> the number of occurrences.
\<close>
theorem string_searches:
  assumes "cstr m a xs" and "a \<noteq> NULL" and "c < 128"
  shows "strlen a m = Some (of_nat (length xs))
       \<and> strchr a c m = Some (if c \<in> set xs
            then a + of_nat (length (takeWhile (\<lambda>x. x \<noteq> c) xs)) else NULL)
       \<and> strrchr a c m = Some (if c \<in> set xs
            then a + of_nat (length xs) - 1 - of_nat (length (takeWhile (\<lambda>x. x \<noteq> c) (rev xs))) else NULL)
       \<and> strchrs a c m = Some (of_nat (count_list xs c))"
  using assms strlen_cstr strchr_cstr strrchr_cstr strchrs_cstr
  by (simp add: strchr_def strrchr_def strchrs_def)

theorem string_searches_witness:
  "let m = (\<lambda>_. 0)(16 := 47, 17 := 97, 18 := 47)
   in strlen 16 m = Some 3 \<and> strchr 16 47 m = Some 16 \<and> strrchr 16 47 m = Some 18
      \<and> strchrs 16 47 m = Some 2"
  using string_searches [of "(\<lambda>_. 0)(16 := 47, 17 := 97, 18 := 47)" 16 "[47, 97, 47]" 47]
  by simp

text \<open>
  \<^verbatim>\<open>strcmp\<close> returns on any two terminated strings. Its result is the lexicographic
  comparison of the signed byte values: 0 exactly for equal strings, and negated when the
  arguments are exchanged.
\<close>
theorem strcmp_correct:
  assumes "cstr m a xs" and "cstr m b ys" and "a \<noteq> NULL" and "b \<noteq> NULL"
  shows "strcmp a b m = Some (bytes_cmp xs ys)
       \<and> (strcmp a b m = Some 0 \<longleftrightarrow> xs = ys)
       \<and> strcmp b a m = Some (- bytes_cmp xs ys)"
  using assms strcmp_cstr [OF assms(1,2)] strcmp_cstr [OF assms(2,1)]
    bytes_cmp_0 [OF cstr_nonzero cstr_nonzero, OF assms(1,2)]
    bytes_cmp_sym [OF cstr_nonzero cstr_nonzero, OF assms(1,2)]
  by (simp add: strcmp_def)

theorem strcmp_correct_witness:
  "let m = (\<lambda>_. 0)(16 := 97, 17 := 98, 32 := 97, 33 := 99)
   in strcmp 16 32 m = Some (- 1) \<and> strcmp 16 16 m = Some 0"
  using strcmp_correct [of "(\<lambda>_. 0)(16 := 97, 17 := 98, 32 := 97, 33 := 99)" 16 "[97, 98]" 32 "[97, 99]"]
    strcmp_correct [of "(\<lambda>_. 0)(16 := 97, 17 := 98, 32 := 97, 33 := 99)" 16 "[97, 98]" 16 "[97, 98]"]
  by simp

text \<open>
  \<^verbatim>\<open>strcat\<close> appends: with the source apart from the destination and its room, the
  destination holds the concatenation afterwards, and nothing outside the destination changes.
  (\<^verbatim>\<open>strcpy\<close> is the case of an empty destination.)
\<close>
theorem strcat_correct:
  assumes "cstr m d xs" and "cstr m s ys" and "d \<noteq> NULL" and "s \<noteq> NULL"
    and "length xs + length ys < 2 ^ 32 - 1"
    and "region d (Suc (length xs + length ys)) \<inter> region s (Suc (length ys)) = {}"
  shows "\<exists>m'. strcat d s m = Some m' \<and> cstr m' d (xs @ ys)
           \<and> (\<forall>x. x \<notin> region d (Suc (length xs + length ys)) \<longrightarrow> m' x = m x)"
proof -
  let ?d = "d + of_nat (length xs)" and ?n = "Suc (length ys)"
  have reg: "region d (Suc (length xs + length ys)) = region d (length xs) \<union> region ?d ?n"
    using region_append [of d "length xs" ?n] by simp
  obtain m' where m': "strcpy_loop ?d s m = Some m'" "cstr m' ?d ys"
      "\<forall>x. x \<notin> region ?d ?n \<longrightarrow> m' x = m x"
    using strcpy_cstr [OF assms(2), of ?d] assms(5,6) reg by auto
  have "x \<notin> region ?d ?n" if "x \<in> region d (length xs)" for x
  proof
    assume "x \<in> region ?d ?n"
    with that obtain i j where i: "i < length xs" "x = d + of_nat i"
      and j: "j < ?n" "x = ?d + of_nat j" by (auto simp: region_def)
    then have "(of_nat i :: u32) = of_nat (length xs + j)" by (simp add: add.assoc)
    moreover have "i < 2 ^ 32" "length xs + j < 2 ^ 32" using i j assms(5) by auto
    ultimately have "i = length xs + j" using of_nat_u32_eq by blast
    with i show False by simp
  qed
  then have "cstr m' d (xs @ ys)" using cstr_append [OF assms(1) m'(2)] m'(3) by blast
  then show ?thesis
    using m' reg skip_string_cstr [OF assms(1)] assms(3,4) by (simp add: strcat_def)
qed

theorem strcat_correct_witness:
  "\<exists>m'. strcat 16 32 ((\<lambda>_. 0)(16 := 47, 32 := 97)) = Some m' \<and> cstr m' 16 [47, 97]"
  using strcat_correct [of "(\<lambda>_. 0)(16 := 47, 32 := 97)" 16 "[47]" 32 "[97]"]
  by (auto simp: region_Suc)

text \<open>
  \<^verbatim>\<open>memset\<close> fills exactly its region, and \<^verbatim>\<open>memcpy\<close> between disjoint regions copies byte
  by byte and changes nothing else; both reject a null pointer.
\<close>
theorem memset_memcpy_correct:
  assumes "d \<noteq> NULL" and "s \<noteq> NULL" and "region d (unat n) \<inter> region s (unat n) = {}"
  shows "(\<exists>m'. memset d v n m = Some m' \<and> (\<forall>x. m' x = (if x \<in> region d (unat n) then v else m x)))
       \<and> (\<exists>m'. memcpy d s n m = Some m'
            \<and> (\<forall>i<unat n. m' (d + of_nat i) = m (s + of_nat i))
            \<and> (\<forall>x. x \<notin> region d (unat n) \<longrightarrow> m' x = m x))
       \<and> memset NULL v n m = None \<and> memcpy NULL s n m = None"
proof -
  have "unat n \<le> 2 ^ 32" using unat_u32_less [of n] by simp
  then show ?thesis using assms memcpy_loop_copies [OF _ assms(3)] memcpy_loop_frame
    by (auto simp: memset_def memcpy_def memset_loop_eq)
qed

theorem memset_memcpy_correct_witness:
  "\<exists>m'. memcpy 16 32 2 ((\<lambda>_. 0)(32 := 1, 33 := 2)) = Some m' \<and> m' 17 = 2"
proof -
  have "region 16 2 \<inter> region 32 2 = {}" by (simp add: region_two)
  with memset_memcpy_correct [of 16 32 2 0 "(\<lambda>_. 0)(32 := 1, 33 := 2)"]
  obtain m' where m': "memcpy 16 32 2 ((\<lambda>_. 0)(32 := 1, 33 := 2)) = Some m'"
    and c: "\<And>i. i < 2 \<Longrightarrow> m' (16 + of_nat i) = ((\<lambda>_. 0)(32 := 1, 33 := 2 :: u8)) (32 + of_nat i :: u32)"
    by auto
  show ?thesis using m' c [of 1] by simp
qed

end
