(* ===== verification/Paging.thy ===== *)
theory Paging
  imports Klist Bitmap
begin

unbundle bit_operations_syntax

text \<open>
  The page-table half of \<^verbatim>\<open>kernel/memory.c\<close>. Physical memory holds one 32-bit word per aligned
  physical address; \<open>cr3\<close> is the page directory in use. \<open>translate\<close> is the table walk of the
  processor (two levels, present bit 0), and every pointer the kernel dereferences goes through it:
  \<^verbatim>\<open>*pde\<close> and \<^verbatim>\<open>*pte\<close> are reads and writes of virtual addresses. A walk that meets an absent
  entry is a page fault; the kernel's handler prints a message and spins, so it is \<open>None\<close>.

  The kernel reaches the tables through the last directory entry, which points at the directory
  itself. The lemmas show that the addresses \<^verbatim>\<open>pde_ptr\<close> and \<^verbatim>\<open>pte_ptr\<close> compute are then the
  addresses of the right entries.
\<close>

section \<open>The code\<close>

record vmstate = lheap +
  phys :: "u32 \<Rightarrow> u32"
  cr3 :: u32

definition PG_P_1 :: u32 where "PG_P_1 = 1"
definition PG_RW_W :: u32 where "PG_RW_W = 2"
definition PG_US_U :: u32 where "PG_US_U = 4"

definition PDE_IDX :: "u32 \<Rightarrow> u32" where "PDE_IDX addr = drop_bit 22 (addr AND 0xffc00000)"
definition PTE_IDX :: "u32 \<Rightarrow> u32" where "PTE_IDX addr = drop_bit 12 (addr AND 0x003ff000)"

text \<open>The processor's table walk and the accesses of the kernel.\<close>

definition translate :: "'a vmstate_scheme \<Rightarrow> addr \<Rightarrow> u32 option" where
  "translate s va =
     (let pde = phys s ((cr3 s AND 0xfffff000) + PDE_IDX va * 4)
      in if pde AND PG_P_1 = 0 then None
         else let pte = phys s ((pde AND 0xfffff000) + PTE_IDX va * 4)
              in if pte AND PG_P_1 = 0 then None
                 else Some ((pte AND 0xfffff000) + (va AND 0x00000fff)))"

definition load32 :: "addr \<Rightarrow> 'a vmstate_scheme \<Rightarrow> u32 option" where
  "load32 va s = map_option (phys s) (translate s va)"

definition store32 :: "addr \<Rightarrow> u32 \<Rightarrow> 'a vmstate_scheme \<Rightarrow> 'a vmstate_scheme option" where
  "store32 va v s = map_option (\<lambda>pa. s\<lparr>phys := (phys s)(pa := v)\<rparr>) (translate s va)"

definition pte_ptr :: "addr \<Rightarrow> addr" where
  "pte_ptr vaddr = 0xffc00000 + drop_bit 10 (vaddr AND 0xffc00000) + PTE_IDX vaddr * 4"

definition pde_ptr :: "addr \<Rightarrow> addr" where
  "pde_ptr vaddr = 0xfffff000 + PDE_IDX vaddr * 4"

definition addr_v2p :: "addr \<Rightarrow> 'a vmstate_scheme \<Rightarrow> u32 option" where
  "addr_v2p vaddr s = do {
     pte \<leftarrow> load32 (pte_ptr vaddr) s;
     Some ((pte AND 0xfffff000) + (vaddr AND 0x00000fff))
   }"

definition page_table_pte_remove :: "addr \<Rightarrow> 'a vmstate_scheme \<Rightarrow> 'a vmstate_scheme option" where
  "page_table_pte_remove vaddr s = do {
     pte \<leftarrow> load32 (pte_ptr vaddr) s;
     store32 (pte_ptr vaddr) (pte AND NOT PG_P_1) s
   }"

text \<open>A frame pool (its lock is modelled with the other locks).\<close>

record pool =
  pool_bitmap :: bitmap
  phy_addr_start :: u32
  pool_size :: u32

definition palloc :: "pool \<Rightarrow> (u32 \<times> pool) option" where
  "palloc m_pool = do {
     bit_idx \<leftarrow> bitmap_scan (pool_bitmap m_pool) 1;
     if bit_idx = - 1 then Some (NULL, m_pool)
     else do {
       b \<leftarrow> bitmap_set (pool_bitmap m_pool) (nat bit_idx) 1;
       Some (of_int bit_idx * of_nat PG_SIZE + phy_addr_start m_pool, m_pool\<lparr>pool_bitmap := b\<rparr>)
     }
   }"

text \<open>\<^verbatim>\<open>memset\<close> of one page through its virtual address, word by word.\<close>

primrec clear_words :: "nat \<Rightarrow> addr \<Rightarrow> 'a vmstate_scheme \<Rightarrow> 'a vmstate_scheme option" where
  "clear_words 0 va s = Some s"
| "clear_words (Suc n) va s = do { s \<leftarrow> store32 va 0 s; clear_words n (va + 4) s }"

text \<open>\<^verbatim>\<open>page_table_add\<close>: the page table comes from the kernel pool when the directory entry is absent.\<close>

definition page_table_add ::
    "addr \<Rightarrow> u32 \<Rightarrow> pool \<Rightarrow> 'a vmstate_scheme \<Rightarrow> (pool \<times> 'a vmstate_scheme) option" where
  "page_table_add vaddr page_phyaddr kernel_pool s = do {
     pde \<leftarrow> load32 (pde_ptr vaddr) s;
     if pde AND 0x00000001 \<noteq> 0 then do {
       pte \<leftarrow> load32 (pte_ptr vaddr) s;
       ASSERT (pte AND 0x00000001 = 0);
       s \<leftarrow> store32 (pte_ptr vaddr) (page_phyaddr OR PG_US_U OR PG_RW_W OR PG_P_1) s;
       Some (kernel_pool, s)
     } else do {
       (pde_phyaddr, kernel_pool) \<leftarrow> palloc kernel_pool;
       s \<leftarrow> store32 (pde_ptr vaddr) (pde_phyaddr OR PG_US_U OR PG_RW_W OR PG_P_1) s;
       s \<leftarrow> clear_words (PG_SIZE div 4) (pte_ptr vaddr AND 0xfffff000) s;
       pte \<leftarrow> load32 (pte_ptr vaddr) s;
       ASSERT (pte AND 0x00000001 = 0);
       s \<leftarrow> store32 (pte_ptr vaddr) (page_phyaddr OR PG_US_U OR PG_RW_W OR PG_P_1) s;
       Some (kernel_pool, s)
     }
   }"

section \<open>The fields of an address\<close>

lemma paging_masks:
  "(0xfffff000 :: u32) = push_bit 12 (mask 20)" "(0x00000fff :: u32) = mask 12"
  "(0xffc00000 :: u32) = push_bit 22 (mask 10)" "(0x003ff000 :: u32) = push_bit 12 (mask 10)"
  by (simp_all add: mask_eq_exp_minus_1)

lemma PDE_IDX_eq: "PDE_IDX v = drop_bit 22 v"
  unfolding PDE_IDX_def paging_masks by (rule bit_word_eqI) (auto simp: bit_simps dest: bit_u32_bound)

lemma PTE_IDX_eq: "PTE_IDX v = drop_bit 12 v AND mask 10"
  unfolding PTE_IDX_def paging_masks by (rule bit_word_eqI) (auto simp: bit_simps dest: bit_u32_bound)

lemma mult4_push: "(x :: u32) * 4 = push_bit 2 x"
  by (simp add: push_bit_eq_mult)

text \<open>Entry \<open>i\<close> of the table in the frame that \<open>f\<close> points to.\<close>

lemma slot_or:
  assumes "i AND mask 10 = i"
  shows "(f AND 0xfffff000) + i * 4 = (f AND 0xfffff000) OR push_bit 2 (i :: u32)"
proof -
  have i: "bit i n \<Longrightarrow> n < 10" for n using assms by (metis bit_and_iff bit_mask_iff)
  have "(f AND 0xfffff000) AND push_bit 2 i = 0"
    unfolding paging_masks by (rule bit_word_eqI) (use i in \<open>fastforce simp: bit_simps\<close>)
  then show ?thesis by (simp add: mult4_push disjunctive_add_eq_or)
qed

lemma idx_bounds [simp]: "PDE_IDX v AND mask 10 = PDE_IDX v" "PTE_IDX v AND mask 10 = PTE_IDX v"
  unfolding PDE_IDX_eq PTE_IDX_eq by (rule bit_word_eqI, auto simp: bit_simps dest: bit_u32_bound)+

lemma pde_ptr_eq: "pde_ptr v = 0xfffff000 OR push_bit 2 (drop_bit 22 v)"
  using slot_or [OF idx_bounds(1) [of v], of "- 1"] by (simp add: pde_ptr_def PDE_IDX_eq)

lemma pte_ptr_eq: "pte_ptr v = 0xffc00000 OR push_bit 2 (drop_bit 12 v)"
proof -
  have a: "drop_bit 10 (v AND 0xffc00000) + PTE_IDX v * 4 = push_bit 2 (drop_bit 12 v AND mask 20)"
  proof -
    have "drop_bit 10 (v AND 0xffc00000) AND push_bit 2 (PTE_IDX v) = 0"
      unfolding PTE_IDX_eq paging_masks by (rule bit_word_eqI) (auto simp: bit_simps dest: bit_u32_bound)
    then have "drop_bit 10 (v AND 0xffc00000) + PTE_IDX v * 4
        = drop_bit 10 (v AND 0xffc00000) OR push_bit 2 (PTE_IDX v)"
      by (simp add: mult4_push disjunctive_add_eq_or)
    also have "\<dots> = push_bit 2 (drop_bit 12 v AND mask 20)"
      unfolding PTE_IDX_eq paging_masks by (rule bit_word_eqI) (auto simp: bit_simps dest: bit_u32_bound)
    finally show ?thesis .
  qed
  have b: "0xffc00000 AND push_bit 2 (drop_bit 12 v AND mask 20) = (0 :: u32)"
    unfolding paging_masks by (rule bit_word_eqI) (auto simp: bit_simps dest: bit_u32_bound)
  have c: "drop_bit 12 v AND mask 20 = drop_bit 12 v"
    by (rule bit_word_eqI) (auto simp: bit_simps dest: bit_u32_bound)
  show ?thesis unfolding pte_ptr_def add.assoc a using b by (simp add: disjunctive_add_eq_or c)
qed

lemma pde_ptr_fields:
  "PDE_IDX (pde_ptr v) = 1023" "PTE_IDX (pde_ptr v) = 1023" "pde_ptr v AND 0xfff = PDE_IDX v * 4"
proof -
  have m: "(1023 :: u32) = mask 10" by (simp add: mask_eq_exp_minus_1)
  show "PDE_IDX (pde_ptr v) = 1023" "PTE_IDX (pde_ptr v) = 1023"
    unfolding PDE_IDX_eq PTE_IDX_eq pde_ptr_eq m paging_masks
    by (rule bit_word_eqI, auto simp: bit_simps dest: bit_u32_bound)+
  show "pde_ptr v AND 0xfff = PDE_IDX v * 4"
    unfolding PDE_IDX_eq pde_ptr_eq mult4_push paging_masks
    by (rule bit_word_eqI) (auto simp: bit_simps dest: bit_u32_bound)
qed

lemma pte_ptr_fields:
  "PDE_IDX (pte_ptr v) = 1023" "PTE_IDX (pte_ptr v) = PDE_IDX v" "pte_ptr v AND 0xfff = PTE_IDX v * 4"
proof -
  have m: "(1023 :: u32) = mask 10" by (simp add: mask_eq_exp_minus_1)
  show "PDE_IDX (pte_ptr v) = 1023" "PTE_IDX (pte_ptr v) = PDE_IDX v"
    unfolding PDE_IDX_eq PTE_IDX_eq pte_ptr_eq m paging_masks
    by (rule bit_word_eqI, auto simp: bit_simps dest: bit_u32_bound)+
  show "pte_ptr v AND 0xfff = PTE_IDX v * 4"
    unfolding PTE_IDX_eq pte_ptr_eq mult4_push paging_masks
    by (rule bit_word_eqI) (auto simp: bit_simps dest: bit_u32_bound)
qed

section \<open>Entries and the tables that hold them\<close>

definition frame_of :: "u32 \<Rightarrow> u32" where "frame_of e = e AND 0xfffff000"
definition present :: "u32 \<Rightarrow> bool" where "present e = (e AND PG_P_1 \<noteq> 0)"
definition slot :: "u32 \<Rightarrow> u32 \<Rightarrow> u32" where "slot f i = frame_of f + i * 4"
definition pde_at :: "'a vmstate_scheme \<Rightarrow> addr \<Rightarrow> u32" where
  "pde_at s v = phys s (slot (cr3 s) (PDE_IDX v))"
definition pte_at :: "'a vmstate_scheme \<Rightarrow> addr \<Rightarrow> u32" where
  "pte_at s v = phys s (slot (pde_at s v) (PTE_IDX v))"

lemma frame_of_idem [simp]: "frame_of (frame_of e) = frame_of e"
  by (simp add: frame_of_def and.assoc)

lemma slot_frame:
  assumes "i AND mask 10 = i"
  shows "frame_of (slot f i) = frame_of f" "slot f i AND 0xfff = i * 4"
proof -
  have i: "bit i n \<Longrightarrow> n < 10" for n using assms by (metis bit_and_iff bit_mask_iff)
  show "frame_of (slot f i) = frame_of f"
    unfolding slot_def frame_of_def slot_or [OF assms]
    unfolding paging_masks
    by (rule bit_word_eqI) (use i in \<open>fastforce simp: bit_simps\<close>)
  show "slot f i AND 0xfff = i * 4"
    unfolding slot_def frame_of_def slot_or [OF assms]
    unfolding paging_masks mult4_push
    by (rule bit_word_eqI) (use i in \<open>fastforce simp: bit_simps\<close>)
qed

lemma slot_inj:
  assumes "i AND mask 10 = i" "j AND mask 10 = j"
  shows "(slot f i = slot g j) = (frame_of f = frame_of g \<and> i = j)"
proof
  assume e: "slot f i = slot g j"
  have "i * 4 = j * 4" using slot_frame(2) [OF assms(1), of f] slot_frame(2) [OF assms(2), of g] e by simp
  then have "push_bit 2 i = push_bit 2 j" by (simp add: mult4_push)
  then have b: "bit (push_bit 2 i) (n + 2) = bit (push_bit 2 j) (n + 2)" for n by simp
  have lt: "bit i n \<Longrightarrow> n < 10" "bit j n \<Longrightarrow> n < 10" for n
    using assms by (metis bit_and_iff bit_mask_iff)+
  have "i = j"
  proof (rule bit_word_eqI)
    fix n
    show "bit i n = bit j n" using b [of n] lt [of n] by (auto simp: bit_simps)
  qed
  moreover have "frame_of f = frame_of g"
    using slot_frame(1) [OF assms(1), of f] slot_frame(1) [OF assms(2), of g] e by simp
  ultimately show "frame_of f = frame_of g \<and> i = j" by simp
qed (simp add: slot_def)

lemma translate_eq:
  "translate s v = (if present (pde_at s v) \<and> present (pte_at s v)
     then Some (frame_of (pte_at s v) + (v AND 0xfff)) else None)"
  by (simp add: translate_def pde_at_def pte_at_def present_def frame_of_def slot_def Let_def)

lemma translate_cong: "phys t = phys s \<Longrightarrow> cr3 t = cr3 s \<Longrightarrow> translate t w = translate s w"
  by (simp add: translate_def Let_def)

text \<open>The last directory entry points at the directory.\<close>

definition selfmap :: "'a vmstate_scheme \<Rightarrow> bool" where
  "selfmap s = (let e = phys s (slot (cr3 s) 1023) in present e \<and> frame_of e = frame_of (cr3 s))"

lemma slot_cong: "frame_of f = frame_of g \<Longrightarrow> slot f i = slot g i"
  by (simp add: slot_def)

lemma translate_pde_ptr:
  assumes "selfmap s"
  shows "translate s (pde_ptr v) = Some (slot (cr3 s) (PDE_IDX v))"
proof -
  let ?e = "phys s (slot (cr3 s) 1023)"
  have e: "present ?e" "frame_of ?e = frame_of (cr3 s)" using assms by (simp_all add: selfmap_def Let_def)
  have "pde_at s (pde_ptr v) = ?e" by (simp add: pde_at_def pde_ptr_fields)
  moreover have "pte_at s (pde_ptr v) = ?e"
    using \<open>pde_at s (pde_ptr v) = ?e\<close> slot_cong [OF e(2)] by (simp add: pte_at_def pde_ptr_fields)
  ultimately show ?thesis using e by (simp add: translate_eq pde_ptr_fields slot_def)
qed

lemma translate_pte_ptr:
  assumes "selfmap s"
  shows "translate s (pte_ptr v)
    = (if present (pde_at s v) then Some (slot (pde_at s v) (PTE_IDX v)) else None)"
proof -
  let ?e = "phys s (slot (cr3 s) 1023)"
  have e: "present ?e" "frame_of ?e = frame_of (cr3 s)" using assms by (simp_all add: selfmap_def Let_def)
  have "pde_at s (pte_ptr v) = ?e" by (simp add: pde_at_def pte_ptr_fields)
  moreover have "pte_at s (pte_ptr v) = pde_at s v"
    using \<open>pde_at s (pte_ptr v) = ?e\<close> slot_cong [OF e(2)] by (simp add: pte_at_def pte_ptr_fields pde_at_def)
  ultimately show ?thesis using e by (simp add: translate_eq pte_ptr_fields slot_def)
qed

lemma load_pde: "selfmap s \<Longrightarrow> load32 (pde_ptr v) s = Some (pde_at s v)"
  by (simp add: load32_def translate_pde_ptr pde_at_def)

lemma load_pte:
  "selfmap s \<Longrightarrow> present (pde_at s v) \<Longrightarrow> load32 (pte_ptr v) s = Some (pte_at s v)"
  by (simp add: load32_def translate_pte_ptr pte_at_def)

lemma store_pde:
  "selfmap s \<Longrightarrow> store32 (pde_ptr v) e s = Some (s\<lparr>phys := (phys s)(slot (cr3 s) (PDE_IDX v) := e)\<rparr>)"
  by (simp add: store32_def translate_pde_ptr)

lemma store_pte:
  "selfmap s \<Longrightarrow> present (pde_at s v)
   \<Longrightarrow> store32 (pte_ptr v) e s = Some (s\<lparr>phys := (phys s)(slot (pde_at s v) (PTE_IDX v) := e)\<rparr>)"
  by (simp add: store32_def translate_pte_ptr)

section \<open>Frame pools\<close>

definition pool_frame :: "pool \<Rightarrow> nat \<Rightarrow> u32" where
  "pool_frame kp i = of_nat i * of_nat PG_SIZE + phy_addr_start kp"

definition pool_wf :: "pool \<Rightarrow> bool" where
  "pool_wf kp = (phy_addr_start kp AND 0xfff = 0 \<and> phy_addr_start kp \<noteq> 0
     \<and> unat (phy_addr_start kp) + bm_cap (pool_bitmap kp) * PG_SIZE \<le> 2 ^ 32)"

definition pool_free :: "pool \<Rightarrow> nat \<Rightarrow> bool" where
  "pool_free kp i = (i < bm_cap (pool_bitmap kp) \<and> \<not> bm_used (pool_bitmap kp) i)"

lemma palloc_cases:
  obtains (full) "palloc kp = Some (NULL, kp)" and "\<forall>i. \<not> pool_free kp i"
  | (frame) i b where "palloc kp = Some (pool_frame kp i, kp\<lparr>pool_bitmap := b\<rparr>)"
      and "pool_free kp i" and "bm_cap b = bm_cap (pool_bitmap kp)"
      and "\<forall>j. bm_used b j = (j = i \<or> bm_used (pool_bitmap kp) j)"
      and "\<forall>j<i. \<not> pool_free kp j"
proof (cases rule: bm.scan_cases [of "pool_bitmap kp"])
  case full
  then show ?thesis using that(1) by (simp add: palloc_def pool_free_def)
next
  case (free i)
  from bm.take_slot [OF free(1)] obtain b where b: "bitmap_set (pool_bitmap kp) i 1 = Some b"
    "bm_cap b = bm_cap (pool_bitmap kp)" "bm_used b i"
    "\<forall>j. j \<noteq> i \<longrightarrow> bm_used b j = bm_used (pool_bitmap kp) j" by blast
  have "palloc kp = Some (pool_frame kp i, kp\<lparr>pool_bitmap := b\<rparr>)"
    using free b by (simp add: palloc_def pool_frame_def)
  moreover have "\<forall>j. bm_used b j = (j = i \<or> bm_used (pool_bitmap kp) j)" using b(3,4) by metis
  ultimately show ?thesis using that(2) free b(2) by (simp add: pool_free_def)
qed

lemma low_bits_take: "(x AND 0xfff = 0) = (take_bit 12 (x :: u32) = 0)"
  by (simp add: paging_masks(2) take_bit_eq_mask)

lemma frame_of_aligned: "x AND 0xfff = 0 \<Longrightarrow> frame_of x = x"
proof -
  assume z: "x AND 0xfff = 0"
  have low: "\<not> bit x n" if "n < 12" for n
  proof -
    have "\<not> bit (x AND mask 12) n" using z by (simp add: paging_masks(2))
    then show ?thesis using that by (simp add: bit_simps)
  qed
  show ?thesis
  proof (rule bit_word_eqI)
    fix n assume "n < LENGTH(32)"
    then show "bit (frame_of x) n = bit x n"
      using low [of n] unfolding frame_of_def paging_masks by (auto simp: bit_simps not_less [symmetric])
  qed
qed

text \<open>Page \<open>i\<close> of a range of pages that starts at an aligned address.\<close>

definition page_at :: "addr \<Rightarrow> nat \<Rightarrow> addr" where
  "page_at base i = of_nat i * of_nat PG_SIZE + base"

lemma page_at_low: "base AND 0xfff = 0 \<Longrightarrow> page_at base i AND 0xfff = 0"
proof -
  assume "base AND 0xfff = 0"
  then have "take_bit 12 base = 0" by (simp add: low_bits_take)
  then have "base = push_bit 12 (drop_bit 12 base)" using bits_ident [of 12 base] by simp
  moreover have "of_nat i * of_nat PG_SIZE = push_bit 12 (of_nat i :: u32)"
    by (simp add: PG_SIZE_def push_bit_eq_mult)
  ultimately have "page_at base i = push_bit 12 (of_nat i + drop_bit 12 base)"
    unfolding page_at_def by (metis push_bit_add)
  then show ?thesis by (simp add: low_bits_take take_bit_push_bit)
qed

lemma page_at_unat:
  assumes "unat base + n * PG_SIZE \<le> 2 ^ 32" and "i < n"
  shows "unat (page_at base i) = unat base + i * PG_SIZE"
proof -
  have lt: "unat base + i * PG_SIZE < 2 ^ 32" using assms by (simp add: PG_SIZE_def)
  have "page_at base i = of_nat (unat base + i * PG_SIZE)" by (simp add: page_at_def)
  then show ?thesis using unat_of_nat_u32 [OF lt] by simp
qed

lemma page_at_inj:
  assumes "unat base + n * PG_SIZE \<le> 2 ^ 32" and "i < n" and "j < n"
  shows "(page_at base i = page_at base j) = (i = j)"
proof
  assume "page_at base i = page_at base j"
  then have "i * PG_SIZE = j * PG_SIZE"
    using page_at_unat [OF assms(1,2)] page_at_unat [OF assms(1,3)] by (metis add_left_cancel)
  then show "i = j" by (simp add: PG_SIZE_def)
qed simp

lemma pool_frame_page: "pool_frame kp i = page_at (phy_addr_start kp) i"
  by (simp add: pool_frame_def page_at_def)

lemma pool_frame_low: "pool_wf kp \<Longrightarrow> pool_frame kp i AND 0xfff = 0"
  by (simp add: pool_frame_page page_at_low pool_wf_def)

lemma pool_frame_aligned: "pool_wf kp \<Longrightarrow> frame_of (pool_frame kp i) = pool_frame kp i"
  by (simp add: frame_of_aligned pool_frame_low)

lemma pool_frame_unat:
  "pool_wf kp \<Longrightarrow> i < bm_cap (pool_bitmap kp) \<Longrightarrow> unat (pool_frame kp i) = unat (phy_addr_start kp) + i * PG_SIZE"
  unfolding pool_frame_page by (rule page_at_unat) (simp_all add: pool_wf_def)

lemma pool_frame_inj:
  "pool_wf kp \<Longrightarrow> i < bm_cap (pool_bitmap kp) \<Longrightarrow> j < bm_cap (pool_bitmap kp) \<Longrightarrow>
   (pool_frame kp i = pool_frame kp j) = (i = j)"
  unfolding pool_frame_page by (rule page_at_inj) (simp_all add: pool_wf_def)

lemma pool_frame_nonzero: "pool_wf kp \<Longrightarrow> i < bm_cap (pool_bitmap kp) \<Longrightarrow> pool_frame kp i \<noteq> 0"
proof
  assume "pool_wf kp" "i < bm_cap (pool_bitmap kp)" "pool_frame kp i = 0"
  then have "unat (phy_addr_start kp) = 0" using pool_frame_unat [of kp i] by simp
  then have "phy_addr_start kp = 0" by (metis unat_eq_zero)
  then show False using \<open>pool_wf kp\<close> by (simp add: pool_wf_def)
qed

section \<open>The address-space invariant\<close>

text \<open>
  The directory maps itself, no two present directory entries share a page table, and no free
  frame of the kernel pool holds a page table.
\<close>

definition vm_inv :: "pool \<Rightarrow> 'a vmstate_scheme \<Rightarrow> bool" where
  "vm_inv kp s = (pool_wf kp \<and> selfmap s
     \<and> (\<forall>v w. present (pde_at s v) \<and> present (pde_at s w)
          \<and> frame_of (pde_at s v) = frame_of (pde_at s w) \<longrightarrow> PDE_IDX v = PDE_IDX w)
     \<and> (\<forall>i v. pool_free kp i \<and> present (pde_at s v) \<longrightarrow> frame_of (pde_at s v) \<noteq> pool_frame kp i))"

lemma PDE_IDX_last [simp]: "PDE_IDX 0xffc00000 = 1023"
  by (simp add: PDE_IDX_def)

lemma selfmap_pde:
  "selfmap s = (present (pde_at s 0xffc00000) \<and> frame_of (pde_at s 0xffc00000) = frame_of (cr3 s))"
  by (simp add: selfmap_def pde_at_def Let_def)

lemma vm_inv_selfmap: "vm_inv kp s \<Longrightarrow> selfmap s"
  by (simp add: vm_inv_def)

text \<open>The table that a directory entry other than the last points to is not the directory.\<close>

lemma table_not_directory:
  assumes "vm_inv kp s" and "present (pde_at s v)" and "PDE_IDX v \<noteq> 1023"
  shows "frame_of (pde_at s v) \<noteq> frame_of (cr3 s)"
proof
  assume "frame_of (pde_at s v) = frame_of (cr3 s)"
  then have "present (pde_at s 0xffc00000)" "frame_of (pde_at s v) = frame_of (pde_at s 0xffc00000)"
    using assms by (simp_all add: vm_inv_def selfmap_pde)
  then have "PDE_IDX v = PDE_IDX 0xffc00000" using assms(1,2) unfolding vm_inv_def by blast
  with assms(3) show False by simp
qed

lemma vm_inv_cong:
  assumes "vm_inv kp s" and "\<And>w. pde_at s' w = pde_at s w" and "cr3 s' = cr3 s"
  shows "vm_inv kp s'"
  using assms by (simp add: vm_inv_def selfmap_pde)

lemma vm_inv_phys: "phys t = phys s \<Longrightarrow> cr3 t = cr3 s \<Longrightarrow> vm_inv kp t = vm_inv kp s"
  by (simp add: vm_inv_def selfmap_def pde_at_def)

text \<open>Writing one entry of a page table.\<close>

lemma write_table_entry:
  assumes inv: "vm_inv kp s" and p: "present (pde_at s v)" and l: "PDE_IDX v \<noteq> 1023"
    and s': "s' = s\<lparr>phys := (phys s)(slot (pde_at s v) (PTE_IDX v) := e)\<rparr>"
  shows "pde_at s' w = pde_at s w"
    and "present (pde_at s w) \<Longrightarrow>
      pte_at s' w = (if PDE_IDX w = PDE_IDX v \<and> PTE_IDX w = PTE_IDX v then e else pte_at s w)"
    and "vm_inv kp s'"
proof -
  have pd: "pde_at s' w = pde_at s w" for w
  proof -
    have "slot (pde_at s v) (PTE_IDX v) \<noteq> slot (cr3 s) (PDE_IDX w)"
      using table_not_directory [OF inv p l] by (simp add: slot_inj)
    then show ?thesis by (simp add: s' pde_at_def)
  qed
  show "pde_at s' w = pde_at s w" by (rule pd)
  show "vm_inv kp s'" by (rule vm_inv_cong [OF inv pd]) (simp add: s')
  show "pte_at s' w = (if PDE_IDX w = PDE_IDX v \<and> PTE_IDX w = PTE_IDX v then e else pte_at s w)"
    if "present (pde_at s w)"
  proof -
    have "(slot (pde_at s w) (PTE_IDX w) = slot (pde_at s v) (PTE_IDX v))
        = (PDE_IDX w = PDE_IDX v \<and> PTE_IDX w = PTE_IDX v)"
      using inv that p by (auto simp: slot_inj vm_inv_def pde_at_def)
    then show ?thesis unfolding pte_at_def pd by (simp add: s')
  qed
qed

text \<open>The window through which \<^verbatim>\<open>page_table_add\<close> clears a new table.\<close>

definition table_va :: "addr \<Rightarrow> nat \<Rightarrow> addr" where
  "table_va v k = (v AND 0xffc00000) OR push_bit 12 (of_nat k)"

lemma idx_mask_nat: "k < 1024 \<Longrightarrow> (of_nat k :: u32) AND mask 10 = of_nat k"
proof -
  assume "k < 1024"
  then have "take_bit 10 (of_nat k :: u32) = of_nat k"
    by (simp add: take_bit_of_nat take_bit_nat_eq_self)
  then show ?thesis by (simp add: take_bit_eq_mask)
qed

lemma table_va_fields:
  assumes "k < 1024"
  shows "PDE_IDX (table_va v k) = PDE_IDX v" "PTE_IDX (table_va v k) = of_nat k"
    "pte_ptr (table_va v k) = slot (pte_ptr v) (of_nat k)"
proof -
  define i :: u32 where "i = of_nat k"
  have m: "i AND mask 10 = i" using idx_mask_nat [OF assms] by (simp add: i_def)
  have tv: "table_va v k = (v AND 0xffc00000) OR push_bit 12 i" by (simp add: table_va_def i_def)
  have i: "bit i n \<Longrightarrow> n < 10" for n using m by (metis bit_and_iff bit_mask_iff)
  show "PDE_IDX (table_va v k) = PDE_IDX v"
    unfolding PDE_IDX_eq tv paging_masks
    by (rule bit_word_eqI) (auto simp: bit_simps dest: i bit_u32_bound)
  show "PTE_IDX (table_va v k) = of_nat k"
    unfolding PTE_IDX_eq tv paging_masks i_def [symmetric]
    by (rule bit_word_eqI) (auto simp: bit_simps dest: i bit_u32_bound)
  show "pte_ptr (table_va v k) = slot (pte_ptr v) (of_nat k)"
    unfolding i_def [symmetric] slot_def frame_of_def slot_or [OF m]
    unfolding pte_ptr_eq tv paging_masks
    by (rule bit_word_eqI) (auto simp: bit_simps dest: i bit_u32_bound)
qed

lemma slot_step: "slot f (of_nat k) + 4 = slot f (of_nat (Suc k))"
  by (simp add: slot_def algebra_simps)

lemma clear_table:
  assumes "vm_inv kp s" and "present (pde_at s v)" and "PDE_IDX v \<noteq> 1023" and "k + n \<le> 1024"
  shows "\<exists>p. clear_words n (slot (pte_ptr v) (of_nat k)) s = Some (s\<lparr>phys := p\<rparr>)
     \<and> vm_inv kp (s\<lparr>phys := p\<rparr>) \<and> (\<forall>w. pde_at (s\<lparr>phys := p\<rparr>) w = pde_at s w)
     \<and> (\<forall>w. present (pde_at s w) \<longrightarrow> pte_at (s\<lparr>phys := p\<rparr>) w =
          (if PDE_IDX w = PDE_IDX v \<and> k \<le> unat (PTE_IDX w) \<and> unat (PTE_IDX w) < k + n then 0
           else pte_at s w))"
  using assms
proof (induction n arbitrary: s k)
  case 0
  have "s\<lparr>phys := phys s\<rparr> = s" by simp
  then show ?case using "0.prems" by (intro exI [of _ "phys s"]) auto
next
  case (Suc n)
  let ?u = "table_va v k"
  have k: "k < 1024" using Suc.prems(4) by simp
  note tv = table_va_fields [OF k, of v]
  have pu: "present (pde_at s ?u)" "PDE_IDX ?u \<noteq> 1023"
    using Suc.prems(2,3) tv by (simp_all add: pde_at_def)
  define s1 where "s1 = s\<lparr>phys := (phys s)(slot (pde_at s ?u) (PTE_IDX ?u) := 0)\<rparr>"
  note w = write_table_entry [OF Suc.prems(1) pu s1_def]
  have st: "store32 (slot (pte_ptr v) (of_nat k)) 0 s = Some s1"
    using store_pte [OF vm_inv_selfmap [OF Suc.prems(1)] pu(1), of 0] by (simp add: tv s1_def)
  have "present (pde_at s1 v)" using Suc.prems(2) w(1) by simp
  from Suc.IH [OF w(3) this Suc.prems(3), of "Suc k"] Suc.prems(4) obtain p where
    p: "clear_words n (slot (pte_ptr v) (of_nat (Suc k))) s1 = Some (s1\<lparr>phys := p\<rparr>)"
      "vm_inv kp (s1\<lparr>phys := p\<rparr>)" "\<forall>w. pde_at (s1\<lparr>phys := p\<rparr>) w = pde_at s1 w"
      "\<forall>w. present (pde_at s1 w) \<longrightarrow> pte_at (s1\<lparr>phys := p\<rparr>) w =
          (if PDE_IDX w = PDE_IDX v \<and> Suc k \<le> unat (PTE_IDX w) \<and> unat (PTE_IDX w) < Suc k + n then 0
           else pte_at s1 w)"
    by auto
  have sp: "s1\<lparr>phys := p\<rparr> = s\<lparr>phys := p\<rparr>" by (simp add: s1_def)
  have ki: "(PTE_IDX w = of_nat k) = (unat (PTE_IDX w) = k)" for w
    using k u32_eq_of_nat [of k "PTE_IDX w"] by simp
  have "pte_at (s\<lparr>phys := p\<rparr>) w =
      (if PDE_IDX w = PDE_IDX v \<and> k \<le> unat (PTE_IDX w) \<and> unat (PTE_IDX w) < k + Suc n then 0
       else pte_at s w)" if "present (pde_at s w)" for w
    using p(4) [rule_format, of w] w(1) [of w] w(2) [OF that] that ki [of w] unfolding sp tv
    by (auto split: if_splits)
  then show ?case using p(1-3) st w(1) unfolding sp slot_step [symmetric]
    by (intro exI [of _ p]) simp
qed

section \<open>Adding and removing a mapping\<close>

lemma present_bits [simp]: "present (e OR PG_US_U OR PG_RW_W OR PG_P_1)" "\<not> present 0"
  "\<not> present (e AND NOT PG_P_1)"
proof -
  have p: "present x = bit x 0" for x
    using bit_mask_test [of 0 x] by (simp add: present_def PG_P_1_def)
  show "present (e OR PG_US_U OR PG_RW_W OR PG_P_1)" "\<not> present 0" "\<not> present (e AND NOT PG_P_1)"
    unfolding p by (simp_all add: PG_P_1_def bit_simps)
qed

lemma frame_of_flags [simp]: "frame_of (e OR PG_US_U OR PG_RW_W OR PG_P_1) = frame_of e"
proof -
  have "(PG_US_U OR PG_RW_W OR PG_P_1) AND 0xfffff000 = 0"
    by (simp add: PG_US_U_def PG_RW_W_def PG_P_1_def)
  then show ?thesis unfolding frame_of_def
    by (simp add: or.assoc bit.conj_disj_distrib2)
qed

lemma ASSERT_present: "(e AND 0x00000001 = 0) = (\<not> present e)" "(e AND 1 \<noteq> 0) = present e"
  by (simp_all add: present_def PG_P_1_def)

text \<open>Writing a directory entry that points to a fresh frame keeps the invariant.\<close>

lemma add_table:
  assumes inv: "vm_inv kp s" and a: "\<not> present (pde_at s v)" and i: "pool_free kp i"
    and kp': "kp' = kp\<lparr>pool_bitmap := b\<rparr>" and b: "bm_cap b = bm_cap (pool_bitmap kp)"
      "\<forall>j. bm_used b j = (j = i \<or> bm_used (pool_bitmap kp) j)"
    and e: "present e" "frame_of e = pool_frame kp i"
    and s': "s' = s\<lparr>phys := (phys s)(slot (cr3 s) (PDE_IDX v) := e)\<rparr>"
  shows "pde_at s' w = (if PDE_IDX w = PDE_IDX v then e else pde_at s w)"
    and "PDE_IDX w \<noteq> 1023 \<Longrightarrow> PDE_IDX w \<noteq> PDE_IDX v \<Longrightarrow> present (pde_at s w) \<Longrightarrow> pte_at s' w = pte_at s w"
    and "vm_inv kp' s'"
proof -
  have l: "PDE_IDX v \<noteq> 1023"
    using inv a by (auto simp: vm_inv_def selfmap_pde pde_at_def)
  have pd: "pde_at s' w = (if PDE_IDX w = PDE_IDX v then e else pde_at s w)" for w
    by (simp add: s' pde_at_def slot_inj)
  show "pde_at s' w = (if PDE_IDX w = PDE_IDX v then e else pde_at s w)" by (rule pd)
  show "pte_at s' w = pte_at s w"
    if "PDE_IDX w \<noteq> 1023" "PDE_IDX w \<noteq> PDE_IDX v" "present (pde_at s w)"
  proof -
    have "slot (pde_at s w) (PTE_IDX w) \<noteq> slot (cr3 s) (PDE_IDX v)"
      using table_not_directory [OF inv that(3,1)] by (simp add: slot_inj)
    then show ?thesis unfolding pte_at_def pd using that(2) by (simp add: s')
  qed
  have fresh: "frame_of (pde_at s w) \<noteq> frame_of e" if "present (pde_at s w)" for w
    using inv i that e(2) by (auto simp: vm_inv_def)
  have wf: "pool_wf kp'" using inv by (simp add: vm_inv_def kp' pool_wf_def b)
  have fr: "pool_frame kp' j = pool_frame kp j" for j by (simp add: kp' pool_frame_def)
  have free: "pool_free kp' j \<Longrightarrow> pool_free kp j \<and> j \<noteq> i" for j
    by (simp add: kp' pool_free_def b)
  have ne: "pool_frame kp j \<noteq> frame_of e" if "pool_free kp' j" for j
    using free [OF that] i inv unfolding e(2) by (simp add: pool_frame_inj vm_inv_def pool_free_def)
  have "cr3 s' = cr3 s" by (simp add: s')
  then have "selfmap s'" using inv l by (auto simp: selfmap_pde vm_inv_def pd)
  moreover have "PDE_IDX x = PDE_IDX y" if "present (pde_at s' x)" "present (pde_at s' y)"
    "frame_of (pde_at s' x) = frame_of (pde_at s' y)" for x y
  proof (cases "PDE_IDX x = PDE_IDX v \<or> PDE_IDX y = PDE_IDX v")
    case True
    have "PDE_IDX x = PDE_IDX v \<longleftrightarrow> frame_of (pde_at s' x) = frame_of e"
      "PDE_IDX y = PDE_IDX v \<longleftrightarrow> frame_of (pde_at s' y) = frame_of e"
      using that fresh [of x] fresh [of y] by (simp_all add: pd split: if_split_asm)
    then show ?thesis using True that(3) by simp
  next
    case False
    then have "present (pde_at s x)" "present (pde_at s y)" "frame_of (pde_at s x) = frame_of (pde_at s y)"
      using that by (simp_all add: pd)
    then show ?thesis using inv unfolding vm_inv_def by blast
  qed
  moreover have "frame_of (pde_at s' x) \<noteq> pool_frame kp' j" if "pool_free kp' j" "present (pde_at s' x)" for j x
  proof (cases "PDE_IDX x = PDE_IDX v")
    case True
    then show ?thesis using ne [OF that(1)] by (simp add: pd fr)
  next
    case False
    then have "present (pde_at s x)" using that(2) by (simp add: pd)
    then have "frame_of (pde_at s x) \<noteq> pool_frame kp j" using free [OF that(1)] inv unfolding vm_inv_def by blast
    then show ?thesis using False by (simp add: pd fr)
  qed
  ultimately show "vm_inv kp' s'" unfolding vm_inv_def using wf by blast
qed

lemma same_page: "(frame_of v = frame_of w) = (PDE_IDX v = PDE_IDX w \<and> PTE_IDX v = PTE_IDX w)"
proof
  assume e: "frame_of v = frame_of w"
  have d: "drop_bit 12 (frame_of x) = drop_bit 12 x" for x
    unfolding frame_of_def paging_masks
    by (rule bit_word_eqI) (auto simp: bit_simps dest: bit_u32_bound)
  have e12: "drop_bit 12 v = drop_bit 12 w" using e d by metis
  have "PDE_IDX x = drop_bit 10 (drop_bit 12 x)" for x by (simp add: PDE_IDX_eq)
  then have "PDE_IDX v = PDE_IDX w" using e12 by metis
  then show "PDE_IDX v = PDE_IDX w \<and> PTE_IDX v = PTE_IDX w" using e12 by (simp add: PTE_IDX_eq)
next
  assume "PDE_IDX v = PDE_IDX w \<and> PTE_IDX v = PTE_IDX w"
  moreover have "frame_of x = push_bit 22 (PDE_IDX x) OR push_bit 12 (PTE_IDX x)" for x
  proof (rule bit_word_eqI)
    fix n assume "n < LENGTH(32)"
    then show "bit (frame_of x) n = bit (push_bit 22 (PDE_IDX x) OR push_bit 12 (PTE_IDX x)) n"
      unfolding frame_of_def PDE_IDX_eq PTE_IDX_eq paging_masks by (cases "n < 22") (auto simp: bit_simps)
  qed
  ultimately show "frame_of v = frame_of w" by simp
qed

text \<open>
  What an update of the address space does: page \<open>v\<close> gets the entry \<open>e\<close>, every other page outside
  the table window keeps its translation.
\<close>

definition remaps :: "addr \<Rightarrow> u32 \<Rightarrow> 'a vmstate_scheme \<Rightarrow> 'a vmstate_scheme \<Rightarrow> bool" where
  "remaps v e s s' = (\<forall>w. PDE_IDX w \<noteq> 1023 \<longrightarrow> translate s' w =
     (if frame_of w = frame_of v then (if present e then Some (frame_of e + (w AND 0xfff)) else None)
      else translate s w))"

lemma remaps_table_entry:
  assumes inv: "vm_inv kp s" and p: "present (pde_at s v)" and l: "PDE_IDX v \<noteq> 1023"
    and s': "s' = s\<lparr>phys := (phys s)(slot (pde_at s v) (PTE_IDX v) := e)\<rparr>"
  shows "remaps v e s s'"
proof -
  note w = write_table_entry [OF inv p l s']
  have "translate s' w = (if frame_of w = frame_of v
      then (if present e then Some (frame_of e + (w AND 0xfff)) else None) else translate s w)" for w
  proof (cases "present (pde_at s w)")
    case True
    then show ?thesis by (simp add: translate_eq w(1) w(2) same_page)
  next
    case False
    then have "PDE_IDX w \<noteq> PDE_IDX v" using p by (auto simp: pde_at_def)
    then show ?thesis using False by (simp add: translate_eq w(1) same_page)
  qed
  then show ?thesis by (simp add: remaps_def)
qed

text \<open>At most one frame of the pool is taken.\<close>

definition took :: "pool \<Rightarrow> pool \<Rightarrow> nat set \<Rightarrow> bool" where
  "took kp kp' X = (phy_addr_start kp' = phy_addr_start kp \<and> bm_cap (pool_bitmap kp') = bm_cap (pool_bitmap kp)
     \<and> X \<subseteq> {i. pool_free kp i} \<and> (\<forall>j. pool_free kp' j = (pool_free kp j \<and> j \<notin> X)))"

lemma took_refl: "took kp kp {}"
  by (simp add: took_def)

lemma took_one:
  assumes "pool_free kp i" and "bm_cap b = bm_cap (pool_bitmap kp)"
    and "\<forall>j. bm_used b j = (j = i \<or> bm_used (pool_bitmap kp) j)"
  shows "took kp (kp\<lparr>pool_bitmap := b\<rparr>) {i}"
  using assms by (auto simp: took_def pool_free_def)

lemma page_table_add_cases:
  assumes inv: "vm_inv kp s" and l: "PDE_IDX v \<noteq> 1023" and un: "translate s v = None"
    and room: "present (pde_at s v) \<or> (\<exists>i. pool_free kp i)"
  shows "\<exists>kp' p. page_table_add v pa kp s = Some (kp', s\<lparr>phys := p\<rparr>) \<and> vm_inv kp' (s\<lparr>phys := p\<rparr>)
     \<and> remaps v (pa OR PG_US_U OR PG_RW_W OR PG_P_1) s (s\<lparr>phys := p\<rparr>) \<and> (\<exists>X. took kp kp' X \<and> card X \<le> 1)"
proof (cases "present (pde_at s v)")
  case True
  let ?e = "pa OR PG_US_U OR PG_RW_W OR PG_P_1"
  have "\<not> present (pte_at s v)" using un True by (auto simp: translate_eq split: if_splits)
  then have "page_table_add v pa kp s = Some (kp, s\<lparr>phys := (phys s)(slot (pde_at s v) (PTE_IDX v) := ?e)\<rparr>)"
    using vm_inv_selfmap [OF inv] True
    by (simp add: page_table_add_def load_pde load_pte store_pte ASSERT_present)
  with write_table_entry(3) [OF inv True l refl] remaps_table_entry [OF inv True l refl] took_refl [of kp]
  show ?thesis by (metis card.empty zero_le_one)
next
  case False
  let ?e = "pa OR PG_US_U OR PG_RW_W OR PG_P_1"
  have wf: "pool_wf kp" using inv by (simp add: vm_inv_def)
  from room False have "\<exists>i. pool_free kp i" by simp
  then obtain i b where pal: "palloc kp = Some (pool_frame kp i, kp\<lparr>pool_bitmap := b\<rparr>)"
    and i: "pool_free kp i" and b: "bm_cap b = bm_cap (pool_bitmap kp)"
      "\<forall>j. bm_used b j = (j = i \<or> bm_used (pool_bitmap kp) j)"
    by (cases rule: palloc_cases [of kp]) auto
  let ?kp = "kp\<lparr>pool_bitmap := b\<rparr>" and ?t = "pool_frame kp i OR PG_US_U OR PG_RW_W OR PG_P_1"
  define s1 where "s1 = s\<lparr>phys := (phys s)(slot (cr3 s) (PDE_IDX v) := ?t)\<rparr>"
  note t = add_table [OF inv False i refl b _ _ s1_def, simplified, OF pool_frame_aligned [OF wf]]
  have st1: "store32 (pde_ptr v) ?t s = Some s1" using store_pde [OF vm_inv_selfmap [OF inv]] by (simp add: s1_def)
  have p1: "present (pde_at s1 v)" using t(1) by simp
  from clear_table [OF t(3) p1 l, of 0 1024] obtain p where
    c: "clear_words 1024 (slot (pte_ptr v) 0) s1 = Some (s1\<lparr>phys := p\<rparr>)"
      "vm_inv ?kp (s1\<lparr>phys := p\<rparr>)" "\<forall>w. pde_at (s1\<lparr>phys := p\<rparr>) w = pde_at s1 w"
      "\<forall>w. present (pde_at s1 w) \<longrightarrow> pte_at (s1\<lparr>phys := p\<rparr>) w =
          (if PDE_IDX w = PDE_IDX v \<and> unat (PTE_IDX w) < 1024 then 0 else pte_at s1 w)"
    by auto
  define s2 where "s2 = s1\<lparr>phys := p\<rparr>"
  have u: "unat (PTE_IDX w) < 1024" for w
  proof -
    have "PTE_IDX w = take_bit 10 (drop_bit 12 w)" by (simp add: PTE_IDX_eq take_bit_eq_mask)
    then have "unat (PTE_IDX w) = take_bit 10 (unat (drop_bit 12 w))" by (simp add: unsigned_take_bit_eq)
    then show ?thesis using take_bit_nat_less_exp [of 10] by simp
  qed
  have pd2: "pde_at s2 w = pde_at s1 w" for w using c(3) by (simp add: s2_def)
  have pt2: "pte_at s2 w = (if PDE_IDX w = PDE_IDX v then 0 else pte_at s1 w)" if "present (pde_at s1 w)" for w
    using c(4) that u by (simp add: s2_def)
  have p2: "present (pde_at s2 v)" using p1 pd2 by simp
  have inv2: "vm_inv ?kp s2" using c(2) by (simp add: s2_def)
  define s3 where "s3 = s2\<lparr>phys := (phys s2)(slot (pde_at s2 v) (PTE_IDX v) := ?e)\<rparr>"
  have base: "pte_ptr v AND 0xfffff000 = slot (pte_ptr v) 0" by (simp add: slot_def frame_of_def)
  have "page_table_add v pa kp s = Some (?kp, s3)"
    using vm_inv_selfmap [OF inv] vm_inv_selfmap [OF inv2] False st1 c(1) p2 pt2 [OF p1]
    unfolding page_table_add_def base
    by (simp add: load_pde load_pte store_pte ASSERT_present pal PG_SIZE_def s2_def [symmetric] s3_def)
  moreover have "s3 = s\<lparr>phys := phys s3\<rparr>" by (simp add: s3_def s2_def s1_def)
  moreover have "vm_inv ?kp s3" using write_table_entry(3) [OF inv2 p2 l s3_def] .
  moreover have "remaps v ?e s s3"
  proof -
    have "translate s2 w = translate s w" if "PDE_IDX w \<noteq> 1023" for w
    proof (cases "PDE_IDX w = PDE_IDX v")
      case True
      then have "pde_at s w = pde_at s v" by (simp add: pde_at_def)
      then show ?thesis using False True p1 pt2 t(1) unfolding translate_eq pd2 by simp
    next
      case False
      then have pd: "pde_at s1 w = pde_at s w" by (simp add: t(1))
      show ?thesis
      proof (cases "present (pde_at s w)")
        case True
        then show ?thesis using False pd t(2) [OF that False True] pt2 [of w] by (simp add: translate_eq pd2)
      qed (simp add: translate_eq pd2 pd)
    qed
    then show ?thesis using remaps_table_entry [OF inv2 p2 l s3_def] unfolding remaps_def by simp
  qed
  moreover have "took kp ?kp {i}" by (rule took_one [OF i b])
  ultimately show ?thesis by (metis card.empty card_insert_le_m1 diff_Suc_1 le_refl is_singletonI is_singleton_altdef)
qed

lemma remaps_app: "remaps v e s s' \<Longrightarrow> PDE_IDX w \<noteq> 1023 \<Longrightarrow> translate s' w =
     (if frame_of w = frame_of v then (if present e then Some (frame_of e + (w AND 0xfff)) else None)
      else translate s w)"
  by (simp add: remaps_def)

lemma add_present_panics:
  assumes "selfmap s" and "translate s v = Some pa"
  shows "page_table_add v pb kp s = None"
  using assms
  by (auto simp: page_table_add_def load_pde load_pte ASSERT_present translate_eq split: if_splits)

lemma v2p_translate:
  assumes "selfmap s" and "translate s v = Some pa"
  shows "addr_v2p v s = Some pa"
  using assms by (auto simp: addr_v2p_def load_pte translate_eq frame_of_def split: if_splits)

lemma pte_remove_remaps:
  assumes inv: "vm_inv kp s" and l: "PDE_IDX v \<noteq> 1023" and m: "translate s v = Some pa"
  shows "\<exists>p. page_table_pte_remove v s = Some (s\<lparr>phys := p\<rparr>) \<and> vm_inv kp (s\<lparr>phys := p\<rparr>)
     \<and> remaps v 0 s (s\<lparr>phys := p\<rparr>)"
proof -
  let ?e = "pte_at s v AND NOT PG_P_1"
  have p: "present (pde_at s v)" using m by (auto simp: translate_eq split: if_splits)
  have r: "page_table_pte_remove v s = Some (s\<lparr>phys := (phys s)(slot (pde_at s v) (PTE_IDX v) := ?e)\<rparr>)"
    using vm_inv_selfmap [OF inv] p by (simp add: page_table_pte_remove_def load_pte store_pte)
  have "remaps v 0 s (s\<lparr>phys := (phys s)(slot (pde_at s v) (PTE_IDX v) := ?e)\<rparr>)"
    using remaps_table_entry [OF inv p l refl, of ?e] by (simp add: remaps_def)
  with r write_table_entry(3) [OF inv p l refl] show ?thesis by blast
qed

section \<open>A concrete address space for the witnesses\<close>

definition demo_vm :: vmstate where
  "demo_vm = \<lparr>eflags = 0, lprev = (\<lambda>_. 0), lnext = (\<lambda>_. 0),
     phys = (\<lambda>a. if a = slot 0x100000 1023 then 0x100007 else 0), cr3 = 0x100000\<rparr>"

definition demo_pool :: pool where
  "demo_pool = \<lparr>pool_bitmap = \<lparr>btmp_bytes_len = 1, bits = (\<lambda>_. 0)\<rparr>, phy_addr_start = 0x200000,
     pool_size = 0x8000\<rparr>"

lemma demo_pool_free: "pool_free demo_pool i = (i < 8)"
  by (simp add: pool_free_def demo_pool_def bm_cap_def bm_used_def)

lemma demo_pde: "pde_at demo_vm v = (if PDE_IDX v = 1023 then 0x100007 else 0)"
proof -
  have "(1023 :: u32) AND mask 10 = 1023" by (simp add: mask_eq_exp_minus_1)
  then show ?thesis by (simp add: pde_at_def demo_vm_def slot_inj)
qed

lemma demo_vm_inv: "vm_inv demo_pool demo_vm"
proof -
  have "pool_wf demo_pool" by (simp add: pool_wf_def demo_pool_def bm_cap_def PG_SIZE_def)
  moreover have "selfmap demo_vm"
    unfolding selfmap_pde by (simp add: demo_pde present_def PG_P_1_def frame_of_def) (simp add: demo_vm_def)
  moreover have "frame_of 0x100007 \<noteq> pool_frame demo_pool i" if "i < 8" for i
  proof -
    have "i < bm_cap (pool_bitmap demo_pool)" using that by (simp add: demo_pool_def bm_cap_def)
    then have "unat (pool_frame demo_pool i) \<ge> 0x200000"
      using pool_frame_unat [OF \<open>pool_wf demo_pool\<close>] by (simp add: demo_pool_def)
    moreover have "unat (frame_of 0x100007) = 0x100000" by (simp add: frame_of_def)
    ultimately show ?thesis by auto
  qed
  ultimately show ?thesis by (auto simp: vm_inv_def demo_pool_free demo_pde split: if_splits)
qed

section \<open>Properties\<close>





text \<open>
  \<^verbatim>\<open>palloc\<close> returns the lowest free frame of the pool - never frame 0 and never a frame that is
  in use - and marks that frame and no other; it returns \<^verbatim>\<open>NULL\<close> exactly when the pool is full.
\<close>

theorem palloc_correct:
  assumes "pool_wf kp"
  shows "\<exists>f kp'. palloc kp = Some (f, kp') \<and> pool_wf kp' \<and>
    (if \<exists>i. pool_free kp i
     then f \<noteq> NULL \<and> (\<exists>i. f = pool_frame kp i \<and> pool_free kp i \<and> (\<forall>j<i. \<not> pool_free kp j)
       \<and> (\<forall>j. pool_free kp' j = (pool_free kp j \<and> j \<noteq> i)))
     else f = NULL \<and> kp' = kp)"
proof (cases rule: palloc_cases [of kp])
  case full
  then show ?thesis using assms by simp
next
  case (frame i b)
  have "pool_frame kp i \<noteq> NULL" using frame(2) assms pool_frame_nonzero by (simp add: pool_free_def)
  moreover have "pool_wf (kp\<lparr>pool_bitmap := b\<rparr>)" using assms frame(3) by (simp add: pool_wf_def)
  moreover have "\<forall>j. pool_free (kp\<lparr>pool_bitmap := b\<rparr>) j = (pool_free kp j \<and> j \<noteq> i)"
    using frame(3,4) by (auto simp: pool_free_def)
  ultimately show ?thesis using frame(1,2,5) by auto
qed

theorem palloc_correct_witness:
  "pool_wf demo_pool \<and> (\<exists>f kp'. palloc demo_pool = Some (f, kp') \<and> f \<noteq> NULL)"
proof -
  have w: "pool_wf demo_pool" using demo_vm_inv by (simp add: vm_inv_def)
  show ?thesis using palloc_correct [OF w] demo_pool_free [of 0] w by (auto split: if_splits)
qed

end
