(* ===== verification/Thread.thy ===== *)
theory Thread
  imports Paging
begin

unbundle bit_operations_syntax

text \<open>
  Tasks and the scheduler: \<^verbatim>\<open>thread/thread.h\<close>, the scheduling half of \<^verbatim>\<open>thread/thread.c\<close>,
  \<^verbatim>\<open>thread/switch.S\<close>, the activation half of \<^verbatim>\<open>userprog/process.c\<close> and the clock handler of
  \<^verbatim>\<open>device/timer.c\<close>.

  A task control block is one page; its tags are list nodes at fixed offsets in it, and the running
  task is the page of the stack pointer. A context switch changes the stack pointer, so the code
  after a call of \<^verbatim>\<open>schedule\<close> runs when the suspended task is switched to again. That code is the
  task's saved continuation: \<open>konts\<close> holds, per task, the return points on its kernel stack,
  innermost first. An operation that calls \<^verbatim>\<open>schedule\<close> first pushes its return point; the
  theory \<open>Sync\<close> runs the return points.
\<close>

section \<open>The data\<close>

datatype task_status = TASK_RUNNING | TASK_READY | TASK_BLOCKED | TASK_WAITING | TASK_HANGING | TASK_DIED

record virtual_addr =
  vaddr_bitmap :: bitmap
  vaddr_start :: u32

record task_struct =
  self_kstack :: addr
  pid :: u16
  status :: task_status
  tname :: "u8 list"
  priority :: u8
  ticks :: u8
  elapsed_ticks :: u32
  fd_table :: "int list"
  pgdir :: addr
  userprog_vaddr :: virtual_addr
  cwd_inode_nr :: u32
  parent_pid :: u32
  exit_status :: u8
  stack_magic :: u32

text \<open>Return points of kernel code that a context switch can suspend.\<close>

datatype frame =
    Block_ret intr_status            \<comment> \<open>in \<open>thread_block\<close>, after \<open>schedule()\<close>\<close>
  | Yield_ret intr_status            \<comment> \<open>in \<open>thread_yield\<close>, after \<open>schedule()\<close>\<close>
  | Timer_ret                        \<comment> \<open>in \<open>intr_timer_handler\<close>, after \<open>schedule()\<close>\<close>
  | Iret u32                         \<comment> \<open>\<open>intr_exit\<close>: back to the interrupted code and its flags\<close>
  | Start addr addr                  \<comment> \<open>\<open>kernel_thread(function, func_arg)\<close> of a new thread\<close>
  | Down_loop addr intr_status       \<comment> \<open>at the \<open>while\<close> test of \<open>sema_down\<close>\<close>
  | Acquire_holder addr              \<comment> \<open>in \<open>lock_acquire\<close>, after \<open>sema_down\<close>\<close>
  | Acquire_repeat addr              \<comment> \<open>then at the assertion on \<open>holder_repeat_nr\<close>\<close>
  | Release_holder addr              \<comment> \<open>in \<open>lock_release\<close>, at \<open>holder = NULL\<close>\<close>
  | Release_repeat addr              \<comment> \<open>then at \<open>holder_repeat_nr = 0\<close>\<close>
  | Release_up addr                  \<comment> \<open>then at the call of \<open>sema_up\<close>\<close>

record kstate = vmstate +
  esp :: u32
  task :: "addr \<Rightarrow> task_struct"
  konts :: "addr \<Rightarrow> frame list"
  main_thread :: addr
  idle_thread :: addr
  thread_ready_list :: addr
  thread_all_list :: addr
  tss_seg :: tss
  ticks_total :: u32
  sem_value :: "addr \<Rightarrow> u8"
  lock_owner :: "addr \<Rightarrow> addr"
  holder_repeat_nr :: "addr \<Rightarrow> u32"

text \<open>Offsets of the tags in \<^verbatim>\<open>struct task_struct\<close> (32-bit layout) and \<^verbatim>\<open>elem2entry\<close>.\<close>

definition general_tag :: "addr \<Rightarrow> addr" where "general_tag t = t + 68"
definition all_list_tag :: "addr \<Rightarrow> addr" where "all_list_tag t = t + 76"
definition general_tag_entry :: "addr \<Rightarrow> addr" where "general_tag_entry e = e - 68"
definition all_list_tag_entry :: "addr \<Rightarrow> addr" where "all_list_tag_entry e = e - 76"

definition upd_task :: "addr \<Rightarrow> (task_struct \<Rightarrow> task_struct) \<Rightarrow> 'a kstate_scheme \<Rightarrow> 'a kstate_scheme" where
  "upd_task t f s = s\<lparr>task := (task s)(t := f (task s t))\<rparr>"

definition push_kont :: "addr \<Rightarrow> frame \<Rightarrow> 'a kstate_scheme \<Rightarrow> 'a kstate_scheme" where
  "push_kont t f s = s\<lparr>konts := (konts s)(t := f # konts s t)\<rparr>"

section \<open>The scheduler\<close>

definition running_thread :: "'a kstate_scheme \<Rightarrow> addr" where
  "running_thread s = esp s AND 0xfffff000"

definition page_dir_activate :: "addr \<Rightarrow> 'a kstate_scheme \<Rightarrow> 'a kstate_scheme option" where
  "page_dir_activate p_thread s = do {
     pagedir_phy_addr \<leftarrow> (if pgdir (task s p_thread) \<noteq> NULL then addr_v2p (pgdir (task s p_thread)) s
                          else Some 0x100000);
     Some (s\<lparr>cr3 := pagedir_phy_addr\<rparr>)
   }"

definition process_activate :: "addr \<Rightarrow> 'a kstate_scheme \<Rightarrow> 'a kstate_scheme option" where
  "process_activate p_thread s = do {
     ASSERT (p_thread \<noteq> NULL);
     s \<leftarrow> page_dir_activate p_thread s;
     Some (if pgdir (task s p_thread) \<noteq> NULL then s\<lparr>tss_seg := update_tss_esp p_thread (tss_seg s)\<rparr> else s)
   }"

text \<open>
  \<^verbatim>\<open>switch_to\<close> as in \<^verbatim>\<open>switch.S\<close>: four registers are pushed, the stack pointer is exchanged, four
  registers and the return address are popped.
\<close>

definition switch_to :: "addr \<Rightarrow> addr \<Rightarrow> 'a kstate_scheme \<Rightarrow> 'a kstate_scheme" where
  "switch_to cur next s =
     (let s = s\<lparr>esp := esp s - 16\<rparr>;
          s = upd_task cur (\<lambda>t. t\<lparr>self_kstack := esp s\<rparr>) s;
          s = s\<lparr>esp := self_kstack (task s next)\<rparr>
      in s\<lparr>esp := esp s + 16 + 4\<rparr>)"

definition thread_unblock :: "addr \<Rightarrow> 'a kstate_scheme \<Rightarrow> 'a kstate_scheme option" where
  "thread_unblock pthread s = do {
     ASSERT (status (task s pthread) = TASK_BLOCKED \<or> status (task s pthread) = TASK_WAITING
             \<or> status (task s pthread) = TASK_HANGING);
     let (old_status, s) = intr_disable s;
     s \<leftarrow> (if status (task s pthread) \<noteq> TASK_READY then do {
             found \<leftarrow> elem_find (thread_ready_list s) (general_tag pthread) s;
             ASSERT (\<not> found);
             let s = list_push (thread_ready_list s) (general_tag pthread) s;
             Some (upd_task pthread (\<lambda>t. t\<lparr>status := TASK_READY\<rparr>) s)
           } else Some s);
     Some (snd (intr_set_status old_status s))
   }"

text \<open>
  The call of \<^verbatim>\<open>switch_to\<close> pushes its two arguments and the return address; the caller's clean-up
  of the arguments, \<open>sched_return\<close>, belongs to the return point.
\<close>

definition schedule :: "'a kstate_scheme \<Rightarrow> 'a kstate_scheme option" where
  "schedule s = do {
     ASSERT (intr_get_status s = INTR_OFF);
     let cur = running_thread s;
     s \<leftarrow> (if status (task s cur) = TASK_RUNNING then do {
             found \<leftarrow> elem_find (thread_ready_list s) (general_tag cur) s;
             ASSERT (\<not> found);
             let s = list_append (thread_ready_list s) (general_tag cur) s;
             Some (upd_task cur (\<lambda>t. t\<lparr>ticks := priority t, status := TASK_READY\<rparr>) s)
           } else Some s);
     s \<leftarrow> (if list_empty (thread_ready_list s) s then thread_unblock (idle_thread s) s else Some s);
     let (thread_tag, s) = list_pop (thread_ready_list s) s;
     let next = general_tag_entry thread_tag;
     let s = upd_task next (\<lambda>t. t\<lparr>status := TASK_RUNNING\<rparr>) s;
     s \<leftarrow> process_activate next s;
     Some (switch_to cur next (s\<lparr>esp := esp s - 12\<rparr>))
   }"

definition sched_return :: "'a kstate_scheme \<Rightarrow> 'a kstate_scheme" where
  "sched_return s = s\<lparr>esp := esp s + 8\<rparr>"

definition thread_block :: "task_status \<Rightarrow> 'a kstate_scheme \<Rightarrow> 'a kstate_scheme option" where
  "thread_block stat s = do {
     ASSERT (stat = TASK_BLOCKED \<or> stat = TASK_WAITING \<or> stat = TASK_HANGING);
     let (old_status, s) = intr_disable s;
     let cur_thread = running_thread s;
     let s = upd_task cur_thread (\<lambda>t. t\<lparr>status := stat\<rparr>) s;
     schedule (push_kont cur_thread (Block_ret old_status) s)
   }"

definition thread_yield :: "'a kstate_scheme \<Rightarrow> 'a kstate_scheme option" where
  "thread_yield s = do {
     let cur = running_thread s;
     let (old_status, s) = intr_disable s;
     found \<leftarrow> elem_find (thread_ready_list s) (general_tag cur) s;
     ASSERT (\<not> found);
     let s = list_append (thread_ready_list s) (general_tag cur) s;
     let s = upd_task cur (\<lambda>t. t\<lparr>status := TASK_READY\<rparr>) s;
     schedule (push_kont cur (Yield_ret old_status) s)
   }"

text \<open>The clock handler; \<open>timer_interrupt\<close> adds what the gate and \<^verbatim>\<open>intr_exit\<close> do around it.\<close>

definition intr_timer_handler :: "'a kstate_scheme \<Rightarrow> 'a kstate_scheme option" where
  "intr_timer_handler s = do {
     let cur_thread = running_thread s;
     ASSERT (stack_magic (task s cur_thread) = 0x20021225);
     let s = upd_task cur_thread (\<lambda>t. t\<lparr>elapsed_ticks := elapsed_ticks t + 1\<rparr>) s;
     let s = s\<lparr>ticks_total := ticks_total s + 1\<rparr>;
     if ticks (task s cur_thread) = 0 then schedule (push_kont cur_thread Timer_ret s)
     else Some (upd_task cur_thread (\<lambda>t. t\<lparr>ticks := ticks t - 1\<rparr>) s)
   }"

definition timer_interrupt :: "'a kstate_scheme \<Rightarrow> 'a kstate_scheme option" where
  "timer_interrupt s =
     intr_timer_handler (push_kont (running_thread s) (Iret (eflags s)) (s\<lparr>eflags := eflags s AND NOT EFLAGS_IF\<rparr>))"

text \<open>\<^verbatim>\<open>pid2thread\<close>: the first task on the list of all tasks with this pid.\<close>

definition pid_check :: "addr \<Rightarrow> int \<Rightarrow> 'a kstate_scheme \<Rightarrow> (bool \<times> 'a kstate_scheme) option" where
  "pid_check pelem p s = Some (uint (pid (task s (all_list_tag_entry pelem))) = p, s)"

definition pid2thread :: "int \<Rightarrow> 'a kstate_scheme \<Rightarrow> addr option" where
  "pid2thread p s = do {
     (pelem, s) \<leftarrow> list_traversal (thread_all_list s) pid_check p s;
     Some (if pelem = NULL then NULL else all_list_tag_entry pelem)
   }"

section \<open>Frames\<close>

lemma list_append_upd:
  "list_append l e s = s\<lparr>lnext := lnext (list_append l e s), lprev := lprev (list_append l e s)\<rparr>"
  by (simp add: list_append_def list_insert_before_eq)

lemma list_push_upd:
  "list_push l e s = s\<lparr>lnext := lnext (list_push l e s), lprev := lprev (list_push l e s)\<rparr>"
  by (simp add: list_push_def list_insert_before_eq)

lemma list_remove_upd:
  "list_remove e s = s\<lparr>lnext := lnext (list_remove e s), lprev := lprev (list_remove e s)\<rparr>"
  by (simp add: list_remove_eq Let_def)

lemma list_pop_upd:
  "snd (list_pop l s) = s\<lparr>lnext := lnext (snd (list_pop l s)), lprev := lprev (snd (list_pop l s))\<rparr>"
  by (simp add: list_pop_def list_remove_eq Let_def)

lemma dlist_links: "lnext t = lnext s \<Longrightarrow> lprev t = lprev s \<Longrightarrow> dlist t l xs = dlist s l xs"
  by (simp add: dlist_def)

lemma list_append_fields [simp]:
  "eflags (list_append l e s) = eflags s" "phys (list_append l e s) = phys s" "cr3 (list_append l e s) = cr3 s"
  "esp (list_append l e s) = esp s" "task (list_append l e s) = task s" "konts (list_append l e s) = konts s"
  "main_thread (list_append l e s) = main_thread s" "idle_thread (list_append l e s) = idle_thread s" "thread_ready_list (list_append l e s) = thread_ready_list s"
  "thread_all_list (list_append l e s) = thread_all_list s" "tss_seg (list_append l e s) = tss_seg s" "ticks_total (list_append l e s) = ticks_total s"
  "sem_value (list_append l e s) = sem_value s" "lock_owner (list_append l e s) = lock_owner s" "holder_repeat_nr (list_append l e s) = holder_repeat_nr s"
  by (simp_all add: list_append_def list_push_def list_pop_def list_insert_before_eq list_remove_eq
      list_init_def Let_def)

lemma list_push_fields [simp]:
  "eflags (list_push l e s) = eflags s" "phys (list_push l e s) = phys s" "cr3 (list_push l e s) = cr3 s"
  "esp (list_push l e s) = esp s" "task (list_push l e s) = task s" "konts (list_push l e s) = konts s"
  "main_thread (list_push l e s) = main_thread s" "idle_thread (list_push l e s) = idle_thread s" "thread_ready_list (list_push l e s) = thread_ready_list s"
  "thread_all_list (list_push l e s) = thread_all_list s" "tss_seg (list_push l e s) = tss_seg s" "ticks_total (list_push l e s) = ticks_total s"
  "sem_value (list_push l e s) = sem_value s" "lock_owner (list_push l e s) = lock_owner s" "holder_repeat_nr (list_push l e s) = holder_repeat_nr s"
  by (simp_all add: list_append_def list_push_def list_pop_def list_insert_before_eq list_remove_eq
      list_init_def Let_def)

lemma list_remove_fields [simp]:
  "eflags (list_remove e s) = eflags s" "phys (list_remove e s) = phys s" "cr3 (list_remove e s) = cr3 s"
  "esp (list_remove e s) = esp s" "task (list_remove e s) = task s" "konts (list_remove e s) = konts s"
  "main_thread (list_remove e s) = main_thread s" "idle_thread (list_remove e s) = idle_thread s" "thread_ready_list (list_remove e s) = thread_ready_list s"
  "thread_all_list (list_remove e s) = thread_all_list s" "tss_seg (list_remove e s) = tss_seg s" "ticks_total (list_remove e s) = ticks_total s"
  "sem_value (list_remove e s) = sem_value s" "lock_owner (list_remove e s) = lock_owner s" "holder_repeat_nr (list_remove e s) = holder_repeat_nr s"
  by (simp_all add: list_append_def list_push_def list_pop_def list_insert_before_eq list_remove_eq
      list_init_def Let_def)

lemma list_pop_fields [simp]:
  "eflags (snd (list_pop l s)) = eflags s" "phys (snd (list_pop l s)) = phys s" "cr3 (snd (list_pop l s)) = cr3 s"
  "esp (snd (list_pop l s)) = esp s" "task (snd (list_pop l s)) = task s" "konts (snd (list_pop l s)) = konts s"
  "main_thread (snd (list_pop l s)) = main_thread s" "idle_thread (snd (list_pop l s)) = idle_thread s" "thread_ready_list (snd (list_pop l s)) = thread_ready_list s"
  "thread_all_list (snd (list_pop l s)) = thread_all_list s" "tss_seg (snd (list_pop l s)) = tss_seg s" "ticks_total (snd (list_pop l s)) = ticks_total s"
  "sem_value (snd (list_pop l s)) = sem_value s" "lock_owner (snd (list_pop l s)) = lock_owner s" "holder_repeat_nr (snd (list_pop l s)) = holder_repeat_nr s"
  by (simp_all add: list_append_def list_push_def list_pop_def list_insert_before_eq list_remove_eq
      list_init_def Let_def)

lemma list_init_fields [simp]:
  "eflags (list_init l s) = eflags s" "phys (list_init l s) = phys s" "cr3 (list_init l s) = cr3 s"
  "esp (list_init l s) = esp s" "task (list_init l s) = task s" "konts (list_init l s) = konts s"
  "main_thread (list_init l s) = main_thread s" "idle_thread (list_init l s) = idle_thread s" "thread_ready_list (list_init l s) = thread_ready_list s"
  "thread_all_list (list_init l s) = thread_all_list s" "tss_seg (list_init l s) = tss_seg s" "ticks_total (list_init l s) = ticks_total s"
  "sem_value (list_init l s) = sem_value s" "lock_owner (list_init l s) = lock_owner s" "holder_repeat_nr (list_init l s) = holder_repeat_nr s"
  by (simp_all add: list_append_def list_push_def list_pop_def list_insert_before_eq list_remove_eq
      list_init_def Let_def)

section \<open>Queues of tasks\<close>

text \<open>
  \<open>task_queues s T A W\<close>: the lists at the addresses \<open>A\<close> are well-formed, disjoint queues of tasks
  of \<open>T\<close>, linked through their general tags; \<open>W l\<close> is the queue at \<open>l\<close>.
\<close>

definition task_queues ::
    "'a lheap_scheme \<Rightarrow> addr set \<Rightarrow> addr set \<Rightarrow> (addr \<Rightarrow> addr list) \<Rightarrow> bool" where
  "task_queues s T A W =
     ((\<forall>l\<in>A. dlist s l (map general_tag (W l)) \<and> set (W l) \<subseteq> T)
      \<and> (\<forall>l\<in>A. \<forall>l'\<in>A. l \<noteq> l' \<longrightarrow> {l, list_tail l} \<inter> {l', list_tail l'} = {} \<and> set (W l) \<inter> set (W l') = {})
      \<and> (\<forall>t\<in>T. \<forall>l\<in>A. general_tag t \<noteq> l \<and> general_tag t \<noteq> list_tail l))"

lemma general_tag_inj [simp]: "(general_tag t = general_tag u) = (t = u)"
  by (simp add: general_tag_def)

lemma general_tag_entry [simp]: "general_tag_entry (general_tag t) = t"
  by (simp add: general_tag_entry_def general_tag_def)

lemma all_list_tag_entry [simp]: "all_list_tag_entry (all_list_tag t) = t"
  by (simp add: all_list_tag_entry_def all_list_tag_def)

lemma general_tag_set [simp]: "(general_tag t \<in> general_tag ` X) = (t \<in> X)"
  by auto

lemma tq_dlist: "task_queues s T A W \<Longrightarrow> l \<in> A \<Longrightarrow> dlist s l (map general_tag (W l))"
  by (simp add: task_queues_def)

lemma tq_sub: "task_queues s T A W \<Longrightarrow> l \<in> A \<Longrightarrow> set (W l) \<subseteq> T"
  by (simp add: task_queues_def)

lemma tq_sep: "task_queues s T A W \<Longrightarrow> l \<in> A \<Longrightarrow> l' \<in> A \<Longrightarrow> l \<noteq> l' \<Longrightarrow> set (W l) \<inter> set (W l') = {}"
  by (simp add: task_queues_def)

lemma tq_tag_nodes:
  assumes "task_queues s T A W" and "l \<in> A" and "t \<in> T"
  shows "(general_tag t \<in> lnodes l (map general_tag (W l))) = (t \<in> set (W l))"
  using assms by (auto simp: lnodes_def task_queues_def)

lemma tq_disjoint:
  assumes "task_queues s T A W" and "l \<in> A" and "l' \<in> A" and "l \<noteq> l'"
  shows "lnodes l (map general_tag (W l)) \<inter> lnodes l' (map general_tag (W l')) = {}"
proof -
  have "{l, list_tail l} \<inter> {l', list_tail l'} = {}" "set (W l) \<inter> set (W l') = {}"
    "\<forall>t\<in>set (W l) \<union> set (W l'). general_tag t \<notin> {l, list_tail l, l', list_tail l'}"
    using assms unfolding task_queues_def by blast+
  then show ?thesis unfolding lnodes_def by auto
qed

lemma tq_cong: "task_queues s T A W \<Longrightarrow> lnext t = lnext s \<Longrightarrow> lprev t = lprev s \<Longrightarrow> task_queues t T A W"
  using dlist_links [of t s] by (simp add: task_queues_def)

lemma tq_find: "task_queues s T A W \<Longrightarrow> l \<in> A \<Longrightarrow> elem_find l (general_tag t) s = Some (t \<in> set (W l))"
  by (simp add: kl.rep_find [OF tq_dlist])

lemma tq_empty: "task_queues s T A W \<Longrightarrow> l \<in> A \<Longrightarrow> list_empty l s = (W l = [])"
  using kl.rep_empty [OF tq_dlist] by simp

text \<open>Changing one queue, when the other lists keep theirs.\<close>

lemma tq_update:
  assumes q: "task_queues s T A W" and l: "l \<in> A" and d: "dlist s' l (map general_tag ts)"
    and fr: "\<And>l'. l' \<in> A \<Longrightarrow> l' \<noteq> l \<Longrightarrow> dlist s' l' (map general_tag (W l'))"
    and ts: "set ts \<subseteq> T" and new: "\<And>l'. l' \<in> A \<Longrightarrow> l' \<noteq> l \<Longrightarrow> set ts \<inter> set (W l') = {}"
  shows "task_queues s' T A (W(l := ts))"
proof -
  have "\<forall>k\<in>A. dlist s' k (map general_tag ((W(l := ts)) k)) \<and> set ((W(l := ts)) k) \<subseteq> T"
    using q d fr ts by (auto simp: task_queues_def)
  moreover have "set ((W(l := ts)) k) \<inter> set ((W(l := ts)) k') = {}" if "k \<in> A" "k' \<in> A" "k \<noteq> k'" for k k'
  proof (cases "k = l \<or> k' = l")
    case True
    then show ?thesis using that new by auto
  next
    case False
    then show ?thesis using tq_sep [OF q that] by simp
  qed
  moreover have "\<forall>k\<in>A. \<forall>k'\<in>A. k \<noteq> k' \<longrightarrow> {k, list_tail k} \<inter> {k', list_tail k'} = {}"
    "\<forall>t\<in>T. \<forall>k\<in>A. general_tag t \<noteq> k \<and> general_tag t \<noteq> list_tail k"
    using q by (simp_all add: task_queues_def)
  ultimately show ?thesis unfolding task_queues_def by (intro conjI ballI impI) simp_all
qed

lemma tq_append:
  assumes q: "task_queues s T A W" and l: "l \<in> A" and t: "t \<in> T" and free: "\<And>k. k \<in> A \<Longrightarrow> t \<notin> set (W k)"
  shows "task_queues (list_append l (general_tag t) s) T A (W(l := W l @ [t]))"
proof (rule tq_update [OF q l])
  have n: "general_tag t \<notin> lnodes k (map general_tag (W k))" if "k \<in> A" for k
    using tq_tag_nodes [OF q that t] free [OF that] by simp
  show "dlist (list_append l (general_tag t) s) l (map general_tag (W l @ [t]))"
    using kl.rep_append [OF tq_dlist [OF q l] n [OF l]] by simp
  show "dlist (list_append l (general_tag t) s) k (map general_tag (W k))" if "k \<in> A" "k \<noteq> l" for k
    using kl.frame_append [OF tq_dlist [OF q l] tq_dlist [OF q that(1)] _ n [OF that(1)]]
      tq_disjoint [OF q l that(1)] that(2) by simp
  show "set (W l @ [t]) \<subseteq> T" using q l t by (simp add: task_queues_def)
  show "set (W l @ [t]) \<inter> set (W k) = {}" if "k \<in> A" "k \<noteq> l" for k
    using tq_sep [OF q l that(1)] that free [OF that(1)] by auto
qed

lemma tq_push:
  assumes q: "task_queues s T A W" and l: "l \<in> A" and t: "t \<in> T" and free: "\<And>k. k \<in> A \<Longrightarrow> t \<notin> set (W k)"
  shows "task_queues (list_push l (general_tag t) s) T A (W(l := t # W l))"
proof (rule tq_update [OF q l])
  have n: "general_tag t \<notin> lnodes k (map general_tag (W k))" if "k \<in> A" for k
    using tq_tag_nodes [OF q that t] free [OF that] by simp
  show "dlist (list_push l (general_tag t) s) l (map general_tag (t # W l))"
    using kl.rep_push [OF tq_dlist [OF q l] n [OF l]] by simp
  show "dlist (list_push l (general_tag t) s) k (map general_tag (W k))" if "k \<in> A" "k \<noteq> l" for k
    using kl.frame_push [OF tq_dlist [OF q l] tq_dlist [OF q that(1)] _ n [OF that(1)]]
      tq_disjoint [OF q l that(1)] that(2) by simp
  show "set (t # W l) \<subseteq> T" using q l t by (simp add: task_queues_def)
  show "set (t # W l) \<inter> set (W k) = {}" if "k \<in> A" "k \<noteq> l" for k
    using tq_sep [OF q l that(1)] that free [OF that(1)] by auto
qed

lemma tq_pop:
  assumes q: "task_queues s T A W" and l: "l \<in> A" and w: "W l = t # ts"
  shows "fst (list_pop l s) = general_tag t"
    and "task_queues (snd (list_pop l s)) T A (W(l := ts))"
    and "k \<in> A \<Longrightarrow> t \<notin> set ((W(l := ts)) k)"
proof -
  have d: "dlist s l (general_tag t # map general_tag ts)" using tq_dlist [OF q l] w by simp
  show "fst (list_pop l s) = general_tag t" using kl.rep_pop [OF d] by simp
  show "task_queues (snd (list_pop l s)) T A (W(l := ts))"
  proof (rule tq_update [OF q l])
    show "dlist (snd (list_pop l s)) l (map general_tag ts)" using kl.rep_pop [OF d] by simp
    show "dlist (snd (list_pop l s)) k (map general_tag (W k))" if "k \<in> A" "k \<noteq> l" for k
      using kl.frame_pop [OF d tq_dlist [OF q that(1)]] tq_disjoint [OF q l that(1)] that(2) w by simp
    show "set ts \<subseteq> T" using tq_sub [OF q l] w by auto
    show "set ts \<inter> set (W k) = {}" if "k \<in> A" "k \<noteq> l" for k
      using tq_sep [OF q l that(1)] that(2) w by auto
  qed
  have "distinct (map general_tag (W l))" using kl.rep_distinct [OF tq_dlist [OF q l]] .
  then have "t \<notin> set ts" by (auto simp: w)
  moreover have "t \<notin> set (W k)" if "k \<in> A" "k \<noteq> l" for k
    using tq_sep [OF q l that(1)] that(2) w by auto
  ultimately show "k \<in> A \<Longrightarrow> t \<notin> set ((W(l := ts)) k)" by simp
qed

section \<open>What the scheduler does\<close>

text \<open>The part of the state that scheduling never touches.\<close>

definition sync_eq :: "'a kstate_scheme \<Rightarrow> 'a kstate_scheme \<Rightarrow> bool" where
  "sync_eq s s' = (sem_value s' = sem_value s \<and> lock_owner s' = lock_owner s
     \<and> holder_repeat_nr s' = holder_repeat_nr s \<and> konts s' = konts s \<and> main_thread s' = main_thread s
     \<and> idle_thread s' = idle_thread s \<and> thread_ready_list s' = thread_ready_list s
     \<and> thread_all_list s' = thread_all_list s \<and> eflags s' = eflags s \<and> phys s' = phys s)"

lemma upd_task_fields [simp]:
  "task (upd_task t f s) = (task s)(t := f (task s t))" "esp (upd_task t f s) = esp s"
  "konts (upd_task t f s) = konts s" "eflags (upd_task t f s) = eflags s" "phys (upd_task t f s) = phys s"
  "cr3 (upd_task t f s) = cr3 s" "lnext (upd_task t f s) = lnext s" "lprev (upd_task t f s) = lprev s"
  "main_thread (upd_task t f s) = main_thread s" "idle_thread (upd_task t f s) = idle_thread s"
  "thread_ready_list (upd_task t f s) = thread_ready_list s"
  "thread_all_list (upd_task t f s) = thread_all_list s" "sem_value (upd_task t f s) = sem_value s"
  "lock_owner (upd_task t f s) = lock_owner s" "holder_repeat_nr (upd_task t f s) = holder_repeat_nr s"
  "tss_seg (upd_task t f s) = tss_seg s" "ticks_total (upd_task t f s) = ticks_total s"
  by (simp_all add: upd_task_def)

lemma thread_unblock_frame:
  assumes "thread_unblock t s = Some s'"
  shows "sync_eq s s' \<and> esp s' = esp s \<and> cr3 s' = cr3 s
    \<and> task s' = (task s)(t := (task s t)\<lparr>status := TASK_READY\<rparr>)"
proof -
  define s1 where "s1 = s\<lparr>eflags := eflags s AND NOT EFLAGS_IF\<rparr>"
  define s2 where "s2 = upd_task t (\<lambda>t. t\<lparr>status := TASK_READY\<rparr>) (list_push (thread_ready_list s) (general_tag t) s1)"
  have "s' = snd (intr_set_status (intr_get_status s) s2)"
    using assms unfolding thread_unblock_def
    by (auto simp: Let_def split_beta intr_disable_upd s1_def s2_def split: if_splits bind_splits)
  moreover have "eflags s2 = eflags s AND NOT EFLAGS_IF" by (simp add: s2_def s1_def)
  ultimately have "s' = s2\<lparr>eflags := eflags s\<rparr>" by (simp add: intr_bracket_upd)
  then show ?thesis by (simp add: s2_def s1_def sync_eq_def)
qed

lemma process_activate_frame:
  assumes "process_activate t s = Some s'"
  shows "sync_eq s s' \<and> esp s' = esp s \<and> task s' = task s \<and> lnext s' = lnext s \<and> lprev s' = lprev s"
  using assms
  by (auto simp: process_activate_def page_dir_activate_def sync_eq_def split: bind_splits if_splits)

lemma switch_to_fields:
  "sync_eq s (switch_to cur next s)" "lnext (switch_to cur next s) = lnext s"
  "lprev (switch_to cur next s) = lprev s" "cr3 (switch_to cur next s) = cr3 s"
  "task (switch_to cur next s) = (task s)(cur := (task s cur)\<lparr>self_kstack := esp s - 16\<rparr>)"
  "esp (switch_to cur next s) = (if next = cur then esp s - 16 else self_kstack (task s next)) + 20"
  by (auto simp: switch_to_def Let_def sync_eq_def)

lemma sync_eq_trans: "sync_eq s t \<Longrightarrow> sync_eq t u \<Longrightarrow> sync_eq s u"
  by (simp add: sync_eq_def)

lemma thread_unblock_spec:
  assumes q: "task_queues s T A W" and r: "thread_ready_list s \<in> A" and t: "t \<in> T"
    and free: "\<And>k. k \<in> A \<Longrightarrow> t \<notin> set (W k)"
    and st: "status (task s t) \<in> {TASK_BLOCKED, TASK_WAITING, TASK_HANGING}"
  shows "\<exists>s'. thread_unblock t s = Some s'
    \<and> task_queues s' T A (W(thread_ready_list s := t # W (thread_ready_list s)))"
proof -
  define s1 where "s1 = s\<lparr>eflags := eflags s AND NOT EFLAGS_IF\<rparr>"
  define s2 where "s2 = upd_task t (\<lambda>t. t\<lparr>status := TASK_READY\<rparr>) (list_push (thread_ready_list s) (general_tag t) s1)"
  have q1: "task_queues s1 T A W" using q by (rule tq_cong) (simp_all add: s1_def)
  have f1: "thread_ready_list s1 = thread_ready_list s" "task s1 = task s" by (simp_all add: s1_def)
  have "elem_find (thread_ready_list s) (general_tag t) s1 = Some False"
    using tq_find [OF q1 r] free [OF r] by simp
  then have "thread_unblock t s = Some (snd (intr_set_status (intr_get_status s) s2))"
    using st unfolding thread_unblock_def
    by (auto simp: split_beta intr_disable_upd s1_def [symmetric] s2_def f1)
  moreover have "eflags s2 = eflags s AND NOT EFLAGS_IF" by (simp add: s2_def s1_def)
  moreover have "task_queues (s2\<lparr>eflags := eflags s\<rparr>) T A (W(thread_ready_list s := t # W (thread_ready_list s)))"
    using tq_push [OF q1 r t free] by (rule tq_cong) (simp_all add: s2_def)
  ultimately show ?thesis by (simp add: intr_bracket_upd)
qed

text \<open>The two halves of \<^verbatim>\<open>schedule\<close>: put the running task back, then take the next one.\<close>

definition requeue :: "'a kstate_scheme \<Rightarrow> 'a kstate_scheme option" where
  "requeue s =
     (let cur = running_thread s
      in if status (task s cur) = TASK_RUNNING then do {
           found \<leftarrow> elem_find (thread_ready_list s) (general_tag cur) s;
           ASSERT (\<not> found);
           let s = list_append (thread_ready_list s) (general_tag cur) s;
           Some (upd_task cur (\<lambda>t. t\<lparr>ticks := priority t, status := TASK_READY\<rparr>) s)
         } else Some s)"

definition dispatch :: "addr \<Rightarrow> 'a kstate_scheme \<Rightarrow> 'a kstate_scheme option" where
  "dispatch cur s = do {
     s \<leftarrow> (if list_empty (thread_ready_list s) s then thread_unblock (idle_thread s) s else Some s);
     let next = general_tag_entry (fst (list_pop (thread_ready_list s) s));
     s \<leftarrow> process_activate next
           (upd_task next (\<lambda>t. t\<lparr>status := TASK_RUNNING\<rparr>) (snd (list_pop (thread_ready_list s) s)));
     Some (switch_to cur next (s\<lparr>esp := esp s - 12\<rparr>))
   }"

lemma schedule_split:
  "schedule s = do { ASSERT (intr_get_status s = INTR_OFF); s1 \<leftarrow> requeue s; dispatch (running_thread s) s1 }"
  unfolding schedule_def requeue_def dispatch_def by (simp add: Let_def split_beta)

lemma requeue_frame:
  assumes "requeue s = Some s1"
  shows "sync_eq s s1" and "esp s1 = esp s" and "cr3 s1 = cr3 s"
    and "task s1 = (if status (task s (running_thread s)) = TASK_RUNNING
      then (task s)(running_thread s := (task s (running_thread s))
         \<lparr>ticks := priority (task s (running_thread s)), status := TASK_READY\<rparr>) else task s)"
  using assms by (auto simp: requeue_def Let_def sync_eq_def split: if_splits bind_splits)

lemma dispatch_frame:
  assumes "dispatch cur s = Some s'"
  shows "sync_eq s s'"
proof -
  from assms obtain s2 where s2: "(if list_empty (thread_ready_list s) s then thread_unblock (idle_thread s) s else Some s) = Some s2"
    and d: "do { let next = general_tag_entry (fst (list_pop (thread_ready_list s2) s2));
       s \<leftarrow> process_activate next (upd_task next (\<lambda>t. t\<lparr>status := TASK_RUNNING\<rparr>) (snd (list_pop (thread_ready_list s2) s2)));
       Some (switch_to cur next (s\<lparr>esp := esp s - 12\<rparr>)) } = Some s'"
    unfolding dispatch_def by (auto split: bind_splits)
  have a: "sync_eq s s2" using s2 thread_unblock_frame [of "idle_thread s" s s2]
    by (auto simp: sync_eq_def split: if_splits)
  define n where "n = general_tag_entry (fst (list_pop (thread_ready_list s2) s2))"
  obtain s5 where p: "process_activate n (upd_task n (\<lambda>t. t\<lparr>status := TASK_RUNNING\<rparr>) (snd (list_pop (thread_ready_list s2) s2))) = Some s5"
    and s': "s' = switch_to cur n (s5\<lparr>esp := esp s5 - 12\<rparr>)"
    using d unfolding n_def [symmetric] Let_def by (auto split: bind_splits)
  have "sync_eq s2 s5" using process_activate_frame [OF p] by (simp add: sync_eq_def)
  moreover have "sync_eq s5 s'" using switch_to_fields(1) [of "s5\<lparr>esp := esp s5 - 12\<rparr>" cur n]
    unfolding s' by (simp add: sync_eq_def)
  ultimately show ?thesis using a sync_eq_trans by blast
qed

lemma schedule_frame: "schedule s = Some s' \<Longrightarrow> sync_eq s s'"
  unfolding schedule_split using requeue_frame(1) dispatch_frame sync_eq_trans
  by (fastforce split: bind_splits if_splits)

lemma addr_v2p_cong: "phys t = phys s \<Longrightarrow> cr3 t = cr3 s \<Longrightarrow> addr_v2p v t = addr_v2p v s"
  by (simp add: addr_v2p_def load32_def translate_def Let_def)

text \<open>A task whose page directory, if it has one, is mapped can be activated.\<close>

definition can_activate :: "'a kstate_scheme \<Rightarrow> addr \<Rightarrow> bool" where
  "can_activate s t = (t \<noteq> NULL \<and> (pgdir (task s t) = NULL \<or> addr_v2p (pgdir (task s t)) s \<noteq> None))"

lemma process_activate_total:
  assumes "can_activate s t"
  shows "\<exists>s'. process_activate t s = Some s'"
  using assms by (auto simp: can_activate_def process_activate_def page_dir_activate_def)

lemma requeue_spec:
  assumes q: "task_queues s T A W" and r: "thread_ready_list s \<in> A" and c: "running_thread s \<in> T"
    and free: "status (task s (running_thread s)) = TASK_RUNNING \<longrightarrow> (\<forall>k\<in>A. running_thread s \<notin> set (W k))"
  shows "\<exists>s1. requeue s = Some s1 \<and> task_queues s1 T A
    (if status (task s (running_thread s)) = TASK_RUNNING
     then W(thread_ready_list s := W (thread_ready_list s) @ [running_thread s]) else W)"
proof (cases "status (task s (running_thread s)) = TASK_RUNNING")
  case True
  let ?c = "running_thread s" and ?r = "thread_ready_list s"
  have fr: "?c \<notin> set (W k)" if "k \<in> A" for k using free True that by blast
  define s1 where "s1 = upd_task ?c (\<lambda>t. t\<lparr>ticks := priority t, status := TASK_READY\<rparr>) (list_append ?r (general_tag ?c) s)"
  have "elem_find ?r (general_tag ?c) s = Some False" using tq_find [OF q r] fr [OF r] by simp
  then have "requeue s = Some s1" using True by (simp add: requeue_def s1_def Let_def)
  moreover have "task_queues s1 T A (W(?r := W ?r @ [?c]))"
    using tq_append [OF q r c fr] by (rule tq_cong) (simp_all add: s1_def)
  ultimately show ?thesis using True by simp
next
  case False
  then show ?thesis using q by (simp add: requeue_def)
qed

lemma dispatch_spec:
  assumes q: "task_queues s T A W" and r: "thread_ready_list s \<in> A" and w: "W (thread_ready_list s) = n # ts"
    and act: "can_activate s n"
  shows "\<exists>s'. dispatch cur s = Some s' \<and> task_queues s' T A (W(thread_ready_list s := ts))
    \<and> task s' = (let tk = (task s)(n := (task s n)\<lparr>status := TASK_RUNNING\<rparr>)
                 in tk(cur := (tk cur)\<lparr>self_kstack := esp s - 28\<rparr>))
    \<and> esp s' = (if n = cur then esp s - 28 else self_kstack (task s n)) + 20"
proof -
  let ?r = "thread_ready_list s"
  note p = tq_pop [OF q r w]
  define s4 where "s4 = upd_task n (\<lambda>t. t\<lparr>status := TASK_RUNNING\<rparr>) (snd (list_pop ?r s))"
  have "addr_v2p v s4 = addr_v2p v s" for v by (rule addr_v2p_cong) (simp_all add: s4_def)
  then have "can_activate s4 n" using act by (simp add: can_activate_def s4_def)
  then obtain s5 where s5: "process_activate n s4 = Some s5" using process_activate_total by blast
  note f5 = process_activate_frame [OF s5]
  define s' where "s' = switch_to cur n (s5\<lparr>esp := esp s5 - 12\<rparr>)"
  have "dispatch cur s = Some s'"
    using tq_empty [OF q r] w s5 by (simp add: dispatch_def p(1) Let_def s4_def s'_def)
  moreover have "task_queues s' T A (W(?r := ts))"
    using p(2) by (rule tq_cong) (simp_all add: s'_def switch_to_fields f5, simp_all add: s4_def)
  moreover have "task s5 = (task s)(n := (task s n)\<lparr>status := TASK_RUNNING\<rparr>)" "esp s5 = esp s"
    using f5 by (simp_all add: s4_def)
  ultimately show ?thesis by (auto simp: s'_def switch_to_fields Let_def)
qed

text \<open>The queue after the running task went back to its tail, and the task that runs next.\<close>

definition ready_after :: "'a kstate_scheme \<Rightarrow> addr list \<Rightarrow> addr list" where
  "ready_after s rq = (if status (task s (running_thread s)) = TASK_RUNNING then rq @ [running_thread s] else rq)"

lemma schedule_spec:
  assumes q: "task_queues s T A W" and r: "thread_ready_list s \<in> A" and c: "running_thread s \<in> T"
    and off: "intr_get_status s = INTR_OFF"
    and free: "status (task s (running_thread s)) = TASK_RUNNING \<longrightarrow> (\<forall>k\<in>A. running_thread s \<notin> set (W k))"
    and nx: "ready_after s (W (thread_ready_list s)) = n # ts" and act: "can_activate s n"
  shows "\<exists>s'. schedule s = Some s' \<and> sync_eq s s' \<and> task_queues s' T A (W(thread_ready_list s := ts))
    \<and> (\<forall>t. status (task s' t) = (if t = n then TASK_RUNNING
         else if t = running_thread s \<and> status (task s t) = TASK_RUNNING then TASK_READY
         else status (task s t)))
    \<and> (\<forall>t. self_kstack (task s' t) = (if t = running_thread s then esp s - 28 else self_kstack (task s t)))
    \<and> esp s' = (if n = running_thread s then esp s - 8 else self_kstack (task s n) + 20)
    \<and> (\<forall>t. pgdir (task s' t) = pgdir (task s t) \<and> stack_magic (task s' t) = stack_magic (task s t))"
proof -
  let ?c = "running_thread s" and ?r = "thread_ready_list s"
  let ?W = "if status (task s ?c) = TASK_RUNNING then W(?r := W ?r @ [?c]) else W"
  obtain s1 where s1: "requeue s = Some s1" and q1: "task_queues s1 T A ?W"
    using requeue_spec [OF q r c free] by blast
  note f1 = requeue_frame [OF s1]
  have r1: "thread_ready_list s1 = ?r" using f1(1) by (simp add: sync_eq_def)
  have "?W ?r = n # ts" using nx by (simp add: ready_after_def split: if_splits)
  then have w1: "?W (thread_ready_list s1) = n # ts" by (simp add: r1)
  have "addr_v2p v s1 = addr_v2p v s" for v
    using f1(1,3) by (intro addr_v2p_cong) (simp_all add: sync_eq_def)
  then have a1: "can_activate s1 n" using act by (auto simp: can_activate_def f1(4))
  obtain s' where d: "dispatch ?c s1 = Some s'" and q': "task_queues s' T A (?W(?r := ts))"
    and t': "task s' = (let tk = (task s1)(n := (task s1 n)\<lparr>status := TASK_RUNNING\<rparr>)
                 in tk(?c := (tk ?c)\<lparr>self_kstack := esp s1 - 28\<rparr>))"
    and e': "esp s' = (if n = ?c then esp s1 - 28 else self_kstack (task s1 n)) + 20"
    using dispatch_spec [OF q1 _ w1 a1, of ?c] r unfolding r1 by blast
  have "?W(?r := ts) = W(?r := ts)" by (rule ext) simp
  moreover have "schedule s = Some s'" using s1 d off by (simp add: schedule_split)
  ultimately show ?thesis using schedule_frame q' t' e' f1(2,4) by (auto simp: Let_def)
qed

text \<open>
  The effect of a context switch on what it may change: the stack pointer a task has when it runs
  again, and the marks \<open>running\<close> and \<open>ready\<close>.
\<close>

definition esp_of :: "'a kstate_scheme \<Rightarrow> addr \<Rightarrow> u32" where
  "esp_of s t = (if t = running_thread s then esp s else self_kstack (task s t) + 20)"

definition switched :: "'a kstate_scheme \<Rightarrow> 'a kstate_scheme \<Rightarrow> bool" where
  "switched s s' = (sync_eq s s'
     \<and> (\<forall>t. esp_of s' t = (if t = running_thread s then esp s - 8 else esp_of s t))
     \<and> (\<forall>t. pgdir (task s' t) = pgdir (task s t) \<and> stack_magic (task s' t) = stack_magic (task s t))
     \<and> (\<forall>t. t \<noteq> running_thread s' \<longrightarrow> status (task s' t) =
          (if t = running_thread s \<and> status (task s t) = TASK_RUNNING then TASK_READY else status (task s t))))"

lemma switchedI:
  assumes "sync_eq s s'" and "running_thread s' = n"
    and "\<forall>t. status (task s' t) = (if t = n then TASK_RUNNING
         else if t = running_thread s \<and> status (task s t) = TASK_RUNNING then TASK_READY else status (task s t))"
    and "\<forall>t. self_kstack (task s' t) = (if t = running_thread s then esp s - 28 else self_kstack (task s t))"
    and "esp s' = (if n = running_thread s then esp s - 8 else self_kstack (task s n) + 20)"
    and "\<forall>t. pgdir (task s' t) = pgdir (task s t) \<and> stack_magic (task s' t) = stack_magic (task s t)"
  shows "switched s s'"
  using assms by (auto simp: switched_def esp_of_def)

text \<open>
  The scheduler's invariant. \<open>sched_core\<close>: every task on the ready list is ready, every task on
  another queue is blocked, and the saved stack of every task that is not running leads back into
  its own page. \<open>sched_inv\<close>, which holds between operations, adds that the running task is marked
  running and is on no queue.
\<close>

definition sched_core ::
    "'a kstate_scheme \<Rightarrow> addr set \<Rightarrow> addr set \<Rightarrow> (addr \<Rightarrow> addr list) \<Rightarrow> bool" where
  "sched_core s T A W =
     (task_queues s T A W \<and> thread_ready_list s \<in> A \<and> running_thread s \<in> T \<and> idle_thread s \<in> T
      \<and> (\<forall>k\<in>A. \<forall>t\<in>set (W k). status (task s t) = (if k = thread_ready_list s then TASK_READY else TASK_BLOCKED))
      \<and> (\<forall>t\<in>T. t \<noteq> running_thread s \<longrightarrow> (self_kstack (task s t) + 20) AND 0xfffff000 = t))"

definition sched_inv ::
    "'a kstate_scheme \<Rightarrow> addr set \<Rightarrow> addr set \<Rightarrow> (addr \<Rightarrow> addr list) \<Rightarrow> bool" where
  "sched_inv s T A W =
     (sched_core s T A W \<and> status (task s (running_thread s)) = TASK_RUNNING
      \<and> (\<forall>k\<in>A. running_thread s \<notin> set (W k)))"

definition stack_room :: "'a kstate_scheme \<Rightarrow> bool" where
  "stack_room s = ((esp s - 8) AND 0xfffff000 = running_thread s)"

lemma sched_core_parts:
  assumes "sched_core s T A W"
  shows "task_queues s T A W" "thread_ready_list s \<in> A" "running_thread s \<in> T" "idle_thread s \<in> T"
    "k \<in> A \<Longrightarrow> t \<in> set (W k) \<Longrightarrow> status (task s t) = (if k = thread_ready_list s then TASK_READY else TASK_BLOCKED)"
    "t \<in> T \<Longrightarrow> t \<noteq> running_thread s \<Longrightarrow> (self_kstack (task s t) + 20) AND 0xfffff000 = t"
  using assms by (simp_all add: sched_core_def)

lemma sched_inv_switch:
  assumes inv: "sched_core s T A W" and room: "stack_room s" and nT: "n \<in> T"
    and sy: "sync_eq s s'" and q: "task_queues s' T A W'"
    and st: "\<forall>t\<in>T. status (task s' t) = (if t = n then TASK_RUNNING else st t)"
    and ks: "\<forall>t. self_kstack (task s' t) = (if t = running_thread s then esp s - 28 else self_kstack (task s t))"
    and e: "esp s' = (if n = running_thread s then esp s - 8 else self_kstack (task s n) + 20)"
    and free: "\<forall>k\<in>A. n \<notin> set (W' k)"
    and stq: "\<forall>k\<in>A. \<forall>t\<in>set (W' k). st t = (if k = thread_ready_list s then TASK_READY else TASK_BLOCKED)"
  shows "sched_inv s' T A W' \<and> running_thread s' = n"
proof -
  have run: "running_thread s' = n"
    using e room inv nT by (auto simp: running_thread_def stack_room_def sched_core_def)
  have r: "thread_ready_list s' = thread_ready_list s" "idle_thread s' = idle_thread s"
    using sy by (simp_all add: sync_eq_def)
  have "status (task s' t) = (if k = thread_ready_list s then TASK_READY else TASK_BLOCKED)"
    if "k \<in> A" "t \<in> set (W' k)" for k t
  proof -
    have "t \<noteq> n" using free that by blast
    moreover have "t \<in> T" using tq_sub [OF q that(1)] that(2) by blast
    ultimately show ?thesis using st stq that by simp
  qed
  moreover have "(self_kstack (task s' t) + 20) AND 0xfffff000 = t" if "t \<in> T" "t \<noteq> n" for t
  proof (cases "t = running_thread s")
    case True
    then show ?thesis using ks room by (simp add: stack_room_def)
  next
    case False
    then show ?thesis using ks inv that(1) by (simp add: sched_core_def)
  qed
  moreover have "status (task s' n) = TASK_RUNNING" using st nT by simp
  ultimately show ?thesis using run q inv nT free by (simp add: sched_inv_def sched_core_def r)
qed

lemma tq_free_next:
  assumes q: "task_queues s T A W" and l: "l \<in> A" and d: "distinct (W l @ xs)"
    and x: "\<forall>k\<in>A. set xs \<inter> set (W k) = {}" and nx: "W l @ xs = n # ts" and k: "k \<in> A"
  shows "n \<notin> set ((W(l := ts)) k)"
proof (cases "k = l")
  case True
  then show ?thesis using d nx by simp
next
  case False
  have "n \<in> set (W l) \<or> n \<in> set xs" using nx by (metis Un_iff list.set_intros(1) set_append)
  then show ?thesis using False k x tq_sep [OF q l k] by auto
qed

lemma tq_distinct: "task_queues s T A W \<Longrightarrow> l \<in> A \<Longrightarrow> distinct (W l)"
  using kl.rep_distinct [OF tq_dlist [of s T A W l]] by (simp add: distinct_map)

lemma schedule_running:
  assumes inv: "sched_inv s T A W" and off: "intr_get_status s = INTR_OFF" and room: "stack_room s"
    and nx: "W (thread_ready_list s) @ [running_thread s] = n # ts" and act: "can_activate s n"
  shows "\<exists>s'. schedule s = Some s' \<and> sched_inv s' T A (W(thread_ready_list s := ts))
    \<and> running_thread s' = n \<and> switched s s'"
proof -
  let ?r = "thread_ready_list s" and ?c = "running_thread s"
  let ?st = "\<lambda>t. if t = ?c then TASK_READY else status (task s t)"
  have core: "sched_core s T A W" and run: "status (task s ?c) = TASK_RUNNING" and fc: "\<forall>k\<in>A. ?c \<notin> set (W k)"
    using inv by (simp_all add: sched_inv_def)
  note i = sched_core_parts [OF core]
  have nT: "n \<in> T" using nx i(3) tq_sub [OF i(1,2)] by (cases "W ?r") auto
  have "ready_after s (W ?r) = n # ts" using nx run by (simp add: ready_after_def)
  from schedule_spec [OF i(1,2,3) off _ this act] fc obtain s' where s':
    "schedule s = Some s'" "sync_eq s s'" "task_queues s' T A (W(?r := ts))"
    "\<forall>t. status (task s' t) = (if t = n then TASK_RUNNING
         else if t = ?c \<and> status (task s t) = TASK_RUNNING then TASK_READY else status (task s t))"
    "\<forall>t. self_kstack (task s' t) = (if t = ?c then esp s - 28 else self_kstack (task s t))"
    "esp s' = (if n = ?c then esp s - 8 else self_kstack (task s n) + 20)"
    "\<forall>t. pgdir (task s' t) = pgdir (task s t) \<and> stack_magic (task s' t) = stack_magic (task s t)" by blast
  have free: "\<forall>k\<in>A. n \<notin> set ((W(?r := ts)) k)"
    using tq_free_next [OF i(1,2) _ _ nx] tq_distinct [OF i(1,2)] fc i(2) by simp
  have stq: "\<forall>k\<in>A. \<forall>t\<in>set ((W(?r := ts)) k). ?st t = (if k = ?r then TASK_READY else TASK_BLOCKED)"
  proof (intro ballI)
    fix k t assume k: "k \<in> A" and t: "t \<in> set ((W(?r := ts)) k)"
    show "?st t = (if k = ?r then TASK_READY else TASK_BLOCKED)"
    proof (cases "k = ?r")
      case True
      then have "t \<in> set (W ?r @ [?c])" using t nx by simp
      then show ?thesis using True i(5) [OF i(2)] by auto
    next
      case False
      then show ?thesis using t i(5) [OF k] fc k by auto
    qed
  qed
  have "\<forall>t\<in>T. status (task s' t) = (if t = n then TASK_RUNNING else ?st t)" using s'(4) run by simp
  from sched_inv_switch [OF core room nT s'(2,3) this s'(5,6) free stq]
  have "sched_inv s' T A (W(?r := ts))" "running_thread s' = n" by blast+
  then show ?thesis using s'(1) switchedI [OF s'(2) _ s'(4-7)] by blast
qed

text \<open>The running task gives up the processor without going back to the ready list.\<close>

lemma schedule_blocked:
  assumes core: "sched_core s T A W" and off: "intr_get_status s = INTR_OFF" and room: "stack_room s"
    and st: "status (task s (running_thread s)) \<noteq> TASK_RUNNING"
    and nx: "W (thread_ready_list s) = n # ts" and act: "can_activate s n"
  shows "\<exists>s'. schedule s = Some s' \<and> sched_inv s' T A (W(thread_ready_list s := ts))
    \<and> running_thread s' = n \<and> switched s s'"
proof -
  let ?r = "thread_ready_list s" and ?c = "running_thread s"
  note i = sched_core_parts [OF core]
  have nT: "n \<in> T" using nx tq_sub [OF i(1,2)] by auto
  have "ready_after s (W ?r) = n # ts" using nx st by (simp add: ready_after_def)
  from schedule_spec [OF i(1,2,3) off _ this act] st obtain s' where s':
    "schedule s = Some s'" "sync_eq s s'" "task_queues s' T A (W(?r := ts))"
    "\<forall>t. status (task s' t) = (if t = n then TASK_RUNNING
         else if t = ?c \<and> status (task s t) = TASK_RUNNING then TASK_READY else status (task s t))"
    "\<forall>t. self_kstack (task s' t) = (if t = ?c then esp s - 28 else self_kstack (task s t))"
    "esp s' = (if n = ?c then esp s - 8 else self_kstack (task s n) + 20)"
    "\<forall>t. pgdir (task s' t) = pgdir (task s t) \<and> stack_magic (task s' t) = stack_magic (task s t)" by blast
  have free: "\<forall>k\<in>A. n \<notin> set ((W(?r := ts)) k)"
    using tq_free_next [OF i(1,2), of "[]" n ts] tq_distinct [OF i(1,2)] nx by simp
  have stq: "\<forall>k\<in>A. \<forall>t\<in>set ((W(?r := ts)) k). status (task s t) = (if k = ?r then TASK_READY else TASK_BLOCKED)"
    using i(5) nx i(2) by auto
  have all: "\<forall>t. status (task s' t) = (if t = n then TASK_RUNNING else status (task s t))" using s'(4) st by auto
  then have "\<forall>t\<in>T. status (task s' t) = (if t = n then TASK_RUNNING else status (task s t))" by simp
  from sched_inv_switch [OF core room nT s'(2,3) this s'(5,6) free stq]
  have "sched_inv s' T A (W(?r := ts))" "running_thread s' = n" by blast+
  then show ?thesis using s'(1) switchedI [OF s'(2) _ s'(4-7)] by blast
qed

lemma sched_core_cong:
  assumes "sched_core s T A W" and "lnext t = lnext s" and "lprev t = lprev s" and "task t = task s"
    and "esp t = esp s" and "thread_ready_list t = thread_ready_list s" and "idle_thread t = idle_thread s"
  shows "sched_core t T A W"
  using assms tq_cong [of s T A W t] by (simp add: sched_core_def running_thread_def)

lemma dispatch_idle:
  assumes "list_empty (thread_ready_list s) s" and "thread_unblock (idle_thread s) s = Some s2"
    and "\<not> list_empty (thread_ready_list s2) s2"
  shows "dispatch cur s = dispatch cur s2"
  using assms by (simp add: dispatch_def)

text \<open>With nobody ready the idle thread is woken and runs.\<close>

lemma schedule_idle:
  assumes core: "sched_core s T A W" and off: "intr_get_status s = INTR_OFF" and room: "stack_room s"
    and st: "status (task s (running_thread s)) \<noteq> TASK_RUNNING"
    and nx: "W (thread_ready_list s) = []" and act: "can_activate s (idle_thread s)"
    and idle: "status (task s (idle_thread s)) = TASK_BLOCKED" "\<forall>k\<in>A. idle_thread s \<notin> set (W k)"
  shows "\<exists>s'. schedule s = Some s' \<and> sched_inv s' T A W \<and> running_thread s' = idle_thread s \<and> switched s s'"
proof -
  let ?r = "thread_ready_list s" and ?c = "running_thread s" and ?i = "idle_thread s"
  note i = sched_core_parts [OF core]
  from thread_unblock_spec [OF i(1,2,4)] idle obtain s2 where u: "thread_unblock ?i s = Some s2"
    and q2: "task_queues s2 T A (W(?r := [?i]))" using nx by auto
  note f2 = thread_unblock_frame [OF u]
  have e2: "thread_ready_list s2 = ?r" "idle_thread s2 = ?i" "running_thread s2 = ?c" "stack_room s2"
    "intr_get_status s2 = INTR_OFF"
    using f2 off room by (simp_all add: sync_eq_def running_thread_def stack_room_def intr_get_status_def)
  have st2: "status (task s2 ?c) \<noteq> TASK_RUNNING" using f2 st by simp
  have "addr_v2p v s2 = addr_v2p v s" for v using f2 by (intro addr_v2p_cong) (simp_all add: sync_eq_def)
  then have act2: "can_activate s2 ?i" using act f2 by (simp add: can_activate_def)
  have "status (task s2 t) = (if k = ?r then TASK_READY else TASK_BLOCKED)"
    if "k \<in> A" "t \<in> set ((W(?r := [?i])) k)" for k t
    using that f2 i(5) [OF that(1)] idle(2) by (auto split: if_splits)
  then have core2: "sched_core s2 T A (W(?r := [?i]))"
    using q2 i e2 f2 by (auto simp: sched_core_def)
  have "schedule s = schedule s2"
    unfolding schedule_split requeue_def using off e2 st st2 tq_empty [OF i(1,2)] nx tq_empty [OF q2 i(2)]
      dispatch_idle [OF _ u] by simp
  moreover have "(W(?r := [?i]))(?r := []) = W" using nx by auto
  ultimately obtain s' where s': "schedule s = Some s'" "sched_inv s' T A W" "running_thread s' = ?i" "switched s2 s'"
    using schedule_blocked [OF core2 e2(5,4), of ?i "[]"] e2 act2 st2 by auto
  have "esp_of s2 t = esp_of s t" "pgdir (task s2 t) = pgdir (task s t)" "stack_magic (task s2 t) = stack_magic (task s t)"
    "t \<noteq> ?i \<Longrightarrow> status (task s2 t) = status (task s t)" for t
    using f2 e2(3) by (simp_all add: esp_of_def)
  moreover have "sync_eq s s'" using s'(4) f2 sync_eq_trans by (auto simp: switched_def)
  ultimately have "switched s s'"
    using s'(3,4) e2(3) st f2 by (auto simp: switched_def)
  then show ?thesis using s' by blast
qed

text \<open>What runs after the running task blocks: the head of the ready list, or idle.\<close>

definition next_task :: "'a kstate_scheme \<Rightarrow> (addr \<Rightarrow> addr list) \<Rightarrow> addr" where
  "next_task s W = (case W (thread_ready_list s) of [] \<Rightarrow> idle_thread s | n # ts \<Rightarrow> n)"

definition idle_parked :: "'a kstate_scheme \<Rightarrow> addr set \<Rightarrow> (addr \<Rightarrow> addr list) \<Rightarrow> bool" where
  "idle_parked s A W = (W (thread_ready_list s) = [] \<longrightarrow>
     status (task s (idle_thread s)) = TASK_BLOCKED \<and> (\<forall>k\<in>A. idle_thread s \<notin> set (W k)))"

lemma schedule_away:
  assumes core: "sched_core s T A W" and off: "intr_get_status s = INTR_OFF" and room: "stack_room s"
    and st: "status (task s (running_thread s)) \<noteq> TASK_RUNNING"
    and act: "can_activate s (next_task s W)" and idle: "idle_parked s A W"
  shows "\<exists>s'. schedule s = Some s' \<and> running_thread s' = next_task s W \<and> switched s s'
    \<and> sched_inv s' T A (W(thread_ready_list s := tl (W (thread_ready_list s))))"
proof (cases "W (thread_ready_list s)")
  case Nil
  then have "W(thread_ready_list s := tl (W (thread_ready_list s))) = W" by auto
  then show ?thesis
    using schedule_idle [OF core off room st Nil] act idle Nil by (auto simp: next_task_def idle_parked_def)
next
  case (Cons n ts)
  then show ?thesis using schedule_blocked [OF core off room st Cons] act by (auto simp: next_task_def)
qed

lemma thread_block_spec:
  assumes core: "sched_core (upd_task (running_thread s) (\<lambda>t. t\<lparr>status := stat\<rparr>) s) T A W" and room: "stack_room s"
    and stat: "stat \<in> {TASK_BLOCKED, TASK_WAITING, TASK_HANGING}"
    and act: "can_activate s (next_task s W)"
    and idle: "idle_parked (upd_task (running_thread s) (\<lambda>t. t\<lparr>status := stat\<rparr>) s) A W"
  shows "\<exists>s'. thread_block stat s = Some s' \<and> running_thread s' = next_task s W
    \<and> sched_inv s' T A (W(thread_ready_list s := tl (W (thread_ready_list s))))
    \<and> konts s' = (konts s)(running_thread s := Block_ret (intr_get_status s) # konts s (running_thread s))
    \<and> switched (push_kont (running_thread s) (Block_ret (intr_get_status s))
        (upd_task (running_thread s) (\<lambda>t. t\<lparr>status := stat\<rparr>) (s\<lparr>eflags := eflags s AND NOT EFLAGS_IF\<rparr>))) s'"
proof -
  let ?c = "running_thread s"
  define s1 where "s1 = push_kont ?c (Block_ret (intr_get_status s))
     (upd_task ?c (\<lambda>t. t\<lparr>status := stat\<rparr>) (s\<lparr>eflags := eflags s AND NOT EFLAGS_IF\<rparr>))"
  have f1: "lnext s1 = lnext s" "lprev s1 = lprev s" "esp s1 = esp s" "phys s1 = phys s" "cr3 s1 = cr3 s"
    "thread_ready_list s1 = thread_ready_list s" "idle_thread s1 = idle_thread s"
    "task s1 = task (upd_task ?c (\<lambda>t. t\<lparr>status := stat\<rparr>) s)" "eflags s1 = eflags s AND NOT EFLAGS_IF"
    "konts s1 = (konts s)(?c := Block_ret (intr_get_status s) # konts s ?c)"
    by (simp_all add: s1_def push_kont_def upd_task_def)
  have run1: "running_thread s1 = ?c" "next_task s1 W = next_task s W" "stack_room s1"
    using f1 room by (simp_all add: running_thread_def next_task_def stack_room_def split: list.split)
  have off: "intr_get_status s1 = INTR_OFF"
    using intr_get_status_off [of "eflags s" s1] by (simp add: intr_get_status_def f1)
  have core1: "sched_core s1 T A W" using core by (rule sched_core_cong) (simp_all add: f1)
  have idle1: "idle_parked s1 A W" using idle by (simp add: idle_parked_def f1)
  have "can_activate s1 t = can_activate s t" for t
    using addr_v2p_cong [of s1 s] by (auto simp: can_activate_def f1)
  then have act1: "can_activate s1 (next_task s1 W)" using act by (simp add: run1)
  have "status (task s1 (running_thread s1)) \<noteq> TASK_RUNNING" using stat by (auto simp: run1 f1)
  from schedule_away [OF core1 off run1(3) this act1 idle1] obtain s' where
    "schedule s1 = Some s'" "running_thread s' = next_task s W" "switched s1 s'"
    "sched_inv s' T A (W(thread_ready_list s := tl (W (thread_ready_list s))))"
    by (auto simp: f1 run1)
  moreover have "thread_block stat s = schedule s1"
    using stat by (auto simp: thread_block_def split_beta intr_disable_upd s1_def running_thread_def Let_def)
  ultimately show ?thesis by (auto simp: switched_def sync_eq_def f1 s1_def [symmetric])
qed

text \<open>Marking the running task blocked keeps the core of the invariant.\<close>

lemma sched_core_mark:
  assumes "sched_inv s T A W"
  shows "sched_core (upd_task (running_thread s) (\<lambda>t. t\<lparr>status := stat\<rparr>) s) T A W"
proof -
  have q: "task_queues (upd_task (running_thread s) (\<lambda>t. t\<lparr>status := stat\<rparr>) s) T A W"
    by (rule tq_cong [of s]) (use assms in \<open>simp_all add: sched_inv_def sched_core_def\<close>)
  then show ?thesis using assms
    by (auto simp: sched_inv_def sched_core_def running_thread_def)
qed

lemma block_leaves:
  assumes inv: "sched_inv s T A W" and room: "stack_room s" and act: "\<forall>t\<in>T. can_activate s t"
    and ni: "running_thread s \<noteq> idle_thread s" and idle: "idle_parked s A W"
  shows "\<exists>s'. thread_block TASK_BLOCKED s = Some s' \<and> running_thread s' = next_task s W
      \<and> sched_inv s' T A (W(thread_ready_list s := tl (W (thread_ready_list s))))
      \<and> status (task s' (running_thread s)) = TASK_BLOCKED"
proof -
  let ?c = "running_thread s" and ?r = "thread_ready_list s"
  have core: "sched_core s T A W" and fc: "\<forall>k\<in>A. ?c \<notin> set (W k)" using inv by (simp_all add: sched_inv_def)
  note i = sched_core_parts [OF core]
  have nT: "next_task s W \<in> T" "next_task s W \<noteq> ?c"
    using tq_sub [OF i(1,2)] i(2,4) ni fc by (auto simp: next_task_def split: list.splits)
  have idle': "idle_parked (upd_task ?c (\<lambda>t. t\<lparr>status := TASK_BLOCKED\<rparr>) s) A W"
    using idle by (simp add: idle_parked_def)
  from thread_block_spec [OF sched_core_mark [OF inv] room _ _ idle'] act nT(1) obtain s' where
    s': "thread_block TASK_BLOCKED s = Some s'" "running_thread s' = next_task s W"
    "sched_inv s' T A (W(?r := tl (W ?r)))"
    "switched (push_kont ?c (Block_ret (intr_get_status s))
        (upd_task ?c (\<lambda>t. t\<lparr>status := TASK_BLOCKED\<rparr>) (s\<lparr>eflags := eflags s AND NOT EFLAGS_IF\<rparr>))) s'"
    by auto
  have "status (task s' ?c) = TASK_BLOCKED"
    using s'(2,4) nT(2) by (simp add: switched_def push_kont_def)
  then show ?thesis using s' by auto
qed

lemma unblock_front:
  assumes inv: "sched_inv s T A W" and u: "u \<in> T" "status (task s u) = TASK_BLOCKED" "\<forall>k\<in>A. u \<notin> set (W k)"
  shows "\<exists>s'. thread_unblock u s = Some s' \<and> running_thread s' = running_thread s
      \<and> sched_inv s' T A (W(thread_ready_list s := u # W (thread_ready_list s)))"
proof -
  let ?c = "running_thread s" and ?r = "thread_ready_list s"
  have core: "sched_core s T A W" and run: "status (task s ?c) = TASK_RUNNING" and fc: "\<forall>k\<in>A. ?c \<notin> set (W k)"
    using inv by (simp_all add: sched_inv_def)
  note i = sched_core_parts [OF core]
  obtain s' where s': "thread_unblock u s = Some s'" and q: "task_queues s' T A (W(?r := u # W ?r))"
    using thread_unblock_spec [OF i(1,2) u(1)] u(2,3) by auto
  note f = thread_unblock_frame [OF s']
  have e: "running_thread s' = ?c" "thread_ready_list s' = ?r" "idle_thread s' = idle_thread s"
    using f by (simp_all add: running_thread_def sync_eq_def)
  have cu: "?c \<noteq> u" using run u(2) by auto
  have "status (task s' t) = (if k = ?r then TASK_READY else TASK_BLOCKED)"
    if "k \<in> A" "t \<in> set ((W(?r := u # W ?r)) k)" for k t
    using that f i(5) [OF that(1)] u(3) by (auto split: if_splits)
  moreover have "(self_kstack (task s' t) + 20) AND 0xfffff000 = t" if "t \<in> T" "t \<noteq> ?c" for t
    using i(6) [OF that] f by auto
  ultimately have "sched_core s' T A (W(?r := u # W ?r))"
    using q i(2-4) e by (simp add: sched_core_def)
  then have "sched_inv s' T A (W(?r := u # W ?r))"
    using f run fc cu e by (simp add: sched_inv_def)
  then show ?thesis using s' e by blast
qed

section \<open>A concrete kernel for the witnesses\<close>

definition demo_task :: "addr \<Rightarrow> task_status \<Rightarrow> task_struct" where
  "demo_task t st = \<lparr>self_kstack = t + 0xf00, pid = 1, status = st, tname = [], priority = 31, ticks = 31,
     elapsed_ticks = 0, fd_table = [0, 1, 2, -1, -1, -1, -1, -1], pgdir = NULL,
     userprog_vaddr = \<lparr>vaddr_bitmap = \<lparr>btmp_bytes_len = 0, bits = (\<lambda>_. 0)\<rparr>, vaddr_start = 0\<rparr>,
     cwd_inode_nr = 0, parent_pid = 0xffffffff, exit_status = 0, stack_magic = 0x20021225\<rparr>"

text \<open>Task \<open>0x5000\<close> runs, \<open>0x6000\<close> is ready, the idle thread \<open>0x7000\<close> is parked.\<close>

definition demo_k :: kstate where
  "demo_k = list_append 0x1000 (general_tag 0x6000) (list_init 0x1000
     \<lparr>eflags = 2, lprev = (\<lambda>_. 0), lnext = (\<lambda>_. 0), phys = (\<lambda>_. 0), cr3 = 0x100000, esp = 0x5f00,
      task = (\<lambda>t. demo_task t (if t = 0x5000 then TASK_RUNNING else if t = 0x6000 then TASK_READY else TASK_BLOCKED)),
      konts = (\<lambda>_. []), main_thread = 0x5000, idle_thread = 0x7000, thread_ready_list = 0x1000,
      thread_all_list = 0x1100, tss_seg = \<lparr>esp0 = 0, ss0 = 0, io_base = 0\<rparr>, ticks_total = 0,
      sem_value = (\<lambda>_. 1), lock_owner = (\<lambda>_. NULL), holder_repeat_nr = (\<lambda>_. 0)\<rparr>)"

lemma demo_k_fields [simp]:
  "thread_ready_list demo_k = 0x1000" "idle_thread demo_k = 0x7000" "esp demo_k = 0x5f00" "eflags demo_k = 2"
  "task demo_k t = demo_task t (if t = 0x5000 then TASK_RUNNING else if t = 0x6000 then TASK_READY else TASK_BLOCKED)"
  "running_thread demo_k = 0x5000" "phys demo_k a = 0" "konts demo_k t = []" "sem_value demo_k a = 1"
  "lock_owner demo_k a = NULL" "holder_repeat_nr demo_k a = 0"
  by (simp_all add: demo_k_def running_thread_def)

abbreviation demo_W :: "addr \<Rightarrow> addr list" where "demo_W \<equiv> (\<lambda>l. if l = 0x1000 then [0x6000] else [])"
abbreviation demo_T :: "addr set" where "demo_T \<equiv> {0x5000, 0x6000, 0x7000}"

lemma demo_k_inv: "sched_inv demo_k demo_T {0x1000} demo_W"
proof -
  have "dlist demo_k 0x1000 (map general_tag [0x6000])"
    unfolding demo_k_def using kl.rep_append [OF list_init_dlist, of "general_tag 0x6000" "0x1000"]
    by (simp add: lnodes_def general_tag_def list_tail_def)
  then have "task_queues demo_k demo_T {0x1000} demo_W"
    by (simp add: task_queues_def general_tag_def list_tail_def)
  then show ?thesis by (simp add: sched_inv_def sched_core_def) (simp add: demo_task_def)
qed

lemma demo_k_act: "t \<noteq> NULL \<Longrightarrow> can_activate demo_k t"
  by (simp add: can_activate_def demo_task_def)

section \<open>Properties\<close>

text \<open>
  C6: the scheduler is round-robin. When the running task's time is up, \<^verbatim>\<open>schedule\<close> returns in the
  task at the head of the ready list, the preempted task is at the tail, everybody else keeps the
  place in the queue, and the scheduler's invariant holds for the new running task: it alone is
  marked running, the tasks on the ready list are exactly ready, and no assertion fails.
\<close>

theorem schedule_round_robin:
  assumes "sched_inv s T A W" and "intr_get_status s = INTR_OFF" and "stack_room s"
    and "\<forall>t\<in>T. can_activate s t"
  shows "\<exists>s'. schedule s = Some s'
    \<and> running_thread s' = hd (W (thread_ready_list s) @ [running_thread s])
    \<and> sched_inv s' T A (W(thread_ready_list s := tl (W (thread_ready_list s) @ [running_thread s])))"
proof -
  let ?q = "W (thread_ready_list s) @ [running_thread s]"
  have q: "?q = hd ?q # tl ?q" by (cases "W (thread_ready_list s)") simp_all
  have core: "sched_core s T A W" using assms(1) by (simp add: sched_inv_def)
  note i = sched_core_parts [OF core]
  have "set ?q \<subseteq> T" using i(3) tq_sub [OF i(1,2)] by simp
  moreover have "hd ?q \<in> set ?q" by (rule hd_in_set) simp
  ultimately have "can_activate s (hd ?q)" using assms(4) by blast
  then show ?thesis using schedule_running [OF assms(1-3) q] by blast
qed

theorem schedule_round_robin_witness:
  "\<exists>s'. schedule demo_k = Some s' \<and> running_thread s' = 0x6000
     \<and> sched_inv s' demo_T {0x1000} (demo_W(0x1000 := [0x5000]))"
proof -
  have "intr_get_status demo_k = INTR_OFF" by (simp add: intr_get_status_def EFLAGS_IF_def)
  moreover have "stack_room demo_k" by (simp add: stack_room_def)
  ultimately show ?thesis using schedule_round_robin [OF demo_k_inv] demo_k_act by simp
qed

text \<open>
  C23: a task that blocks leaves the processor to the head of the ready list, or to the idle thread
  when the list is empty, and is on no ready list itself, while \<^verbatim>\<open>thread_unblock\<close> puts a blocked
  task at the front of the ready list, so it runs next. Both keep the scheduler's invariant and
  fail no assertion.
\<close>

theorem block_and_unblock:
  assumes "sched_inv s T A W" and "stack_room s" and "\<forall>t\<in>T. can_activate s t"
    and "running_thread s \<noteq> idle_thread s" and "idle_parked s A W"
    and "u \<in> T" and "status (task s u) = TASK_BLOCKED" and "\<forall>k\<in>A. u \<notin> set (W k)"
  shows "(\<exists>s'. thread_block TASK_BLOCKED s = Some s' \<and> running_thread s' = next_task s W
      \<and> sched_inv s' T A (W(thread_ready_list s := tl (W (thread_ready_list s))))
      \<and> status (task s' (running_thread s)) = TASK_BLOCKED)
    \<and> (\<exists>s'. thread_unblock u s = Some s' \<and> running_thread s' = running_thread s
      \<and> sched_inv s' T A (W(thread_ready_list s := u # W (thread_ready_list s))))"
  using block_leaves [OF assms(1-5)] unblock_front [OF assms(1,6-8)] by blast

theorem block_and_unblock_witness:
  "(\<exists>s'. thread_block TASK_BLOCKED demo_k = Some s' \<and> running_thread s' = 0x6000)
   \<and> (\<exists>s'. thread_unblock 0x7000 demo_k = Some s' \<and> sched_inv s' demo_T {0x1000} (demo_W(0x1000 := [0x7000, 0x6000])))"
proof -
  have "stack_room demo_k" by (simp add: stack_room_def)
  moreover have "idle_parked demo_k {0x1000} demo_W" by (simp add: idle_parked_def)
  moreover have "status (task demo_k 0x7000) = TASK_BLOCKED" by (simp add: demo_task_def)
  moreover have "next_task demo_k demo_W = 0x6000" by (simp add: next_task_def)
  ultimately show ?thesis
    using block_and_unblock [OF demo_k_inv, of "0x7000"] demo_k_act by auto
qed

end
