(* ===== verification/Sync.thy ===== *)
theory Sync
  imports Thread
begin

unbundle bit_operations_syntax

text \<open>
  Semaphores and locks, \<^verbatim>\<open>thread/sync.c\<close>, and the execution of kernel code by interleaved tasks.

  \<open>resume\<close> runs the innermost return point of the running task. \<open>kstep\<close> is the system: the
  running task calls a lock operation, continues at a return point, yields, or is interrupted by
  the clock whenever interrupts are on - also between two statements of \<^verbatim>\<open>lock_acquire\<close> and
  \<^verbatim>\<open>lock_release\<close>, which do not disable interrupts. The invariant \<open>sys_inv\<close> says what holds between
  any two such steps; the properties at the end of the theory are read off it.
\<close>

section \<open>Semaphores\<close>

definition waiters :: "addr \<Rightarrow> addr" where "waiters psema = psema + 4"

definition sema_init :: "addr \<Rightarrow> u8 \<Rightarrow> 'a kstate_scheme \<Rightarrow> 'a kstate_scheme" where
  "sema_init psema v s = list_init (waiters psema) (s\<lparr>sem_value := (sem_value s)(psema := v)\<rparr>)"

text \<open>The loop of \<^verbatim>\<open>sema_down\<close> from its test on; when the task blocks, the test is its return point.\<close>

definition sema_down_loop :: "addr \<Rightarrow> intr_status \<Rightarrow> 'a kstate_scheme \<Rightarrow> 'a kstate_scheme option" where
  "sema_down_loop psema old_status s =
     (if sem_value s psema = 0 then do {
        found \<leftarrow> elem_find (waiters psema) (general_tag (running_thread s)) s;
        ASSERT (\<not> found);
        let s = list_append (waiters psema) (general_tag (running_thread s)) s;
        thread_block TASK_BLOCKED (push_kont (running_thread s) (Down_loop psema old_status) s)
      } else do {
        let s = s\<lparr>sem_value := (sem_value s)(psema := sem_value s psema - 1)\<rparr>;
        ASSERT (sem_value s psema = 0);
        Some (snd (intr_set_status old_status s))
      })"

definition sema_down :: "addr \<Rightarrow> 'a kstate_scheme \<Rightarrow> 'a kstate_scheme option" where
  "sema_down psema s = (let (old_status, s) = intr_disable s in sema_down_loop psema old_status s)"

definition sema_up :: "addr \<Rightarrow> 'a kstate_scheme \<Rightarrow> 'a kstate_scheme option" where
  "sema_up psema s = do {
     let (old_status, s) = intr_disable s;
     ASSERT (sem_value s psema = 0);
     s \<leftarrow> (if \<not> list_empty (waiters psema) s then
             (let (tag, s) = list_pop (waiters psema) s in thread_unblock (general_tag_entry tag) s)
           else Some s);
     let s = s\<lparr>sem_value := (sem_value s)(psema := sem_value s psema + 1)\<rparr>;
     ASSERT (sem_value s psema = 1);
     Some (snd (intr_set_status old_status s))
   }"

section \<open>Locks\<close>

definition lock_sema :: "addr \<Rightarrow> addr" where "lock_sema plock = plock + 4"

definition lock_init :: "addr \<Rightarrow> 'a kstate_scheme \<Rightarrow> 'a kstate_scheme" where
  "lock_init plock s = sema_init (lock_sema plock) 1
     (s\<lparr>lock_owner := (lock_owner s)(plock := NULL), holder_repeat_nr := (holder_repeat_nr s)(plock := 0)\<rparr>)"

definition lock_acquire :: "addr \<Rightarrow> 'a kstate_scheme \<Rightarrow> 'a kstate_scheme option" where
  "lock_acquire plock s =
     (if lock_owner s plock \<noteq> running_thread s
      then sema_down (lock_sema plock) (push_kont (running_thread s) (Acquire_holder plock) s)
      else Some (s\<lparr>holder_repeat_nr := (holder_repeat_nr s)(plock := holder_repeat_nr s plock + 1)\<rparr>))"

definition acquire_holder :: "addr \<Rightarrow> 'a kstate_scheme \<Rightarrow> 'a kstate_scheme option" where
  "acquire_holder plock s = Some (push_kont (running_thread s) (Acquire_repeat plock)
     (s\<lparr>lock_owner := (lock_owner s)(plock := running_thread s)\<rparr>))"

definition acquire_repeat :: "addr \<Rightarrow> 'a kstate_scheme \<Rightarrow> 'a kstate_scheme option" where
  "acquire_repeat plock s = do {
     ASSERT (holder_repeat_nr s plock = 0);
     Some (s\<lparr>holder_repeat_nr := (holder_repeat_nr s)(plock := 1)\<rparr>)
   }"

definition lock_release :: "addr \<Rightarrow> 'a kstate_scheme \<Rightarrow> 'a kstate_scheme option" where
  "lock_release plock s = do {
     ASSERT (lock_owner s plock = running_thread s);
     if 1 < holder_repeat_nr s plock
     then Some (s\<lparr>holder_repeat_nr := (holder_repeat_nr s)(plock := holder_repeat_nr s plock - 1)\<rparr>)
     else do {
       ASSERT (holder_repeat_nr s plock = 1);
       Some (push_kont (running_thread s) (Release_holder plock) s)
     }
   }"

definition release_holder :: "addr \<Rightarrow> 'a kstate_scheme \<Rightarrow> 'a kstate_scheme option" where
  "release_holder plock s = Some (push_kont (running_thread s) (Release_repeat plock)
     (s\<lparr>lock_owner := (lock_owner s)(plock := NULL)\<rparr>))"

definition release_repeat :: "addr \<Rightarrow> 'a kstate_scheme \<Rightarrow> 'a kstate_scheme option" where
  "release_repeat plock s = Some (push_kont (running_thread s) (Release_up plock)
     (s\<lparr>holder_repeat_nr := (holder_repeat_nr s)(plock := 0)\<rparr>))"

section \<open>Running the return points\<close>

fun run_frame :: "frame \<Rightarrow> 'a kstate_scheme \<Rightarrow> 'a kstate_scheme option" where
  "run_frame (Block_ret old_status) s = Some (snd (intr_set_status old_status (sched_return s)))"
| "run_frame (Yield_ret old_status) s = Some (snd (intr_set_status old_status (sched_return s)))"
| "run_frame Timer_ret s = Some (sched_return s)"
| "run_frame (Iret fl) s = Some (s\<lparr>eflags := fl\<rparr>)"
| "run_frame (Start function func_arg) s = Some (snd (intr_enable s))"
| "run_frame (Down_loop psema old_status) s = sema_down_loop psema old_status s"
| "run_frame (Acquire_holder plock) s = acquire_holder plock s"
| "run_frame (Acquire_repeat plock) s = acquire_repeat plock s"
| "run_frame (Release_holder plock) s = release_holder plock s"
| "run_frame (Release_repeat plock) s = release_repeat plock s"
| "run_frame (Release_up plock) s = sema_up (lock_sema plock) s"

definition pop_kont :: "addr \<Rightarrow> 'a kstate_scheme \<Rightarrow> 'a kstate_scheme" where
  "pop_kont t s = s\<lparr>konts := (konts s)(t := tl (konts s t))\<rparr>"

definition resume :: "'a kstate_scheme \<Rightarrow> 'a kstate_scheme option" where
  "resume s = (case konts s (running_thread s) of [] \<Rightarrow> None
     | f # fs \<Rightarrow> run_frame f (pop_kont (running_thread s) s))"

text \<open>
  Tasks \<open>T\<close> use the locks \<open>L\<close>. A task outside every lock operation (\<open>konts\<close> empty) runs code of its
  own; it releases only locks it holds, nests a lock less than \<open>2\<^sup>3\<^sup>2\<close> times, and the idle thread,
  as in \<^verbatim>\<open>idle\<close>, only blocks itself.
\<close>

inductive kstep :: "addr set \<Rightarrow> kstate \<Rightarrow> kstate \<Rightarrow> bool" for L where
  acquire: "konts s (running_thread s) = [] \<Longrightarrow> running_thread s \<noteq> idle_thread s \<Longrightarrow> l \<in> L \<Longrightarrow>
    holder_repeat_nr s l \<noteq> 0xffffffff \<Longrightarrow> lock_acquire l s = Some s' \<Longrightarrow> kstep L s s'"
| release: "konts s (running_thread s) = [] \<Longrightarrow> l \<in> L \<Longrightarrow> lock_owner s l = running_thread s \<Longrightarrow>
    lock_release l s = Some s' \<Longrightarrow> kstep L s s'"
| continue: "resume s = Some s' \<Longrightarrow> kstep L s s'"
| tick: "intr_get_status s = INTR_ON \<Longrightarrow> timer_interrupt s = Some s' \<Longrightarrow> kstep L s s'"
| yield: "konts s (running_thread s) = [] \<Longrightarrow> thread_yield s = Some s' \<Longrightarrow> kstep L s s'"
| idle: "konts s (running_thread s) = [] \<Longrightarrow> running_thread s = idle_thread s \<Longrightarrow>
    thread_block TASK_BLOCKED s = Some s' \<Longrightarrow> kstep L s s'"

section \<open>The invariant of the interleaved system\<close>

text \<open>The return points a task can have, innermost first.\<close>

definition lock_base :: "addr set \<Rightarrow> frame list \<Rightarrow> bool" where
  "lock_base L fs = (fs = [] \<or> (\<exists>l\<in>L. fs \<in> {[Acquire_holder l], [Acquire_repeat l], [Release_holder l],
     [Release_repeat l], [Release_up l]}))"

definition in_down :: "addr \<Rightarrow> frame list \<Rightarrow> bool" where
  "in_down l fs = (\<exists>old. fs = [Down_loop (lock_sema l) old, Acquire_holder l]
     \<or> fs = [Block_ret INTR_OFF, Down_loop (lock_sema l) old, Acquire_holder l])"

definition wf_frames :: "addr set \<Rightarrow> frame list \<Rightarrow> bool" where
  "wf_frames L fs = (lock_base L fs \<or> (\<exists>l\<in>L. in_down l fs) \<or> (\<exists>old. fs = [Block_ret old] \<or> fs = [Yield_ret old])
     \<or> (\<exists>f b. lock_base L b \<and> (fs = Iret f # b \<or> fs = Timer_ret # Iret f # b)) \<or> (\<exists>f a. fs = [Start f a]))"

text \<open>Return points that run with interrupts off, and the pending clean-up after \<^verbatim>\<open>switch_to\<close>.\<close>

fun needs_off :: "frame list \<Rightarrow> bool" where
  "needs_off (f # fs) = (case f of Block_ret _ \<Rightarrow> True | Yield_ret _ \<Rightarrow> True | Timer_ret \<Rightarrow> True | Iret _ \<Rightarrow> True
     | Start _ _ \<Rightarrow> True | Down_loop _ _ \<Rightarrow> True | _ \<Rightarrow> False)"
| "needs_off [] = False"

fun pending :: "frame list \<Rightarrow> u32" where
  "pending (f # fs) = (case f of Block_ret _ \<Rightarrow> 8 | Yield_ret _ \<Rightarrow> 8 | Timer_ret \<Rightarrow> 8 | _ \<Rightarrow> 0)"
| "pending [] = 0"

definition stack_ok :: "kstate \<Rightarrow> addr \<Rightarrow> bool" where
  "stack_ok s t = (let e = esp_of s t
     in e AND 0xfffff000 = t \<and> (e + pending (konts s t)) AND 0xfffff000 = t
        \<and> (e + pending (konts s t) - 8) AND 0xfffff000 = t)"

text \<open>A lock is free, or exactly one task is between its \<^verbatim>\<open>sema_down\<close> and its \<^verbatim>\<open>sema_up\<close>.\<close>

definition lock_frames :: "addr \<Rightarrow> frame list \<Rightarrow> frame list" where
  "lock_frames l fs = (if in_down l fs then [] else filter (\<lambda>f. f \<in> {Acquire_holder l, Acquire_repeat l,
     Release_holder l, Release_repeat l, Release_up l}) fs)"

definition lock_free :: "kstate \<Rightarrow> addr \<Rightarrow> bool" where
  "lock_free s l = (sem_value s (lock_sema l) = 1 \<and> lock_owner s l = NULL \<and> holder_repeat_nr s l = 0
     \<and> (\<forall>t. lock_frames l (konts s t) = []))"

definition lock_busy :: "kstate \<Rightarrow> addr \<Rightarrow> addr \<Rightarrow> bool" where
  "lock_busy s l t = (sem_value s (lock_sema l) = 0 \<and> t \<noteq> NULL \<and> (\<forall>u. u \<noteq> t \<longrightarrow> lock_frames l (konts s u) = [])
     \<and> (let fs = lock_frames l (konts s t); h = lock_owner s l; n = holder_repeat_nr s l
        in fs = [] \<and> h = t \<and> n \<noteq> 0
         \<or> fs = [Acquire_holder l] \<and> h = NULL \<and> n = 0 \<or> fs = [Acquire_repeat l] \<and> h = t \<and> n = 0
         \<or> fs = [Release_holder l] \<and> h = t \<and> n = 1 \<or> fs = [Release_repeat l] \<and> h = NULL \<and> n = 1
         \<or> fs = [Release_up l] \<and> h = NULL \<and> n = 0))"

definition lock_inv :: "kstate \<Rightarrow> addr \<Rightarrow> bool" where
  "lock_inv s l = (lock_free s l \<or> (\<exists>t. lock_busy s l t))"

definition wait_list :: "addr \<Rightarrow> addr" where "wait_list l = waiters (lock_sema l)"

definition queue_addrs :: "addr set \<Rightarrow> kstate \<Rightarrow> addr set" where
  "queue_addrs L s = insert (thread_ready_list s) (wait_list ` L)"

text \<open>Where a task is that does not run.\<close>

definition placed :: "addr set \<Rightarrow> kstate \<Rightarrow> (addr \<Rightarrow> addr list) \<Rightarrow> addr \<Rightarrow> bool" where
  "placed L s W t = (t \<in> set (W (thread_ready_list s))
     \<or> t = idle_thread s \<and> status (task s t) = TASK_BLOCKED \<and> (\<forall>k\<in>queue_addrs L s. t \<notin> set (W k))
         \<and> (\<exists>old. konts s t = [Block_ret old])
     \<or> t \<noteq> idle_thread s \<and> (\<exists>l\<in>L. t \<in> set (W (wait_list l))
         \<and> (\<exists>old. konts s t = [Block_ret INTR_OFF, Down_loop (lock_sema l) old, Acquire_holder l])))"

definition sys_inv :: "addr set \<Rightarrow> addr set \<Rightarrow> kstate \<Rightarrow> (addr \<Rightarrow> addr list) \<Rightarrow> bool" where
  "sys_inv T L s W =
     (sched_inv s T (queue_addrs L s) W \<and> thread_ready_list s \<notin> wait_list ` L
      \<and> (\<forall>t\<in>T. t \<noteq> NULL \<and> pgdir (task s t) = NULL \<and> stack_magic (task s t) = 0x20021225)
      \<and> (\<forall>t. wf_frames L (konts s t) \<and> (t \<notin> T \<longrightarrow> konts s t = []))
      \<and> (needs_off (konts s (running_thread s)) \<longrightarrow> intr_get_status s = INTR_OFF)
      \<and> (\<forall>t\<in>T. stack_ok s t) \<and> (\<forall>l\<in>L. lock_inv s l)
      \<and> (\<forall>t\<in>T. t \<noteq> running_thread s \<longrightarrow> placed L s W t)
      \<and> (\<forall>l. \<not> in_down l (konts s (idle_thread s)))
      \<and> (\<forall>l\<in>L. sem_value s (lock_sema l) = 1 \<and> W (wait_list l) \<noteq> [] \<longrightarrow>
           (\<exists>t\<in>insert (running_thread s) (set (W (thread_ready_list s))). in_down l (konts s t))))"

subsection \<open>Return points\<close>

lemma lock_sema_inj [simp]: "(lock_sema l = lock_sema k) = (l = k)"
  by (simp add: lock_sema_def)

lemma in_down_simps [simp]:
  "\<not> in_down l []" "\<not> in_down l [f]" "\<not> in_down l (Iret x # fs)" "\<not> in_down l (Timer_ret # fs)"
  "in_down l [Down_loop p old, Acquire_holder k] = (p = lock_sema l \<and> k = l)"
  "in_down l [Block_ret st, Down_loop p old, Acquire_holder k] = (st = INTR_OFF \<and> p = lock_sema l \<and> k = l)"
  by (auto simp: in_down_def)

lemma lock_base_not_down: "lock_base L b \<Longrightarrow> \<not> in_down l b"
  by (auto simp: lock_base_def)

lemma lock_frames_simps [simp]:
  "lock_frames l [] = []" "lock_frames l [Block_ret o1] = []" "lock_frames l [Yield_ret o1] = []"
  "lock_frames l [Start g a] = []"
  "lock_frames l [Acquire_holder k] = (if k = l then [Acquire_holder k] else [])"
  "lock_frames l [Acquire_repeat k] = (if k = l then [Acquire_repeat k] else [])"
  "lock_frames l [Release_holder k] = (if k = l then [Release_holder k] else [])"
  "lock_frames l [Release_repeat k] = (if k = l then [Release_repeat k] else [])"
  "lock_frames l [Release_up k] = (if k = l then [Release_up k] else [])"
  "lock_frames l [Down_loop (lock_sema k) old, Acquire_holder k] = []"
  "lock_frames l [Block_ret INTR_OFF, Down_loop (lock_sema k) old, Acquire_holder k] = []"
  by (auto simp: lock_frames_def)

lemma lock_frames_intr [simp]:
  assumes "lock_base L b"
  shows "lock_frames l (Iret x # b) = lock_frames l b" "lock_frames l (Timer_ret # Iret x # b) = lock_frames l b"
  using lock_base_not_down [OF assms, of l] by (simp_all add: lock_frames_def)

lemma lock_inv_cong:
  assumes "sem_value s' (lock_sema l) = sem_value s (lock_sema l)" and "lock_owner s' l = lock_owner s l"
    and "holder_repeat_nr s' l = holder_repeat_nr s l"
    and "\<And>t. lock_frames l (konts s' t) = lock_frames l (konts s t)"
  shows "lock_inv s' l = lock_inv s l"
  using assms by (simp add: lock_inv_def lock_free_def lock_busy_def)

lemma frames_busy:
  assumes "lock_inv s l" and "lock_frames l (konts s t) \<noteq> []"
  shows "lock_busy s l t"
proof -
  from assms obtain u where u: "lock_busy s l u" by (auto simp: lock_inv_def lock_free_def)
  then have "u = t" using assms(2) by (auto simp: lock_busy_def)
  then show ?thesis using u by simp
qed

lemma wf_frames_cases:
  assumes "wf_frames L (f # fs)"
  obtains (ah) l where "l \<in> L" "f = Acquire_holder l" "fs = []"
  | (ar) l where "l \<in> L" "f = Acquire_repeat l" "fs = []"
  | (rh) l where "l \<in> L" "f = Release_holder l" "fs = []"
  | (rr) l where "l \<in> L" "f = Release_repeat l" "fs = []"
  | (ru) l where "l \<in> L" "f = Release_up l" "fs = []"
  | (down) l old where "l \<in> L" "f = Down_loop (lock_sema l) old" "fs = [Acquire_holder l]"
  | (blkd) l old where "l \<in> L" "f = Block_ret INTR_OFF" "fs = [Down_loop (lock_sema l) old, Acquire_holder l]"
  | (blk) old where "f = Block_ret old" "fs = []"
  | (yld) old where "f = Yield_ret old" "fs = []"
  | (iret) x where "f = Iret x" "lock_base L fs"
  | (tmr) x b where "f = Timer_ret" "fs = Iret x # b" "lock_base L b"
  | (strt) g a where "f = Start g a" "fs = []"
  using assms unfolding wf_frames_def lock_base_def in_down_def by auto

lemma wf_framesI:
  "wf_frames L []" "l \<in> L \<Longrightarrow> wf_frames L [Acquire_holder l]" "l \<in> L \<Longrightarrow> wf_frames L [Acquire_repeat l]"
  "l \<in> L \<Longrightarrow> wf_frames L [Release_holder l]" "l \<in> L \<Longrightarrow> wf_frames L [Release_repeat l]"
  "l \<in> L \<Longrightarrow> wf_frames L [Release_up l]" "lock_base L b \<Longrightarrow> wf_frames L b"
  "l \<in> L \<Longrightarrow> wf_frames L [Down_loop (lock_sema l) old, Acquire_holder l]"
  "l \<in> L \<Longrightarrow> wf_frames L [Block_ret INTR_OFF, Down_loop (lock_sema l) old, Acquire_holder l]"
  "wf_frames L [Block_ret old]" "wf_frames L [Yield_ret old]"
  "lock_base L b \<Longrightarrow> wf_frames L (Iret x # b)" "lock_base L b \<Longrightarrow> wf_frames L (Timer_ret # Iret x # b)"
  by (auto simp: wf_frames_def lock_base_def)

lemma wf_frames_on: "wf_frames L fs \<Longrightarrow> \<not> needs_off fs \<Longrightarrow> lock_base L fs"
  by (auto simp: wf_frames_def in_down_def)

subsection \<open>Steps that switch no task\<close>

lemma sched_inv_cong:
  assumes "sched_inv s T A W" and "lnext s' = lnext s" and "lprev s' = lprev s"
    and "thread_ready_list s' = thread_ready_list s" and "idle_thread s' = idle_thread s"
    and "running_thread s' = running_thread s" and "\<And>t. status (task s' t) = status (task s t)"
    and "\<And>t. self_kstack (task s' t) = self_kstack (task s t)"
  shows "sched_inv s' T A W"
  using assms tq_cong [of s T A W s'] by (simp add: sched_inv_def sched_core_def)

lemma sys_inv_parts:
  assumes "sys_inv T L s W"
  shows "sched_inv s T (queue_addrs L s) W" "thread_ready_list s \<notin> wait_list ` L"
    "\<And>t. t \<in> T \<Longrightarrow> t \<noteq> NULL" "\<And>t. t \<in> T \<Longrightarrow> pgdir (task s t) = NULL" "\<And>t. t \<in> T \<Longrightarrow> stack_magic (task s t) = 0x20021225"
    "\<And>t. wf_frames L (konts s t)" "\<And>t. t \<notin> T \<Longrightarrow> konts s t = []"
    "needs_off (konts s (running_thread s)) \<Longrightarrow> intr_get_status s = INTR_OFF"
    "\<And>t. t \<in> T \<Longrightarrow> stack_ok s t" "\<And>l. l \<in> L \<Longrightarrow> lock_inv s l"
    "\<And>t. t \<in> T \<Longrightarrow> t \<noteq> running_thread s \<Longrightarrow> placed L s W t"
    "\<And>l. \<not> in_down l (konts s (idle_thread s))"
    "\<And>l. l \<in> L \<Longrightarrow> sem_value s (lock_sema l) = 1 \<Longrightarrow> W (wait_list l) \<noteq> [] \<Longrightarrow>
           \<exists>t\<in>insert (running_thread s) (set (W (thread_ready_list s))). in_down l (konts s t)"
  using assms by (simp_all add: sys_inv_def)

lemma running_in_T: "sys_inv T L s W \<Longrightarrow> running_thread s \<in> T"
  by (simp add: sys_inv_def sched_inv_def sched_core_def)

lemma quiet_step:
  assumes inv: "sys_inv T L s W" and c: "c = running_thread s"
    and same: "lnext s' = lnext s" "lprev s' = lprev s" "thread_ready_list s' = thread_ready_list s"
      "idle_thread s' = idle_thread s"
    and tk: "\<And>t. status (task s' t) = status (task s t)" "\<And>t. self_kstack (task s' t) = self_kstack (task s t)"
      "\<And>t. pgdir (task s' t) = pgdir (task s t)" "\<And>t. stack_magic (task s' t) = stack_magic (task s t)"
    and k: "konts s' = (konts s)(c := fs)" and wf: "wf_frames L fs"
    and off: "needs_off fs \<Longrightarrow> intr_get_status s' = INTR_OFF"
    and e: "esp s' + pending fs = esp s + pending (konts s c)" and run: "running_thread s' = c"
    and lk: "\<And>l. l \<in> L \<Longrightarrow> lock_inv s' l" and idl: "\<And>l. in_down l fs \<Longrightarrow> in_down l (konts s c)"
    and wk: "\<And>l. l \<in> L \<Longrightarrow> sem_value s' (lock_sema l) = 1 \<Longrightarrow> W (wait_list l) \<noteq> [] \<Longrightarrow>
       sem_value s (lock_sema l) = 1 \<and> (in_down l (konts s c) \<longrightarrow> in_down l fs)"
  shows "sys_inv T L s' W"
proof -
  note i = sys_inv_parts [OF inv]
  have cT: "c \<in> T" using running_in_T [OF inv] c by simp
  have A: "queue_addrs L s' = queue_addrs L s" by (simp add: queue_addrs_def same)
  have "sched_inv s' T (queue_addrs L s') W"
    unfolding A by (rule sched_inv_cong [OF i(1)]) (simp_all add: same tk run c)
  moreover have "wf_frames L (konts s' t) \<and> (t \<notin> T \<longrightarrow> konts s' t = [])" for t
    using i(6,7) wf cT by (auto simp: k)
  moreover have "stack_ok s' t" if "t \<in> T" for t
  proof (cases "t = c")
    case True
    have "esp s' AND 0xfffff000 = c" using run by (simp add: running_thread_def)
    then show ?thesis using i(9) [OF that] True e run by (auto simp: stack_ok_def Let_def esp_of_def k c)
  next
    case False
    then show ?thesis using i(9) [OF that] run tk(2) by (simp add: stack_ok_def Let_def esp_of_def k c)
  qed
  moreover have "placed L s' W t" if "t \<in> T" "t \<noteq> running_thread s'" for t
    using i(11) [OF that(1)] that(2) run c by (simp add: placed_def same tk A k)
  moreover have "\<not> in_down l (konts s' (idle_thread s'))" for l
    using i(12) idl by (auto simp: k same)
  moreover have "\<exists>t\<in>insert (running_thread s') (set (W (thread_ready_list s'))). in_down l (konts s' t)"
    if "l \<in> L" "sem_value s' (lock_sema l) = 1" "W (wait_list l) \<noteq> []" for l
  proof -
    from wk [OF that] i(13) [OF that(1) _ that(3)] obtain t where
      "t \<in> insert c (set (W (thread_ready_list s)))" "in_down l (konts s t)" "in_down l (konts s c) \<longrightarrow> in_down l fs"
      by (auto simp: c)
    then show ?thesis by (auto simp: k same run)
  qed
  ultimately show ?thesis using i(2-5) lk off run same by (simp add: sys_inv_def tk k)
qed

text \<open>One task moves on at lock \<open>l\<close>; the other locks do not see it.\<close>

lemma locks_after:
  assumes inv: "sys_inv T L s W" and k: "konts s' = (konts s)(c := fs)"
    and here: "lock_inv s' l"
    and other: "\<And>m. m \<noteq> l \<Longrightarrow> sem_value s' (lock_sema m) = sem_value s (lock_sema m)"
      "\<And>m. m \<noteq> l \<Longrightarrow> lock_owner s' m = lock_owner s m" "\<And>m. m \<noteq> l \<Longrightarrow> holder_repeat_nr s' m = holder_repeat_nr s m"
      "\<And>m. m \<noteq> l \<Longrightarrow> lock_frames m fs = lock_frames m (konts s c)"
    and m: "m \<in> L"
  shows "lock_inv s' m"
proof (cases "m = l")
  case False
  then have "lock_inv s' m = lock_inv s m" by (intro lock_inv_cong) (simp_all add: other k)
  then show ?thesis using sys_inv_parts(10) [OF inv m] by simp
qed (use here in simp)

lemma locks_same:
  assumes inv: "sys_inv T L s W" and k: "konts s' = (konts s)(c := fs)"
    and "sem_value s' = sem_value s" "lock_owner s' = lock_owner s" "holder_repeat_nr s' = holder_repeat_nr s"
    and "\<And>m. lock_frames m fs = lock_frames m (konts s c)" and m: "m \<in> L"
  shows "lock_inv s' m"
proof -
  have "lock_inv s' m = lock_inv s m" by (rule lock_inv_cong) (simp_all add: assms)
  then show ?thesis using sys_inv_parts(10) [OF inv m] by simp
qed

lemma busy_after:
  assumes b: "lock_busy s l c" and k: "konts s' = (konts s)(c := fs)" and v: "sem_value s' (lock_sema l) = 0"
    and f: "lock_frames l fs = g"
    and ph: "g = [] \<and> lock_owner s' l = c \<and> holder_repeat_nr s' l \<noteq> 0
         \<or> g = [Acquire_holder l] \<and> lock_owner s' l = NULL \<and> holder_repeat_nr s' l = 0
         \<or> g = [Acquire_repeat l] \<and> lock_owner s' l = c \<and> holder_repeat_nr s' l = 0
         \<or> g = [Release_holder l] \<and> lock_owner s' l = c \<and> holder_repeat_nr s' l = 1
         \<or> g = [Release_repeat l] \<and> lock_owner s' l = NULL \<and> holder_repeat_nr s' l = 1
         \<or> g = [Release_up l] \<and> lock_owner s' l = NULL \<and> holder_repeat_nr s' l = 0"
  shows "lock_inv s' l"
proof -
  have "lock_busy s' l c" using b v ph unfolding lock_busy_def k by (simp add: f Let_def)
  then show ?thesis by (auto simp: lock_inv_def)
qed

lemma busy_phase:
  assumes "sys_inv T L s W" and "l \<in> L" and "lock_frames l (konts s c) = [f]"
  shows "lock_busy s l c" "sem_value s (lock_sema l) = 0"
    "f = Acquire_holder l \<Longrightarrow> lock_owner s l = NULL \<and> holder_repeat_nr s l = 0"
    "f = Acquire_repeat l \<Longrightarrow> lock_owner s l = c \<and> holder_repeat_nr s l = 0"
    "f = Release_holder l \<Longrightarrow> lock_owner s l = c \<and> holder_repeat_nr s l = 1"
    "f = Release_repeat l \<Longrightarrow> lock_owner s l = NULL \<and> holder_repeat_nr s l = 1"
    "f = Release_up l \<Longrightarrow> lock_owner s l = NULL \<and> holder_repeat_nr s l = 0"
proof -
  show b: "lock_busy s l c" using frames_busy [OF sys_inv_parts(10) [OF assms(1,2)]] assms(3) by simp
  show "sem_value s (lock_sema l) = 0"
    "f = Acquire_holder l \<Longrightarrow> lock_owner s l = NULL \<and> holder_repeat_nr s l = 0"
    "f = Acquire_repeat l \<Longrightarrow> lock_owner s l = c \<and> holder_repeat_nr s l = 0"
    "f = Release_holder l \<Longrightarrow> lock_owner s l = c \<and> holder_repeat_nr s l = 1"
    "f = Release_repeat l \<Longrightarrow> lock_owner s l = NULL \<and> holder_repeat_nr s l = 1"
    "f = Release_up l \<Longrightarrow> lock_owner s l = NULL \<and> holder_repeat_nr s l = 0"
    using b assms(3) by (simp_all add: lock_busy_def Let_def)
qed

lemma push_kont_fields [simp]:
  "lnext (push_kont t f s) = lnext s" "lprev (push_kont t f s) = lprev s" "task (push_kont t f s) = task s"
  "esp (push_kont t f s) = esp s" "eflags (push_kont t f s) = eflags s" "running_thread (push_kont t f s) = running_thread s"
  "thread_ready_list (push_kont t f s) = thread_ready_list s" "idle_thread (push_kont t f s) = idle_thread s"
  "sem_value (push_kont t f s) = sem_value s" "lock_owner (push_kont t f s) = lock_owner s"
  "holder_repeat_nr (push_kont t f s) = holder_repeat_nr s" "konts (push_kont t f s) = (konts s)(t := f # konts s t)"
  "intr_get_status (push_kont t f s) = intr_get_status s" "phys (push_kont t f s) = phys s" "cr3 (push_kont t f s) = cr3 s"
  "ticks_total (push_kont t f s) = ticks_total s" "main_thread (push_kont t f s) = main_thread s"
  "thread_all_list (push_kont t f s) = thread_all_list s" "tss_seg (push_kont t f s) = tss_seg s"
  by (simp_all add: push_kont_def running_thread_def intr_get_status_def)

lemma pop_kont_fields [simp]:
  "lnext (pop_kont t s) = lnext s" "lprev (pop_kont t s) = lprev s" "task (pop_kont t s) = task s"
  "esp (pop_kont t s) = esp s" "eflags (pop_kont t s) = eflags s" "running_thread (pop_kont t s) = running_thread s"
  "thread_ready_list (pop_kont t s) = thread_ready_list s" "idle_thread (pop_kont t s) = idle_thread s"
  "sem_value (pop_kont t s) = sem_value s" "lock_owner (pop_kont t s) = lock_owner s"
  "holder_repeat_nr (pop_kont t s) = holder_repeat_nr s" "konts (pop_kont t s) = (konts s)(t := tl (konts s t))"
  "intr_get_status (pop_kont t s) = intr_get_status s" "phys (pop_kont t s) = phys s" "cr3 (pop_kont t s) = cr3 s"
  by (simp_all add: pop_kont_def running_thread_def intr_get_status_def)

text \<open>The four statements of \<^verbatim>\<open>lock_acquire\<close> and \<^verbatim>\<open>lock_release\<close> outside the semaphore.\<close>

lemma resume_lock_frame:
  assumes inv: "sys_inv T L s W" and l: "l \<in> L" and c: "c = running_thread s" and k: "konts s c = [f]"
    and f: "f \<in> {Acquire_holder l, Acquire_repeat l, Release_holder l, Release_repeat l}"
  shows "\<exists>s'. resume s = Some s' \<and> sys_inv T L s' W"
proof -
  have lf: "lock_frames l (konts s c) = [f]" using f k by auto
  note ph = busy_phase [OF inv l lf]
  have run: "resume s = run_frame f (pop_kont c s)" using k by (simp add: resume_def c)
  define s' where "s' = the (run_frame f (pop_kont c s))"
  define g where "g = (case f of Acquire_holder _ \<Rightarrow> [Acquire_repeat l] | Release_holder _ \<Rightarrow> [Release_repeat l]
     | Release_repeat _ \<Rightarrow> [Release_up l] | _ \<Rightarrow> [])"
  have r: "run_frame f (pop_kont c s) = Some s'"
    using f ph by (auto simp: s'_def acquire_holder_def acquire_repeat_def release_holder_def release_repeat_def)
  have fields: "lnext s' = lnext s" "lprev s' = lprev s" "task s' = task s" "esp s' = esp s"
    "thread_ready_list s' = thread_ready_list s" "idle_thread s' = idle_thread s" "sem_value s' = sem_value s"
    "running_thread s' = running_thread s" "eflags s' = eflags s" "konts s' = (konts s)(c := g)"
    and other: "\<And>m. m \<noteq> l \<Longrightarrow> lock_owner s' m = lock_owner s m" "\<And>m. m \<noteq> l \<Longrightarrow> holder_repeat_nr s' m = holder_repeat_nr s m"
    using f ph k c by (auto simp: s'_def g_def acquire_holder_def acquire_repeat_def release_holder_def
        release_repeat_def running_thread_def)
  have v: "sem_value s' (lock_sema l) = 0" using ph(2) fields(7) by simp
  have own: "lock_owner s' l = (if f = Acquire_holder l then c else if f = Release_holder l then NULL else lock_owner s l)"
    "holder_repeat_nr s' l = (if f = Acquire_repeat l then 1 else if f = Release_repeat l then 0 else holder_repeat_nr s l)"
    using f ph c by (auto simp: s'_def acquire_holder_def acquire_repeat_def release_holder_def release_repeat_def)
  have here: "lock_inv s' l"
    by (rule busy_after [OF ph(1) fields(10) v refl]) (use f ph in \<open>elim insertE; simp add: own g_def\<close>)
  have "lock_inv s' m" if "m \<in> L" for m
    by (rule locks_after [OF inv fields(10) here]) (use f k that in \<open>auto simp: fields other g_def\<close>)
  moreover have "wf_frames L g" "\<not> needs_off g" "pending g = 0" "\<And>m. \<not> in_down m g" "pending (konts s c) = 0"
    "\<And>m. \<not> in_down m (konts s c)"
    using f l k by (auto simp: g_def intro: wf_framesI)
  ultimately have "sys_inv T L s' W"
    by (intro quiet_step [OF inv c, of s' g]) (simp_all add: fields c)
  then show ?thesis using run r by simp
qed

lemma lock_base_props: "lock_base L b \<Longrightarrow> \<not> needs_off b" "lock_base L b \<Longrightarrow> pending b = 0"
  by (auto simp: lock_base_def)

lemma stack_ok_running:
  assumes "sys_inv T L s W" and "c = running_thread s"
  shows "(esp s + pending (konts s c)) AND 0xfffff000 = c" "(esp s + pending (konts s c) - 8) AND 0xfffff000 = c"
  using sys_inv_parts(9) [OF assms(1) running_in_T [OF assms(1)]] assms(2)
  by (simp_all add: stack_ok_def Let_def esp_of_def)

text \<open>The return points that only restore the stack pointer and the flags.\<close>

lemma resume_return:
  assumes inv: "sys_inv T L s W" and c: "c = running_thread s" and k: "konts s c = f # fs"
    and f: "(\<exists>st. f = Block_ret st) \<or> (\<exists>st. f = Yield_ret st) \<or> f = Timer_ret \<or> (\<exists>x. f = Iret x) \<or> (\<exists>g a. f = Start g a)"
  shows "\<exists>s'. resume s = Some s' \<and> sys_inv T L s' W"
proof -
  define s' where "s' = the (run_frame f (pop_kont c s))"
  have wf: "wf_frames L (f # fs)" using sys_inv_parts(6) [OF inv, of c] k by simp
  have off: "intr_get_status s = INTR_OFF" using sys_inv_parts(8) [OF inv] k f c by auto
  have run: "resume s = Some s'" using k f by (auto simp: resume_def c s'_def)
  have fields: "lnext s' = lnext s" "lprev s' = lprev s" "task s' = task s" "esp s' = esp s + pending (konts s c)"
    "thread_ready_list s' = thread_ready_list s" "idle_thread s' = idle_thread s" "sem_value s' = sem_value s"
    "lock_owner s' = lock_owner s" "holder_repeat_nr s' = holder_repeat_nr s" "konts s' = (konts s)(c := fs)"
    using f k by (auto simp: s'_def sched_return_def intr_set_status_upd intr_enable_upd)
  have flags: "eflags s' = (case f of Block_ret st \<Rightarrow> (if st = INTR_ON then eflags s OR EFLAGS_IF else eflags s AND NOT EFLAGS_IF)
      | Timer_ret \<Rightarrow> eflags s | _ \<Rightarrow> eflags s')"
    using f by (auto simp: s'_def sched_return_def intr_set_status_upd split: frame.splits)
  have fr: "wf_frames L fs" "pending fs = 0" "\<And>m. lock_frames m fs = lock_frames m (konts s c)"
    "\<And>m. in_down m fs = in_down m (konts s c)"
    using wf f unfolding k by (cases rule: wf_frames_cases; auto intro: wf_framesI dest: lock_base_props lock_base_not_down)+
  have on: "intr_get_status s' = INTR_OFF" if "needs_off fs"
    using wf
  proof (cases rule: wf_frames_cases)
    case (blkd l old)
    then have "eflags s' = eflags s AND NOT EFLAGS_IF" using flags by simp
    then show ?thesis using intr_get_status_off [of "eflags s" s'] by (simp add: intr_get_status_def)
  next
    case (tmr x b)
    then show ?thesis using flags off by (simp add: intr_get_status_def)
  qed (use that f lock_base_props in auto)
  have "running_thread s' = c" using stack_ok_running(1) [OF inv c] by (simp add: running_thread_def fields)
  then have "sys_inv T L s' W"
    by (intro quiet_step [OF inv c, of s' fs])
      (use fr on locks_same [OF inv fields(10,7,8,9)] in \<open>simp_all add: fields c\<close>)
  then show ?thesis using run by simp
qed

text \<open>Taking a semaphore whose value is not 0.\<close>

lemma lock_value: "sys_inv T L s W \<Longrightarrow> l \<in> L \<Longrightarrow> sem_value s (lock_sema l) \<noteq> 0 \<Longrightarrow> lock_free s l"
  using sys_inv_parts(10) [of T L s W l] by (auto simp: lock_inv_def lock_busy_def)

lemma down_free:
  assumes inv: "sys_inv T L s W" and l: "l \<in> L" and c: "c = running_thread s"
    and v: "sem_value s (lock_sema l) \<noteq> 0" and fl: "\<And>m. lock_frames m (konts s c) = []"
    and wk: "\<And>m. m \<noteq> l \<Longrightarrow> \<not> in_down m (konts s c)" and p: "pending (konts s c) = 0"
    and s1: "s1 = s\<lparr>konts := (konts s)(c := [Acquire_holder l]), eflags := fl1\<rparr>"
  shows "\<exists>s'. sema_down_loop (lock_sema l) old s1 = Some s' \<and> sys_inv T L s' W"
proof -
  have free: "lock_free s l" using lock_value [OF inv l v] .
  define s' where "s' = snd (intr_set_status old (s1\<lparr>sem_value := (sem_value s)(lock_sema l := 0)\<rparr>))"
  have r: "sema_down_loop (lock_sema l) old s1 = Some s'"
    using free by (simp add: sema_down_loop_def s'_def s1 lock_free_def)
  have fields: "lnext s' = lnext s" "lprev s' = lprev s" "task s' = task s" "esp s' = esp s"
    "thread_ready_list s' = thread_ready_list s" "idle_thread s' = idle_thread s"
    "sem_value s' = (sem_value s)(lock_sema l := 0)" "lock_owner s' = lock_owner s"
    "holder_repeat_nr s' = holder_repeat_nr s" "konts s' = (konts s)(c := [Acquire_holder l])"
    by (simp_all add: s'_def s1 intr_set_status_upd)
  have "c \<noteq> NULL" using sys_inv_parts(3) [OF inv running_in_T [OF inv]] c by simp
  then have "lock_busy s' l c" using free by (simp add: lock_busy_def lock_free_def fields Let_def)
  then have here: "lock_inv s' l" by (auto simp: lock_inv_def)
  have "lock_inv s' m" if "m \<in> L" for m
    by (rule locks_after [OF inv fields(10) here]) (use fl that in \<open>auto simp: fields\<close>)
  moreover have "running_thread s' = c" by (simp add: running_thread_def fields c)
  ultimately have "sys_inv T L s' W"
    by (intro quiet_step [OF inv c, of s' "[Acquire_holder l]"])
      (use l wk p in \<open>auto simp: fields c intro: wf_framesI split: if_split_asm\<close>)
  then show ?thesis using r by blast
qed

subsection \<open>Steps that switch to another task\<close>

lemma switch_step:
  assumes inv: "sys_inv T L s W" and c: "c = running_thread s" and p0: "pending (konts s c) = 0"
    and same: "thread_ready_list s1 = thread_ready_list s" "idle_thread s1 = idle_thread s" "esp s1 = esp s"
      "sem_value s1 = sem_value s" "lock_owner s1 = lock_owner s" "holder_repeat_nr s1 = holder_repeat_nr s"
    and tk: "\<And>t. t \<noteq> c \<Longrightarrow> status (task s1 t) = status (task s t)"
      "\<And>t. self_kstack (task s1 t) = self_kstack (task s t)"
      "\<And>t. pgdir (task s1 t) = pgdir (task s t)" "\<And>t. stack_magic (task s1 t) = stack_magic (task s t)"
    and k: "konts s1 = (konts s)(c := fs)" and wf: "wf_frames L fs" and p8: "pending fs = 8"
    and lf: "\<And>m. lock_frames m fs = lock_frames m (konts s c)"
    and off: "intr_get_status s1 = INTR_OFF" and sw: "switched s1 s'"
    and si: "sched_inv s' T (queue_addrs L s) W2" and run: "running_thread s' = n"
    and q1: "\<And>t. t \<in> set (W (thread_ready_list s)) \<Longrightarrow> t = n \<or> t \<in> set (W2 (thread_ready_list s))"
    and q2: "\<And>l. l \<in> L \<Longrightarrow> set (W (wait_list l)) \<subseteq> set (W2 (wait_list l))"
    and q3: "\<And>j. j \<in> queue_addrs L s \<Longrightarrow> set (W2 j) \<subseteq> insert c (set (W j))"
    and pc: "n \<noteq> c \<Longrightarrow> placed L s' W2 c"
    and wk: "\<And>l. l \<in> L \<Longrightarrow> sem_value s (lock_sema l) = 1 \<Longrightarrow> W2 (wait_list l) = W (wait_list l) \<and> \<not> in_down l (konts s c)"
    and idl: "\<And>l. c = idle_thread s \<Longrightarrow> \<not> in_down l fs"
  shows "sys_inv T L s' W2"
proof -
  note i = sys_inv_parts [OF inv]
  have cT: "c \<in> T" using running_in_T [OF inv] c by simp
  have sy: "sync_eq s1 s'" and es: "\<And>t. esp_of s' t = (if t = running_thread s1 then esp s1 - 8 else esp_of s1 t)"
    and pg: "\<And>t. pgdir (task s' t) = pgdir (task s t)" "\<And>t. stack_magic (task s' t) = stack_magic (task s t)"
    and st: "\<And>t. t \<noteq> n \<Longrightarrow> status (task s' t) = (if t = running_thread s1 \<and> status (task s1 t) = TASK_RUNNING then TASK_READY else status (task s1 t))"
    using sw run by (simp_all add: switched_def tk)
  have r1: "running_thread s1 = c" using same c by (simp add: running_thread_def)
  have eo: "esp_of s1 t = esp_of s t" for t using same tk r1 c by (simp add: esp_of_def)
  have f': "thread_ready_list s' = thread_ready_list s" "idle_thread s' = idle_thread s" "sem_value s' = sem_value s"
    "lock_owner s' = lock_owner s" "holder_repeat_nr s' = holder_repeat_nr s" "konts s' = (konts s)(c := fs)"
    "eflags s' = eflags s1" using sy same k by (simp_all add: sync_eq_def)
  have A: "queue_addrs L s' = queue_addrs L s" by (simp add: queue_addrs_def f')
  have "stack_ok s' t" if "t \<in> T" for t
  proof (cases "t = c")
    case True
    have x: "esp s - 8 + 8 = esp s" by simp
    from True show ?thesis using i(9) [OF that] p0 same r1 c
      by (auto simp: stack_ok_def Let_def es f' p8 x) (simp_all add: esp_of_def)
  next
    case False
    then show ?thesis using i(9) [OF that] r1 by (simp add: stack_ok_def Let_def es eo f')
  qed
  moreover have "placed L s' W2 t" if t: "t \<in> T" "t \<noteq> running_thread s'" for t
  proof (cases "t = c")
    case True
    then show ?thesis using pc t(2) run by blast
  next
    case False
    then have "placed L s W t" using i(11) [OF t(1)] c by simp
    moreover have e: "status (task s' t) = status (task s t)" "konts s' t = konts s t"
      using st [of t] t(2) run False r1 tk(1) f' by simp_all
    moreover have "t \<in> set (W2 (thread_ready_list s))" if "t \<in> set (W (thread_ready_list s))"
      using q1 [OF that] t(2) run by simp
    moreover have "\<forall>j\<in>queue_addrs L s. t \<notin> set (W2 j)" if "\<forall>j\<in>queue_addrs L s. t \<notin> set (W j)"
      using q3 that False by blast
    moreover have "t \<in> set (W2 (wait_list l))" if "l \<in> L" "t \<in> set (W (wait_list l))" for l
      using q2 that by blast
    ultimately show ?thesis unfolding placed_def f'(1,2) A by metis
  qed
  moreover have "lock_inv s' m" if "m \<in> L" for m using locks_same [OF inv f'(6,3,4,5) lf that] .
  moreover have "\<not> in_down l (konts s' (idle_thread s'))" for l using i(12) idl by (auto simp: f')
  moreover have "\<exists>t\<in>insert (running_thread s') (set (W2 (thread_ready_list s'))). in_down l (konts s' t)"
    if "l \<in> L" "sem_value s' (lock_sema l) = 1" "W2 (wait_list l) \<noteq> []" for l
  proof -
    have v: "sem_value s (lock_sema l) = 1" using that(2) f' by simp
    from i(13) [OF that(1) v] wk [OF that(1) v] that(3) c obtain t where
      t: "t \<in> set (W (thread_ready_list s))" "in_down l (konts s t)" "t \<noteq> c" by auto
    then show ?thesis using q1 run by (auto simp: f')
  qed
  moreover have "intr_get_status s' = INTR_OFF" using off f' by (simp add: intr_get_status_def)
  moreover have "wf_frames L (konts s' t) \<and> (t \<notin> T \<longrightarrow> konts s' t = [])" for t
    using i(6,7) wf cT by (auto simp: f')
  ultimately show ?thesis using i(2-5) si by (simp add: sys_inv_def f' A pg)
qed

lemma sys_basics:
  assumes inv: "sys_inv T L s W"
  shows "thread_ready_list s \<in> queue_addrs L s" "task_queues s T (queue_addrs L s) W"
    "\<And>k. k \<in> queue_addrs L s \<Longrightarrow> running_thread s \<notin> set (W k)"
    "\<And>l. l \<in> L \<Longrightarrow> wait_list l \<in> queue_addrs L s" "\<And>l. l \<in> L \<Longrightarrow> wait_list l \<noteq> thread_ready_list s"
    "set (W (thread_ready_list s)) \<subseteq> T" "idle_thread s \<in> T" "sched_core s T (queue_addrs L s) W"
proof -
  show r: "thread_ready_list s \<in> queue_addrs L s" "\<And>l. l \<in> L \<Longrightarrow> wait_list l \<in> queue_addrs L s"
    by (simp_all add: queue_addrs_def)
  show core: "sched_core s T (queue_addrs L s) W"
    and "\<And>k. k \<in> queue_addrs L s \<Longrightarrow> running_thread s \<notin> set (W k)"
    using sys_inv_parts(1) [OF inv] by (simp_all add: sched_inv_def)
  show q: "task_queues s T (queue_addrs L s) W" and "idle_thread s \<in> T"
    using sched_core_parts [OF core] by simp_all
  show "set (W (thread_ready_list s)) \<subseteq> T" using tq_sub [OF q r(1)] .
  show "\<And>l. l \<in> L \<Longrightarrow> wait_list l \<noteq> thread_ready_list s" using sys_inv_parts(2) [OF inv] by (metis image_eqI)
qed

lemma sys_activate:
  assumes "sys_inv T L s W" and "t \<in> T" and "pgdir (task s1 t) = pgdir (task s t)"
  shows "can_activate s1 t"
  using sys_inv_parts(3,4) [OF assms(1,2)] assms(3) by (simp add: can_activate_def)

lemma queue_addrs_cong: "thread_ready_list s1 = thread_ready_list s \<Longrightarrow> queue_addrs L s1 = queue_addrs L s"
  by (simp add: queue_addrs_def)

lemma stack_room_cong:
  assumes "sys_inv T L s W" and "pending (konts s (running_thread s)) = 0" and "esp s1 = esp s"
  shows "stack_room s1"
  using stack_ok_running(2) [OF assms(1) refl] assms(2,3) by (simp add: stack_room_def running_thread_def)

text \<open>The clock interrupt.\<close>

lemma tick_step:
  assumes inv: "sys_inv T L s W" and on: "intr_get_status s = INTR_ON"
  shows "\<exists>s' W'. timer_interrupt s = Some s' \<and> sys_inv T L s' W'"
proof -
  define c where "c = running_thread s"
  let ?b = "konts s c" and ?r = "thread_ready_list s"
  note i = sys_inv_parts [OF inv] and b = sys_basics [OF inv]
  have cT: "c \<in> T" using running_in_T [OF inv] by (simp add: c_def)
  have lb: "lock_base L ?b" using i(6,8) on wf_frames_on [of L ?b] by (auto simp: c_def)
  note lbp = lock_base_props [OF lb] lock_base_not_down [OF lb]
  define s0 where "s0 = (upd_task c (\<lambda>t. t\<lparr>elapsed_ticks := elapsed_ticks t + 1\<rparr>)
     (push_kont c (Iret (eflags s)) (s\<lparr>eflags := eflags s AND NOT EFLAGS_IF\<rparr>)))\<lparr>ticks_total := ticks_total s + 1\<rparr>"
  have f0: "lnext s0 = lnext s" "lprev s0 = lprev s" "esp s0 = esp s" "thread_ready_list s0 = ?r"
    "idle_thread s0 = idle_thread s" "sem_value s0 = sem_value s" "lock_owner s0 = lock_owner s"
    "holder_repeat_nr s0 = holder_repeat_nr s" "konts s0 = (konts s)(c := Iret (eflags s) # ?b)"
    "task s0 = (task s)(c := (task s c)\<lparr>elapsed_ticks := elapsed_ticks (task s c) + 1\<rparr>)"
    "eflags s0 = eflags s AND NOT EFLAGS_IF"
    by (simp_all add: s0_def)
  have off0: "intr_get_status s0 = INTR_OFF"
    using intr_get_status_off [of "eflags s" s0] by (simp add: intr_get_status_def f0)
  have r0: "running_thread s0 = c" by (simp add: running_thread_def f0 c_def)
  have h: "timer_interrupt s = (if ticks (task s0 c) = 0 then schedule (push_kont c Timer_ret s0)
      else Some (upd_task c (\<lambda>t. t\<lparr>ticks := ticks t - 1\<rparr>) s0))"
    using i(5) [OF cT] by (simp add: timer_interrupt_def intr_timer_handler_def Let_def s0_def c_def running_thread_def)
  show ?thesis
  proof (cases "ticks (task s0 c) = 0")
    case False
    define s' where "s' = upd_task c (\<lambda>t. t\<lparr>ticks := ticks t - 1\<rparr>) s0"
    have off': "intr_get_status s' = INTR_OFF" using off0 by (simp add: s'_def intr_get_status_def)
    have "sys_inv T L s' W"
      by (rule quiet_step [OF inv c_def, of s' "Iret (eflags s) # ?b"])
        (use off' lb lbp r0 locks_same [OF inv, of s' c "Iret (eflags s) # ?b"] in
          \<open>auto simp: s'_def f0 running_thread_def c_def intro: wf_framesI\<close>)
    then show ?thesis using h False by (auto simp: s'_def)
  next
    case True
    define s1 where "s1 = push_kont c Timer_ret s0"
    have f1: "lnext s1 = lnext s" "lprev s1 = lprev s" "esp s1 = esp s" "thread_ready_list s1 = ?r"
      "idle_thread s1 = idle_thread s" "sem_value s1 = sem_value s" "lock_owner s1 = lock_owner s"
      "holder_repeat_nr s1 = holder_repeat_nr s" "konts s1 = (konts s)(c := Timer_ret # Iret (eflags s) # ?b)"
      "task s1 = task s0" "running_thread s1 = c" "intr_get_status s1 = INTR_OFF"
      using off0 r0 by (simp_all add: s1_def f0)
    have t1: "status (task s1 t) = status (task s t)" "self_kstack (task s1 t) = self_kstack (task s t)"
      "pgdir (task s1 t) = pgdir (task s t)" "stack_magic (task s1 t) = stack_magic (task s t)" for t
      by (simp_all add: f1 f0)
    have si1: "sched_inv s1 T (queue_addrs L s) W"
      by (rule sched_inv_cong [OF i(1)]) (simp_all add: f1(1-5,11) t1 c_def)
    obtain n ts where nx: "W ?r @ [c] = n # ts" by (cases "W ?r") auto
    have "n \<in> set (W ?r @ [c])" using nx by simp
    then have nT: "n \<in> T" using b(6) cT by auto
    have room: "stack_room s1" using stack_room_cong [OF inv _ f1(3)] lbp by (simp add: c_def)
    from schedule_running [OF si1 f1(12) room, of n ts] nx sys_activate [OF inv nT t1(3)] obtain s' where
      s': "schedule s1 = Some s'" "sched_inv s' T (queue_addrs L s) (W(?r := ts))" "running_thread s' = n" "switched s1 s'"
      by (auto simp: f1 t1)
    have q: "set (W ?r) \<union> {c} = insert n (set ts)" using nx by (metis list.simps(15) set_append list.set(1) list.set(2))
    have "sys_inv T L s' (W(?r := ts))"
    proof (rule switch_step [OF inv c_def, of s1 "Timer_ret # Iret (eflags s) # ?b" s' "W(?r := ts)" n])
      show "set ((W(?r := ts)) j) \<subseteq> insert c (set (W j))" for j using q by auto
      show "t = n \<or> t \<in> set ((W(?r := ts)) ?r)" if "t \<in> set (W ?r)" for t using q that by auto
      show "placed L s' (W(?r := ts)) c" if "n \<noteq> c"
        using that q s'(4) f1(4) by (auto simp: placed_def switched_def sync_eq_def)
    qed (use s' f1 t1 lb lbp b(5) in \<open>auto intro: wf_framesI\<close>)
    then show ?thesis using h True s'(1) by (auto simp: s1_def)
  qed
qed

text \<open>Giving the processor up: \<^verbatim>\<open>thread_yield\<close>, and \<^verbatim>\<open>thread_block\<close> in the idle thread.\<close>

lemma yield_step:
  assumes inv: "sys_inv T L s W" and k0: "konts s (running_thread s) = []"
  shows "\<exists>s' W'. thread_yield s = Some s' \<and> sys_inv T L s' W'"
proof -
  define c where "c = running_thread s"
  let ?r = "thread_ready_list s" and ?A = "queue_addrs L s"
  note i = sys_inv_parts [OF inv] and b = sys_basics [OF inv]
  have cT: "c \<in> T" using running_in_T [OF inv] by (simp add: c_def)
  have fc: "\<And>k. k \<in> ?A \<Longrightarrow> c \<notin> set (W k)" using b(3) by (simp add: c_def)
  define s0 where "s0 = s\<lparr>eflags := eflags s AND NOT EFLAGS_IF\<rparr>"
  define s1 where "s1 = push_kont c (Yield_ret (intr_get_status s))
     (upd_task c (\<lambda>t. t\<lparr>status := TASK_READY\<rparr>) (list_append ?r (general_tag c) s0))"
  have q0: "task_queues s0 T ?A W" using b(2) by (rule tq_cong) (simp_all add: s0_def)
  have f1: "esp s1 = esp s" "thread_ready_list s1 = ?r" "idle_thread s1 = idle_thread s" "sem_value s1 = sem_value s"
    "lock_owner s1 = lock_owner s" "holder_repeat_nr s1 = holder_repeat_nr s"
    "konts s1 = (konts s)(c := [Yield_ret (intr_get_status s)])" "eflags s1 = eflags s AND NOT EFLAGS_IF"
    "task s1 = (task s)(c := (task s c)\<lparr>status := TASK_READY\<rparr>)"
    using k0 by (simp_all add: s1_def s0_def c_def)
  have r1: "running_thread s1 = c" by (simp add: running_thread_def f1 c_def)
  have off: "intr_get_status s1 = INTR_OFF"
    using intr_get_status_off [of "eflags s" s1] by (simp add: intr_get_status_def f1)
  have q1: "task_queues s1 T ?A (W(?r := W ?r @ [c]))"
    using tq_append [OF q0 b(1) cT fc] by (rule tq_cong) (simp_all add: s1_def)
  have y: "thread_yield s = schedule s1"
    using tq_find [OF q0 b(1), of c] fc [OF b(1)]
    by (simp add: thread_yield_def split_beta intr_disable_upd s1_def s0_def c_def Let_def)
  have stq: "status (task s1 t) = (if k = ?r then TASK_READY else TASK_BLOCKED)"
    if "k \<in> ?A" "t \<in> set ((W(?r := W ?r @ [c])) k)" for k t
    using that fc sched_core_parts(5) [OF b(8)] b(1) by (cases "k = ?r") (auto simp: f1)
  have ksq: "(self_kstack (task s1 t) + 20) AND 0xfffff000 = t" if "t \<in> T" "t \<noteq> c" for t
    using sched_core_parts(6) [OF b(8), of t] that by (simp add: f1 c_def)
  have core1: "sched_core s1 T ?A (W(?r := W ?r @ [c]))"
    unfolding sched_core_def r1 f1(2,3) using q1 b(1,7) cT stq ksq by simp
  obtain n ts where nx: "W ?r @ [c] = n # ts" by (cases "W ?r") auto
  have "n \<in> set (W ?r @ [c])" using nx by simp
  then have nT: "n \<in> T" using b(6) cT by auto
  have room: "stack_room s1" using stack_room_cong [OF inv _ f1(1)] k0 by simp
  have st: "status (task s1 (running_thread s1)) \<noteq> TASK_RUNNING" by (simp add: r1 f1)
  have act: "can_activate s1 n" by (rule sys_activate [OF inv nT]) (simp add: f1)
  from schedule_blocked [OF core1 off room st _ act, of ts] nx obtain s' where
    s': "schedule s1 = Some s'" "sched_inv s' T ?A (W(?r := ts))" "running_thread s' = n" "switched s1 s'"
    by (auto simp: f1)
  have q: "set (W ?r) \<union> {c} = insert n (set ts)" using nx by (metis list.simps(15) set_append list.set(1) list.set(2))
  have "sys_inv T L s' (W(?r := ts))"
  proof (rule switch_step [OF inv c_def, of s1 "[Yield_ret (intr_get_status s)]" s' "W(?r := ts)" n])
    show "set ((W(?r := ts)) j) \<subseteq> insert c (set (W j))" for j using q by auto
    show "t = n \<or> t \<in> set ((W(?r := ts)) ?r)" if "t \<in> set (W ?r)" for t using q that by auto
    show "placed L s' (W(?r := ts)) c" if "n \<noteq> c"
      using that q s'(4) f1(2) by (auto simp: placed_def switched_def sync_eq_def)
  qed (use s' f1 off k0 b(5) in \<open>auto simp: c_def intro: wf_framesI\<close>)
  then show ?thesis using y s'(1) by auto
qed

lemma idle_step:
  assumes inv: "sys_inv T L s W" and k0: "konts s (running_thread s) = []" and id: "running_thread s = idle_thread s"
  shows "\<exists>s' W'. thread_block TASK_BLOCKED s = Some s' \<and> sys_inv T L s' W'"
proof -
  define c where "c = running_thread s"
  let ?r = "thread_ready_list s" and ?A = "queue_addrs L s"
  note i = sys_inv_parts [OF inv] and b = sys_basics [OF inv]
  have fc: "\<And>k. k \<in> ?A \<Longrightarrow> c \<notin> set (W k)" using b(3) by (simp add: c_def)
  define s1 where "s1 = push_kont c (Block_ret (intr_get_status s))
     (upd_task c (\<lambda>t. t\<lparr>status := TASK_BLOCKED\<rparr>) (s\<lparr>eflags := eflags s AND NOT EFLAGS_IF\<rparr>))"
  have f1: "esp s1 = esp s" "thread_ready_list s1 = ?r" "idle_thread s1 = idle_thread s" "sem_value s1 = sem_value s"
    "lock_owner s1 = lock_owner s" "holder_repeat_nr s1 = holder_repeat_nr s"
    "konts s1 = (konts s)(c := [Block_ret (intr_get_status s)])" "eflags s1 = eflags s AND NOT EFLAGS_IF"
    "task s1 = (task s)(c := (task s c)\<lparr>status := TASK_BLOCKED\<rparr>)"
    using k0 by (simp_all add: s1_def c_def)
  have off: "intr_get_status s1 = INTR_OFF"
    using intr_get_status_off [of "eflags s" s1] by (simp add: intr_get_status_def f1)
  define n where "n = next_task s W"
  have nT: "n \<in> T" using b(6,7) by (auto simp: n_def next_task_def split: list.splits)
  have idp: "idle_parked (upd_task c (\<lambda>t. t\<lparr>status := TASK_BLOCKED\<rparr>) s) ?A W"
    using fc id by (simp add: idle_parked_def c_def)
  have act: "can_activate s n" by (rule sys_activate [OF inv nT refl])
  from thread_block_spec [OF sched_core_mark [OF i(1)] stack_room_cong [OF inv _ refl] _ act [unfolded n_def] idp [unfolded c_def]] k0
  obtain s' where s': "thread_block TASK_BLOCKED s = Some s'" "running_thread s' = n"
    "sched_inv s' T ?A (W(?r := tl (W ?r)))" "switched s1 s'"
    by (auto simp: s1_def c_def n_def)
  have q: "t = n \<or> t \<in> set (tl (W ?r))" if "t \<in> set (W ?r)" for t
    using that by (cases "W ?r") (auto simp: n_def next_task_def)
  have r1: "running_thread s1 = c" by (simp add: running_thread_def f1 c_def)
  have "sys_inv T L s' (W(?r := tl (W ?r)))"
  proof (rule switch_step [OF inv c_def, of s1 "[Block_ret (intr_get_status s)]" s' "W(?r := tl (W ?r))" n])
    show "set ((W(?r := tl (W ?r))) j) \<subseteq> insert c (set (W j))" for j using set_tl_subset [of "W ?r"] by auto
    show "placed L s' (W(?r := tl (W ?r))) c" if "n \<noteq> c"
    proof -
      have "status (task s' c) = TASK_BLOCKED" "idle_thread s' = c" "thread_ready_list s' = ?r" "konts s' c = [Block_ret (intr_get_status s)]"
        using s'(2,4) that r1 id by (simp_all add: switched_def sync_eq_def f1 c_def)
      moreover have "c \<notin> set ((W(?r := tl (W ?r))) k)" if "k \<in> ?A" for k
        using fc [OF that] set_tl_subset [of "W ?r"] by auto
      ultimately show ?thesis by (simp add: placed_def queue_addrs_def)
    qed
  qed (use s' f1 off k0 b(5) q in \<open>auto simp: c_def intro: wf_framesI\<close>)
  then show ?thesis using s'(1) by auto
qed

text \<open>Waiting for a semaphore whose value is 0.\<close>

lemma wait_list_inj [simp]: "(wait_list l = wait_list k) = (l = k)"
  by (simp add: wait_list_def waiters_def lock_sema_def)

lemma down_busy:
  assumes inv: "sys_inv T L s W" and l: "l \<in> L" and c: "c = running_thread s" and ni: "c \<noteq> idle_thread s"
    and v: "sem_value s (lock_sema l) = 0" and fl: "\<And>m. lock_frames m (konts s c) = []"
    and wk: "\<And>m. m \<noteq> l \<Longrightarrow> \<not> in_down m (konts s c)" and p: "pending (konts s c) = 0"
    and s1: "s1 = s\<lparr>konts := (konts s)(c := [Acquire_holder l]), eflags := w AND NOT EFLAGS_IF\<rparr>"
  shows "\<exists>s' W'. sema_down_loop (lock_sema l) old s1 = Some s' \<and> sys_inv T L s' W'"
proof -
  let ?r = "thread_ready_list s" and ?A = "queue_addrs L s"
  let ?W = "W(wait_list l := W (wait_list l) @ [c])"
  let ?fs = "[Block_ret INTR_OFF, Down_loop (lock_sema l) old, Acquire_holder l]"
  note i = sys_inv_parts [OF inv] and b = sys_basics [OF inv]
  have cT: "c \<in> T" using running_in_T [OF inv] c by simp
  have fc: "\<And>k. k \<in> ?A \<Longrightarrow> c \<notin> set (W k)" using b(3) c by simp
  have q1: "task_queues s1 T ?A W" using b(2) by (rule tq_cong) (simp_all add: s1)
  define s2 where "s2 = push_kont c (Down_loop (lock_sema l) old) (list_append (wait_list l) (general_tag c) s1)"
  have f2: "esp s2 = esp s" "thread_ready_list s2 = ?r" "idle_thread s2 = idle_thread s" "sem_value s2 = sem_value s"
    "lock_owner s2 = lock_owner s" "holder_repeat_nr s2 = holder_repeat_nr s" "task s2 = task s"
    "konts s2 = (konts s)(c := [Down_loop (lock_sema l) old, Acquire_holder l])" "eflags s2 = w AND NOT EFLAGS_IF"
    by (simp_all add: s2_def s1)
  have r2: "running_thread s2 = c" by (simp add: running_thread_def f2 c)
  have off2: "intr_get_status s2 = INTR_OFF" using intr_get_status_off [of w s2] by (simp add: intr_get_status_def f2)
  have d: "sema_down_loop (lock_sema l) old s1 = thread_block TASK_BLOCKED s2"
    using tq_find [OF q1 b(4) [OF l], of c] fc [OF b(4) [OF l]] v c
    by (simp add: sema_down_loop_def s2_def wait_list_def s1 running_thread_def Let_def)
  have q2: "task_queues s2 T ?A ?W"
    using tq_append [OF q1 b(4) [OF l] cT fc] by (rule tq_cong) (simp_all add: s2_def)
  have stq: "status (task (upd_task c (\<lambda>t. t\<lparr>status := TASK_BLOCKED\<rparr>) s2) t) = (if k = ?r then TASK_READY else TASK_BLOCKED)"
    if "k \<in> ?A" "t \<in> set (?W k)" for k t
    using that fc sched_core_parts(5) [OF b(8) that(1)] b(5) [OF l] by (cases "k = wait_list l") (auto simp: f2)
  have ksq: "(self_kstack (task (upd_task c (\<lambda>t. t\<lparr>status := TASK_BLOCKED\<rparr>) s2) t) + 20) AND 0xfffff000 = t"
    if "t \<in> T" "t \<noteq> c" for t
    using sched_core_parts(6) [OF b(8), of t] that c by (simp add: f2)
  have qu: "task_queues (upd_task c (\<lambda>t. t\<lparr>status := TASK_BLOCKED\<rparr>) s2) T ?A ?W"
    using q2 by (rule tq_cong) simp_all
  have ru: "running_thread (upd_task c (\<lambda>t. t\<lparr>status := TASK_BLOCKED\<rparr>) s2) = c"
    using r2 by (simp add: running_thread_def)
  have core: "sched_core (upd_task c (\<lambda>t. t\<lparr>status := TASK_BLOCKED\<rparr>) s2) T ?A ?W"
    unfolding sched_core_def ru using qu b(1,7) cT stq ksq by (simp add: f2)
  have wr: "?W ?r = W ?r" using b(5) [OF l] by simp
  have idp: "idle_parked (upd_task c (\<lambda>t. t\<lparr>status := TASK_BLOCKED\<rparr>) s2) ?A ?W"
  proof -
    have "status (task s (idle_thread s)) = TASK_BLOCKED \<and> (\<forall>k\<in>?A. idle_thread s \<notin> set (W k))" if "W ?r = []"
      using i(11) [OF b(7)] ni c that by (auto simp: placed_def)
    then show ?thesis using ni by (auto simp: idle_parked_def f2 wr)
  qed
  define n where "n = next_task s2 ?W"
  have n: "n = next_task s W" unfolding n_def next_task_def f2(2,3) wr by (rule refl)
  have nT: "n \<in> T" using b(6,7) by (auto simp: n next_task_def split: list.splits)
  have act: "can_activate s2 n" by (rule sys_activate [OF inv nT]) (simp add: f2)
  have room: "stack_room s2" using stack_room_cong [OF inv _ f2(1)] p c by simp
  define s3 where "s3 = push_kont c (Block_ret (intr_get_status s2))
     (upd_task c (\<lambda>t. t\<lparr>status := TASK_BLOCKED\<rparr>) (s2\<lparr>eflags := eflags s2 AND NOT EFLAGS_IF\<rparr>))"
  have f3: "esp s3 = esp s" "thread_ready_list s3 = ?r" "idle_thread s3 = idle_thread s" "sem_value s3 = sem_value s"
    "lock_owner s3 = lock_owner s" "holder_repeat_nr s3 = holder_repeat_nr s"
    "konts s3 = (konts s)(c := ?fs)" "eflags s3 = eflags s2 AND NOT EFLAGS_IF"
    "task s3 = (task s)(c := (task s c)\<lparr>status := TASK_BLOCKED\<rparr>)" by (simp_all add: s3_def f2 off2)
  have off3: "intr_get_status s3 = INTR_OFF" using intr_get_status_off [of "eflags s2" s3] by (simp add: intr_get_status_def f3)
  have "\<exists>s'. thread_block TASK_BLOCKED s2 = Some s' \<and> running_thread s' = n
      \<and> sched_inv s' T ?A (?W(?r := tl (?W ?r))) \<and> switched s3 s'"
    using thread_block_spec [of s2 TASK_BLOCKED T ?A ?W] core room act idp
    unfolding r2 f2(2) n_def [symmetric] s3_def [symmetric] by blast
  then obtain s' where s': "thread_block TASK_BLOCKED s2 = Some s'" "running_thread s' = n"
    "sched_inv s' T ?A (?W(?r := tl (W ?r)))" "switched s3 s'" unfolding wr by blast
  have r3: "running_thread s3 = c" by (simp add: running_thread_def f3 c)
  have q: "t = n \<or> t \<in> set (tl (W ?r))" if "t \<in> set (W ?r)" for t
    using that by (cases "W ?r") (auto simp: n next_task_def)
  have "sys_inv T L s' (?W(?r := tl (W ?r)))"
  proof (rule switch_step [OF inv c, of s3 ?fs s' "?W(?r := tl (W ?r))" n])
    show "set ((?W(?r := tl (W ?r))) j) \<subseteq> insert c (set (W j))" for j using set_tl_subset [of "W ?r"] by auto
    show "set (W (wait_list m)) \<subseteq> set ((?W(?r := tl (W ?r))) (wait_list m))" if "m \<in> L" for m
      using b(5) [OF that] by auto
    show "placed L s' (?W(?r := tl (W ?r))) c" if "n \<noteq> c"
    proof -
      have "thread_ready_list s' = ?r" "idle_thread s' = idle_thread s" "konts s' c = ?fs"
        using s'(4) by (simp_all add: switched_def sync_eq_def f3)
      then show ?thesis using l ni b(5) [OF l] by (auto simp: placed_def)
    qed
    show "(?W(?r := tl (W ?r))) (wait_list m) = W (wait_list m) \<and> \<not> in_down m (konts s c)"
      if "m \<in> L" "sem_value s (lock_sema m) = 1" for m
    proof -
      have "m \<noteq> l" using that(2) v by auto
      then show ?thesis using wk b(5) [OF that(1)] by simp
    qed
  qed (use s' f3 off3 p l fl ni q in \<open>auto intro: wf_framesI\<close>)
  then show ?thesis using d s'(1) by auto
qed

subsection \<open>Waking a waiter\<close>

lemma sched_inv_pop:
  assumes inv: "sched_inv s T A W" and l: "l \<in> A" and w: "W l = u # us"
  shows "sched_inv (snd (list_pop l s)) T A (W(l := us))"
proof -
  have core: "sched_core s T A W" using inv by (simp add: sched_inv_def)
  note i = sched_core_parts [OF core]
  have sub: "set ((W(l := us)) k) \<subseteq> set (W k)" for k using w by auto
  have r: "running_thread (snd (list_pop l s)) = running_thread s" by (simp add: running_thread_def)
  have "status (task s t) = (if k = thread_ready_list s then TASK_READY else TASK_BLOCKED)"
    if "k \<in> A" "t \<in> set ((W(l := us)) k)" for k t using i(5) [OF that(1)] sub that(2) by blast
  then have "sched_core (snd (list_pop l s)) T A (W(l := us))"
    using tq_pop(2) [OF i(1) l w] i(2-4,6) by (simp add: sched_core_def r)
  moreover have "\<forall>k\<in>A. running_thread s \<notin> set ((W(l := us)) k)" using inv sub unfolding sched_inv_def by blast
  ultimately show ?thesis using inv by (simp add: sched_inv_def r)
qed

lemma up_no_waiter:
  assumes inv: "sys_inv T L s W" and l: "l \<in> L" and c: "c = running_thread s" and k: "konts s c = [Release_up l]"
    and w: "W (wait_list l) = []"
  shows "\<exists>s'. resume s = Some s' \<and> sys_inv T L s' W"
proof -
  note b = sys_basics [OF inv]
  have lf: "lock_frames l (konts s c) = [Release_up l]" using k by simp
  note ph = busy_phase [OF inv l lf]
  define s1 where "s1 = (pop_kont c s)\<lparr>eflags := eflags s AND NOT EFLAGS_IF,
     sem_value := (sem_value s)(lock_sema l := 1)\<rparr>"
  define s' where "s' = s1\<lparr>eflags := eflags s\<rparr>"
  have "task_queues ((pop_kont c s)\<lparr>eflags := eflags s AND NOT EFLAGS_IF\<rparr>) T (queue_addrs L s) W"
    using b(2) by (rule tq_cong) simp_all
  from tq_empty [OF this b(4) [OF l]] w
  have em: "list_empty (waiters (lock_sema l)) ((pop_kont c s)\<lparr>eflags := eflags s AND NOT EFLAGS_IF\<rparr>)"
    by (simp add: wait_list_def)
  have "sema_up (lock_sema l) (pop_kont c s) = Some (snd (intr_set_status (intr_get_status (pop_kont c s)) s1))"
    using em ph(2) by (simp add: sema_up_def split_beta intr_disable_upd s1_def Let_def)
  moreover have "snd (intr_set_status (intr_get_status (pop_kont c s)) s1) = s'"
    using intr_bracket_upd [of s1 "pop_kont c s"] by (simp add: s1_def s'_def)
  ultimately have r: "resume s = Some s'" using k c by (simp add: resume_def)
  have fields: "lnext s' = lnext s" "lprev s' = lprev s" "task s' = task s" "esp s' = esp s"
    "thread_ready_list s' = thread_ready_list s" "idle_thread s' = idle_thread s"
    "sem_value s' = (sem_value s)(lock_sema l := 1)" "lock_owner s' = lock_owner s"
    "holder_repeat_nr s' = holder_repeat_nr s" "konts s' = (konts s)(c := [])"
    using k by (simp_all add: s'_def s1_def)
  have "lock_free s' l" using ph(1,7) by (simp add: lock_free_def lock_busy_def fields)
  then have here: "lock_inv s' l" by (simp add: lock_inv_def)
  have "lock_inv s' m" if "m \<in> L" for m
    by (rule locks_after [OF inv fields(10) here]) (use k that in \<open>auto simp: fields\<close>)
  moreover have "running_thread s' = c" by (simp add: running_thread_def fields c)
  ultimately have "sys_inv T L s' W"
    by (intro quiet_step [OF inv c, of s' "[]"])
      (use k w in \<open>auto simp: fields c intro: wf_framesI split: if_split_asm\<close>)
  then show ?thesis using r by blast
qed

text \<open>A waiter's return points say which lock it waits for.\<close>

lemma waiter_frames:
  assumes inv: "sys_inv T L s W" and l: "l \<in> L" and u: "u \<in> set (W (wait_list l))"
  shows "in_down l (konts s u)" "u \<in> T" "u \<noteq> idle_thread s" "u \<noteq> running_thread s"
proof -
  note i = sys_inv_parts [OF inv] and b = sys_basics [OF inv]
  show uT: "u \<in> T" using tq_sub [OF b(2) b(4) [OF l]] u by blast
  show uc: "u \<noteq> running_thread s" using b(3) [OF b(4) [OF l]] u by blast
  have nr: "u \<notin> set (W (thread_ready_list s))"
    using tq_sep [OF b(2) b(4) [OF l] b(1)] b(5) [OF l] u by blast
  from i(11) [OF uT uc] have "u \<noteq> idle_thread s" and "\<exists>m\<in>L. u \<in> set (W (wait_list m)) \<and>
      (\<exists>old. konts s u = [Block_ret INTR_OFF, Down_loop (lock_sema m) old, Acquire_holder m])"
    unfolding placed_def using nr u b(4) [OF l] by blast+
  then obtain m old where m: "m \<in> L" "u \<in> set (W (wait_list m))"
    "konts s u = [Block_ret INTR_OFF, Down_loop (lock_sema m) old, Acquire_holder m]" by blast
  have "m = l"
  proof (rule ccontr)
    assume "m \<noteq> l"
    then have "wait_list m \<noteq> wait_list l" by simp
    from tq_sep [OF b(2) b(4) [OF m(1)] b(4) [OF l] this] m(2) u show False by blast
  qed
  then show "in_down l (konts s u)" using m(3) by simp
  show "u \<noteq> idle_thread s" by fact
qed

lemma up_waiter:
  assumes inv: "sys_inv T L s W" and l: "l \<in> L" and c: "c = running_thread s" and k: "konts s c = [Release_up l]"
    and w: "W (wait_list l) = u # us"
  shows "\<exists>s' W'. resume s = Some s' \<and> sys_inv T L s' W'"
proof -
  let ?r = "thread_ready_list s" and ?A = "queue_addrs L s" and ?x = "wait_list l"
  let ?W1 = "W(?x := us)" and ?W2 = "(W(?x := us))(?r := u # W ?r)"
  note i = sys_inv_parts [OF inv] and b = sys_basics [OF inv]
  have lf: "lock_frames l (konts s c) = [Release_up l]" using k by simp
  note ph = busy_phase [OF inv l lf]
  have cT: "c \<in> T" using running_in_T [OF inv] c by simp
  have uW: "u \<in> set (W ?x)" using w by simp
  note wt = waiter_frames [OF inv l uW]
  define s0 where "s0 = (pop_kont c s)\<lparr>eflags := eflags s AND NOT EFLAGS_IF\<rparr>"
  define s1 where "s1 = snd (list_pop ?x s0)"
  have si0: "sched_inv s0 T ?A W" by (rule sched_inv_cong [OF i(1)]) (simp_all add: s0_def running_thread_def)
  have q0: "task_queues s0 T ?A W" using b(2) by (rule tq_cong) (simp_all add: s0_def)
  note pop = tq_pop [OF q0 b(4) [OF l] w]
  have si1: "sched_inv s1 T ?A ?W1" unfolding s1_def by (rule sched_inv_pop [OF si0 b(4) [OF l] w])
  have f1: "task s1 = task s" "thread_ready_list s1 = ?r" "running_thread s1 = c" "konts s1 = (konts s)(c := [])"
    "esp s1 = esp s" "idle_thread s1 = idle_thread s" "sem_value s1 = sem_value s" "lock_owner s1 = lock_owner s"
    "holder_repeat_nr s1 = holder_repeat_nr s" "eflags s1 = eflags s AND NOT EFLAGS_IF"
    using k c by (simp_all add: s1_def s0_def running_thread_def)
  have stu: "status (task s u) = TASK_BLOCKED"
    using sched_core_parts(5) [OF b(8) b(4) [OF l] uW] b(5) [OF l] by simp
  have w1r: "?W1 ?r = W ?r" using b(5) [OF l] by simp
  obtain s2 where u: "thread_unblock u s1 = Some s2" and si2: "sched_inv s2 T ?A ?W2"
  proof -
    have "\<forall>k\<in>?A. u \<notin> set (?W1 k)" using pop(3) by blast
    from unblock_front [OF si1 wt(2) _ this] stu show thesis
      using that unfolding f1(1,2) w1r by blast
  qed
  note fr = thread_unblock_frame [OF u]
  define s3 where "s3 = s2\<lparr>sem_value := (sem_value s)(lock_sema l := 1)\<rparr>"
  define s' where "s' = s3\<lparr>eflags := eflags s\<rparr>"
  have "\<not> list_empty (waiters (lock_sema l)) s0" using tq_empty [OF q0 b(4) [OF l]] w by (simp add: wait_list_def)
  then have "sema_up (lock_sema l) (pop_kont c s) = Some (snd (intr_set_status (intr_get_status (pop_kont c s)) s3))"
    using ph(2) u fr pop(1) unfolding sema_up_def
    by (simp add: split_beta intr_disable_upd s0_def [symmetric] s1_def wait_list_def [symmetric] Let_def s3_def
        sync_eq_def f1 [unfolded s1_def]) (simp add: s0_def)
  moreover have "eflags s3 = eflags s AND NOT EFLAGS_IF" using fr by (simp add: s3_def sync_eq_def f1)
  then have "snd (intr_set_status (intr_get_status (pop_kont c s)) s3) = s'"
    using intr_bracket_upd [of s3 "pop_kont c s"] by (simp add: s'_def)
  ultimately have res: "resume s = Some s'" using k c by (simp add: resume_def)
  have f': "task s' = (task s)(u := (task s u)\<lparr>status := TASK_READY\<rparr>)" "thread_ready_list s' = ?r"
    "running_thread s' = c" "konts s' = (konts s)(c := [])" "esp s' = esp s" "idle_thread s' = idle_thread s"
    "sem_value s' = (sem_value s)(lock_sema l := 1)" "lock_owner s' = lock_owner s"
    "holder_repeat_nr s' = holder_repeat_nr s" "eflags s' = eflags s"
    using fr f1 c by (simp_all add: s'_def s3_def sync_eq_def running_thread_def)
  have A: "queue_addrs L s' = ?A" by (simp add: queue_addrs_def f')
  have "sched_inv s' T ?A ?W2" by (rule sched_inv_cong [OF si2]) (use fr f1 in \<open>simp_all add: s'_def s3_def running_thread_def\<close>)
  moreover have "lock_inv s' m" if "m \<in> L" for m
  proof (rule locks_after [OF inv f'(4) _ _ _ _ _ that])
    have "lock_free s' l" using ph(1,7) by (simp add: lock_free_def lock_busy_def f')
    then show "lock_inv s' l" by (simp add: lock_inv_def)
  qed (use k in \<open>auto simp: f'\<close>)
  moreover have "stack_ok s' t" if "t \<in> T" for t
    using i(9) [OF that] k c by (auto simp: stack_ok_def Let_def esp_of_def f')
  moreover have "placed L s' ?W2 t" if t: "t \<in> T" "t \<noteq> c" for t
  proof (cases "t = u")
    case False
    then have e: "status (task s' t) = status (task s t)" "konts s' t = konts s t" using t(2) by (simp_all add: f')
    have p: "placed L s W t" using i(11) [OF t(1)] t(2) c by simp
    have m1: "t \<in> set (?W2 ?r)" if "t \<in> set (W ?r)" using that by simp
    have m2: "\<forall>j\<in>?A. t \<notin> set (?W2 j)" if "\<forall>j\<in>?A. t \<notin> set (W j)"
    proof -
      have "set (?W2 j) \<subseteq> insert u (set (W j))" for j using w b(5) [OF l] by auto
      then show ?thesis using that False by blast
    qed
    have m3: "t \<in> set (?W2 (wait_list m))" if "m \<in> L" "t \<in> set (W (wait_list m))" for m
      using that False w b(5) [OF that(1)] by auto
    show ?thesis using p m1 m2 m3 unfolding placed_def f'(2,6) A e by metis
  qed (simp add: placed_def f')
  moreover have "\<exists>t\<in>insert c (set (?W2 ?r)). in_down m (konts s' t)"
    if m: "m \<in> L" "sem_value s' (lock_sema m) = 1" "?W2 (wait_list m) \<noteq> []" for m
  proof (cases "m = l")
    case True
    have "konts s' u = konts s u" using wt(4) c by (simp add: f')
    then show ?thesis using wt(1) True by auto
  next
    case False
    then have "sem_value s (lock_sema m) = 1" "W (wait_list m) \<noteq> []" using m b(5) [OF m(1)] by (simp_all add: f')
    from i(13) [OF m(1) this] c k obtain t where "t \<in> set (W ?r)" "in_down m (konts s t)" by auto
    moreover have "t \<noteq> c" using \<open>in_down m (konts s t)\<close> k by auto
    ultimately show ?thesis by (auto simp: f')
  qed
  moreover have "wf_frames L (konts s' t) \<and> (t \<notin> T \<longrightarrow> konts s' t = [])" for t
    using i(6,7) by (auto simp: f' intro: wf_framesI)
  moreover have "\<not> in_down m (konts s' (idle_thread s'))" for m using i(12) by (simp add: f')
  ultimately have "sys_inv T L s' ?W2"
    unfolding sys_inv_def A f'(2,3) using i(2-5) by (simp add: f')
  then show ?thesis using res by blast
qed

subsection \<open>Every step returns and keeps the invariant\<close>

lemma resume_step:
  assumes inv: "sys_inv T L s W" and k: "konts s (running_thread s) = f # fs"
  shows "\<exists>s' W'. resume s = Some s' \<and> sys_inv T L s' W'"
proof -
  define c where "c = running_thread s"
  note i = sys_inv_parts [OF inv]
  have kc: "konts s c = f # fs" using k by (simp add: c_def)
  have "wf_frames L (f # fs)" using i(6) [of c] kc by simp
  then show ?thesis
  proof (cases rule: wf_frames_cases)
    case (ru l)
    then show ?thesis
      using up_no_waiter [OF inv ru(1) c_def] up_waiter [OF inv ru(1) c_def] kc by (cases "W (wait_list l)") auto
  next
    case (down l old)
    define s1 where "s1 = s\<lparr>konts := (konts s)(c := [Acquire_holder l]), eflags := eflags s\<rparr>"
    have off: "intr_get_status s = INTR_OFF" using i(8) kc down(2) by (simp add: c_def)
    have s1': "s1 = s\<lparr>konts := (konts s)(c := [Acquire_holder l]), eflags := eflags s AND NOT EFLAGS_IF\<rparr>"
      using intr_off_mask [OF off] by (simp add: s1_def)
    have r: "resume s = sema_down_loop (lock_sema l) old s1"
      using kc down by (simp add: resume_def c_def [symmetric] pop_kont_def s1_def)
    have ni: "c \<noteq> idle_thread s" using i(12) kc down by (metis in_down_simps(5))
    have fr: "\<And>m. lock_frames m (konts s c) = []" "\<And>m. m \<noteq> l \<Longrightarrow> \<not> in_down m (konts s c)" "pending (konts s c) = 0"
      using kc down by auto
    show ?thesis
    proof (cases "sem_value s (lock_sema l) = 0")
      case True
      from down_busy [OF inv down(1) c_def ni True fr s1'] show ?thesis using r by simp
    next
      case False
      from down_free [OF inv down(1) c_def False fr s1_def] show ?thesis using r by metis
    qed
  qed (use resume_lock_frame [OF inv _ c_def] resume_return [OF inv c_def kc] kc in blast)+
qed

lemma acquire_step:
  assumes inv: "sys_inv T L s W" and k: "konts s (running_thread s) = []" and ni: "running_thread s \<noteq> idle_thread s"
    and l: "l \<in> L" and n: "holder_repeat_nr s l \<noteq> 0xffffffff"
  shows "\<exists>s' W'. lock_acquire l s = Some s' \<and> sys_inv T L s' W'"
proof -
  define c where "c = running_thread s"
  note i = sys_inv_parts [OF inv]
  have kc: "konts s c = []" using k by (simp add: c_def)
  show ?thesis
  proof (cases "lock_owner s l = c")
    case True
    define s' where "s' = s\<lparr>holder_repeat_nr := (holder_repeat_nr s)(l := holder_repeat_nr s l + 1)\<rparr>"
    have "c \<noteq> NULL" using i(3) running_in_T [OF inv] by (simp add: c_def)
    then obtain t where t: "lock_busy s l t" using i(10) [OF l] True by (auto simp: lock_inv_def lock_free_def)
    then have "t = c" using True \<open>c \<noteq> NULL\<close> by (auto simp: lock_busy_def Let_def)
    then have b: "lock_busy s l c" using t by simp
    have "holder_repeat_nr s l + 1 \<noteq> 0" 
    proof
      assume "holder_repeat_nr s l + 1 = 0"
      then have "holder_repeat_nr s l = - 1" by (simp add: eq_neg_iff_add_eq_0)
      then show False using n by simp
    qed
    then have here: "lock_inv s' l"
      by (intro busy_after [OF b, of s' "[]" "[]"]) (use b True kc in \<open>auto simp: s'_def lock_busy_def\<close>)
    have "lock_inv s' m" if "m \<in> L" for m
      by (rule locks_after [OF inv _ here, of c "[]"]) (use kc that in \<open>auto simp: s'_def\<close>)
    then have "sys_inv T L s' W"
      by (intro quiet_step [OF inv c_def, of s' "[]"]) (use kc in \<open>auto simp: s'_def running_thread_def c_def intro: wf_framesI\<close>)
    then show ?thesis using True by (auto simp: lock_acquire_def s'_def c_def)
  next
    case False
    define s1 where "s1 = s\<lparr>konts := (konts s)(c := [Acquire_holder l]), eflags := eflags s AND NOT EFLAGS_IF\<rparr>"
    have r: "lock_acquire l s = sema_down_loop (lock_sema l) (intr_get_status s) s1"
      using False kc by (simp add: lock_acquire_def sema_down_def split_beta intr_disable_upd s1_def push_kont_def c_def intr_get_status_def)
    have fr: "\<And>m. lock_frames m (konts s c) = []" "\<And>m. m \<noteq> l \<Longrightarrow> \<not> in_down m (konts s c)" "pending (konts s c) = 0"
      using kc by auto
    show ?thesis
    proof (cases "sem_value s (lock_sema l) = 0")
      case True
      from down_busy [OF inv l c_def _ True fr s1_def] ni show ?thesis using r by (simp add: c_def)
    next
      case False
      from down_free [OF inv l c_def False fr s1_def] show ?thesis using r by metis
    qed
  qed
qed

lemma release_step:
  assumes inv: "sys_inv T L s W" and k: "konts s (running_thread s) = []" and l: "l \<in> L"
    and h: "lock_owner s l = running_thread s"
  shows "\<exists>s' W'. lock_release l s = Some s' \<and> sys_inv T L s' W'"
proof -
  define c where "c = running_thread s"
  note i = sys_inv_parts [OF inv]
  have kc: "konts s c = []" and hc: "lock_owner s l = c" using k h by (simp_all add: c_def)
  have "c \<noteq> NULL" using i(3) running_in_T [OF inv] by (simp add: c_def)
  then obtain t where t: "lock_busy s l t" using i(10) [OF l] hc by (auto simp: lock_inv_def lock_free_def)
  then have "t = c" using hc \<open>c \<noteq> NULL\<close> by (auto simp: lock_busy_def Let_def)
  then have b: "lock_busy s l c" using t by simp
  then have v: "sem_value s (lock_sema l) = 0" "holder_repeat_nr s l \<noteq> 0" using kc by (simp_all add: lock_busy_def Let_def)
  define s' where "s' = (if 1 < holder_repeat_nr s l
     then s\<lparr>holder_repeat_nr := (holder_repeat_nr s)(l := holder_repeat_nr s l - 1)\<rparr>
     else push_kont c (Release_holder l) s)"
  define g where "g = (if 1 < holder_repeat_nr s l then [] else [Release_holder l])"
  have one: "holder_repeat_nr s l = 1" if "\<not> 1 < holder_repeat_nr s l"
    using that v(2) by (metis linorder_neqE word_less_1)
  have r: "lock_release l s = Some s'" using hc one by (auto simp: lock_release_def s'_def c_def)
  have f': "lnext s' = lnext s" "lprev s' = lprev s" "task s' = task s" "esp s' = esp s"
    "thread_ready_list s' = thread_ready_list s" "idle_thread s' = idle_thread s" "sem_value s' = sem_value s"
    "lock_owner s' = lock_owner s" "konts s' = (konts s)(c := g)" "running_thread s' = c" "eflags s' = eflags s"
    using kc by (auto simp: s'_def g_def c_def running_thread_def)
  have nz: "holder_repeat_nr s l - 1 \<noteq> 0" if "1 < holder_repeat_nr s l" using that by auto
  have here: "lock_inv s' l"
  proof (rule busy_after [OF b f'(9)])
    show "lock_frames l g = g" by (simp add: g_def)
  qed (use v one nz hc in \<open>auto simp: f' g_def s'_def\<close>)
  have "lock_inv s' m" if "m \<in> L" for m
    by (rule locks_after [OF inv f'(9) here]) (use kc that in \<open>auto simp: f' g_def s'_def\<close>)
  then have "sys_inv T L s' W"
    by (intro quiet_step [OF inv c_def, of s' g])
      (use kc l in \<open>auto simp: f' g_def c_def intro: wf_framesI split: if_split_asm\<close>)
  then show ?thesis using r by blast
qed

lemma kstep_inv:
  assumes "kstep L s s'" and inv: "sys_inv T L s W"
  shows "\<exists>W'. sys_inv T L s' W'"
  using assms(1)
proof cases
  case (acquire l)
  then show ?thesis using acquire_step [OF inv acquire(1-4)] by auto
next
  case (release l)
  then show ?thesis using release_step [OF inv release(1-3)] by auto
next
  case continue
  then obtain f fs where "konts s (running_thread s) = f # fs" by (auto simp: resume_def split: list.splits)
  from resume_step [OF inv this] continue show ?thesis by auto
next
  case tick
  then show ?thesis using tick_step [OF inv tick(1)] by auto
next
  case yield
  then show ?thesis using yield_step [OF inv yield(1)] by auto
next
  case idle
  then show ?thesis using idle_step [OF inv idle(1,2)] by auto
qed

lemma ksteps_inv:
  assumes "(kstep L)\<^sup>*\<^sup>* s s'" and "sys_inv T L s W"
  shows "\<exists>W'. sys_inv T L s' W'"
  using assms(1)
proof (induction rule: rtranclp_induct)
  case base
  then show ?case using assms(2) by blast
next
  case (step t u)
  then show ?case using kstep_inv by blast
qed

section \<open>A concrete system for the witnesses\<close>

definition demo_sys :: kstate where
  "demo_sys = (list_init 0x2008 demo_k)\<lparr>konts := (\<lambda>t. if t = 0x7000 then [Block_ret INTR_OFF] else [])\<rparr>"

lemma demo_sys_fields [simp]:
  "thread_ready_list demo_sys = 0x1000" "idle_thread demo_sys = 0x7000" "esp demo_sys = 0x5f00" "eflags demo_sys = 2"
  "task demo_sys = task demo_k" "running_thread demo_sys = 0x5000" "sem_value demo_sys a = 1"
  "lock_owner demo_sys a = NULL" "holder_repeat_nr demo_sys a = 0"
  "konts demo_sys t = (if t = 0x7000 then [Block_ret INTR_OFF] else [])"
  by (simp_all add: demo_sys_def) (simp_all add: running_thread_def)

lemma demo_sys_inv: "sys_inv demo_T {0x2000} demo_sys demo_W"
proof -
  have wl: "wait_list 0x2000 = 0x2008" by (simp add: wait_list_def waiters_def lock_sema_def)
  have "dlist demo_k 0x1000 (map general_tag [0x6000])"
    using demo_k_inv by (simp add: sched_inv_def sched_core_def task_queues_def)
  moreover have "\<forall>x\<in>lnodes 0x1000 (map general_tag [0x6000]). x \<noteq> 0x2008 \<and> x \<noteq> 0x2010"
    by (simp add: lnodes_def general_tag_def list_tail_def)
  ultimately have "dlist demo_sys 0x1000 (map general_tag [0x6000])"
    using dlist_frame [of "0x1000" "map general_tag [0x6000]" demo_sys demo_k]
    by (simp add: demo_sys_def list_init_def list_tail_def)
  moreover have "dlist demo_sys 0x2008 []"
    using list_init_dlist [of "0x2008" demo_k] by (simp add: dlist_def demo_sys_def)
  ultimately have q: "task_queues demo_sys demo_T {0x1000, 0x2008} demo_W"
    by (simp add: task_queues_def general_tag_def list_tail_def)
  then have si: "sched_inv demo_sys demo_T {0x1000, 0x2008} demo_W"
    by (simp add: sched_inv_def sched_core_def) (simp add: demo_task_def)
  have A: "queue_addrs {0x2000} demo_sys = {0x1000, 0x2008}" by (simp add: queue_addrs_def wl)
  have "\<forall>t\<in>demo_T. stack_ok demo_sys t" by (simp add: stack_ok_def esp_of_def Let_def demo_task_def)
  moreover have "lock_inv demo_sys 0x2000" by (simp add: lock_inv_def lock_free_def)
  moreover have "placed {0x2000} demo_sys demo_W 0x6000" "placed {0x2000} demo_sys demo_W 0x7000"
    by (simp_all add: placed_def A demo_task_def)
  moreover have "wf_frames {0x2000} []" "wf_frames {0x2000} [Block_ret INTR_OFF]" by (simp_all add: wf_framesI)
  ultimately show ?thesis using si
    by (simp add: sys_inv_def A wl) (simp add: demo_task_def)
qed

section \<open>Properties\<close>

text \<open>A task is inside a lock from the end of its \<^verbatim>\<open>sema_down\<close> to its \<^verbatim>\<open>sema_up\<close>.\<close>

definition inside :: "kstate \<Rightarrow> addr \<Rightarrow> addr \<Rightarrow> bool" where
  "inside s l t = (lock_owner s l = t \<and> t \<noteq> NULL \<or> lock_frames l (konts s t) \<noteq> [])"

lemma inside_busy: "lock_busy s l t \<Longrightarrow> inside s l u = (u = t)"
  by (cases "u = t") (auto simp: lock_busy_def inside_def Let_def)

lemma inside_free: "lock_free s l \<Longrightarrow> \<not> inside s l u"
  by (auto simp: lock_free_def inside_def)

lemma inside_unique:
  assumes "lock_inv s l"
  shows "inside s l t \<Longrightarrow> inside s l u \<Longrightarrow> t = u"
    and "(sem_value s (lock_sema l) = 0) = (\<exists>t. inside s l t)"
proof -
  show "inside s l t \<Longrightarrow> inside s l u \<Longrightarrow> t = u"
    using assms inside_busy inside_free by (auto simp: lock_inv_def)
  show "(sem_value s (lock_sema l) = 0) = (\<exists>t. inside s l t)"
    using assms inside_busy [of s l] inside_free [of s l] by (auto simp: lock_inv_def lock_free_def lock_busy_def)
qed

text \<open>
  C1: locks give mutual exclusion under every interleaving. Starting from a well-formed system,
  after any sequence of lock calls, context switches, yields and clock interrupts - which may hit
  between any two statements of \<^verbatim>\<open>lock_acquire\<close> and \<^verbatim>\<open>lock_release\<close> - at most one task is between
  its \<^verbatim>\<open>sema_down\<close> and its \<^verbatim>\<open>sema_up\<close> on a lock, and the semaphore is 0 exactly when there is one.
\<close>

theorem lock_mutual_exclusion:
  assumes "sys_inv T L s0 W" and "(kstep L)\<^sup>*\<^sup>* s0 s" and "l \<in> L"
  shows "(\<forall>t u. inside s l t \<and> inside s l u \<longrightarrow> t = u)
    \<and> (sem_value s (lock_sema l) = 0) = (\<exists>t. inside s l t)"
proof -
  from ksteps_inv [OF assms(2,1)] obtain W' where inv: "sys_inv T L s W'" by blast
  have li: "lock_inv s l" using sys_inv_parts(10) [OF inv assms(3)] .
  show ?thesis using inside_unique(1) [OF li] inside_unique(2) [OF li] by blast
qed

theorem lock_mutual_exclusion_witness:
  "\<exists>s. lock_acquire 0x2000 demo_sys = Some s
     \<and> (\<forall>t u. inside s 0x2000 t \<and> inside s 0x2000 u \<longrightarrow> t = u) \<and> (\<exists>t. inside s 0x2000 t)"
proof -
  obtain s where a: "lock_acquire 0x2000 demo_sys = Some s" and "sem_value s (lock_sema 0x2000) = 0"
    by (simp add: lock_acquire_def sema_down_def sema_down_loop_def split_beta intr_disable_upd intr_set_status_upd Let_def)
  moreover have "kstep {0x2000} demo_sys s" by (rule kstep.acquire [of _ "0x2000"]) (use a in simp_all)
  ultimately show ?thesis using lock_mutual_exclusion [OF demo_sys_inv, of s "0x2000"] by auto
qed





end
