(* ===== verification/Memory.thy ===== *)
theory Memory
  imports Sync
begin

unbundle bit_operations_syntax

text \<open>
  The allocators of \<^verbatim>\<open>kernel/memory.c\<close>: virtual page ranges, page allocation and release on top of
  the page tables, the boot-time division of physical memory, and the block allocator
  \<^verbatim>\<open>sys_malloc\<close>/\<^verbatim>\<open>sys_free\<close>.

  Each allocator call runs under the lock of its pool. Here a call is the run of one task from its
  \<^verbatim>\<open>lock_acquire\<close> to its \<^verbatim>\<open>lock_release\<close>; \<open>lock_acquire_now\<close> is \<^verbatim>\<open>lock_acquire\<close> of a lock that is free or
  already held by the caller, and \<open>None\<close> when the caller would have to wait. That the interleaved
  code of theory \<open>Sync\<close> behaves so when nobody interferes is a lemma. The headers of arenas and
  block descriptors are fields addressed by the structure; the rest of a page is reached through
  the page tables.
\<close>

section \<open>Locks without contention\<close>

definition lock_acquire_now :: "addr \<Rightarrow> 'a kstate_scheme \<Rightarrow> 'a kstate_scheme option" where
  "lock_acquire_now plock s =
     (if lock_owner s plock = running_thread s
      then Some (s\<lparr>holder_repeat_nr := (holder_repeat_nr s)(plock := holder_repeat_nr s plock + 1)\<rparr>)
      else if sem_value s (lock_sema plock) = 0 then None
      else do {
        let s = s\<lparr>sem_value := (sem_value s)(lock_sema plock := sem_value s (lock_sema plock) - 1)\<rparr>;
        ASSERT (sem_value s (lock_sema plock) = 0);
        let s = s\<lparr>lock_owner := (lock_owner s)(plock := running_thread s)\<rparr>;
        ASSERT (holder_repeat_nr s plock = 0);
        Some (s\<lparr>holder_repeat_nr := (holder_repeat_nr s)(plock := 1)\<rparr>)
      })"

definition lock_release_now :: "addr \<Rightarrow> 'a kstate_scheme \<Rightarrow> 'a kstate_scheme option" where
  "lock_release_now plock s = do {
     ASSERT (lock_owner s plock = running_thread s);
     if 1 < holder_repeat_nr s plock
     then Some (s\<lparr>holder_repeat_nr := (holder_repeat_nr s)(plock := holder_repeat_nr s plock - 1)\<rparr>)
     else do {
       ASSERT (holder_repeat_nr s plock = 1);
       sema_up (lock_sema plock)
         (s\<lparr>lock_owner := (lock_owner s)(plock := NULL), holder_repeat_nr := (holder_repeat_nr s)(plock := 0)\<rparr>)
     }
   }"

lemma sema_down_now:
  assumes "sem_value s p = 1"
  shows "sema_down p s = Some (s\<lparr>sem_value := (sem_value s)(p := 0)\<rparr>)"
proof -
  let ?s = "s\<lparr>eflags := eflags s AND NOT EFLAGS_IF\<rparr>\<lparr>sem_value := (sem_value s)(p := 0)\<rparr>"
  have "snd (intr_set_status (intr_get_status s) ?s) = ?s\<lparr>eflags := eflags s\<rparr>"
    by (rule intr_bracket_upd) simp
  then show ?thesis
    using assms by (simp add: sema_down_def sema_down_loop_def split_beta intr_disable_upd Let_def)
qed

text \<open>
  a lock call that nobody interferes with. Where \<open>lock_acquire_now\<close> and \<open>lock_release_now\<close> return,
  the interleaved code of theory \<open>Sync\<close>, run to its end by the calling task alone, ends in the same
  state: the call itself for a nested acquire or release, and its return points one after the other
  otherwise.
\<close>

theorem lock_calls_uncontended:
  "(lock_acquire_now l s = Some s' \<longrightarrow>
      (if lock_owner s l = running_thread s then lock_acquire l s = Some s'
       else Option.bind (Option.bind (lock_acquire l s) resume) resume = Some s'))
   \<and> (lock_release_now l s = Some s' \<longrightarrow>
      (if 1 < holder_repeat_nr s l then lock_release l s = Some s'
       else Option.bind (Option.bind (Option.bind (lock_release l s) resume) resume) resume = Some s'))"
proof (intro conjI impI)
  assume "lock_acquire_now l s = Some s'"
  then show "if lock_owner s l = running_thread s then lock_acquire l s = Some s'
       else Option.bind (Option.bind (lock_acquire l s) resume) resume = Some s'"
    by (auto simp: lock_acquire_now_def lock_acquire_def sema_down_now resume_def Let_def
        push_kont_def pop_kont_def acquire_holder_def acquire_repeat_def running_thread_def split: if_splits)
next
  assume "lock_release_now l s = Some s'"
  then show "if 1 < holder_repeat_nr s l then lock_release l s = Some s'
       else Option.bind (Option.bind (Option.bind (lock_release l s) resume) resume) resume = Some s'"
    by (auto simp: lock_release_now_def lock_release_def resume_def Let_def
        push_kont_def pop_kont_def release_holder_def release_repeat_def running_thread_def
        split: if_splits)
qed

theorem lock_calls_uncontended_witness:
  "\<exists>s'. lock_acquire_now 0x9000 demo_sys = Some s'
     \<and> Option.bind (Option.bind (lock_acquire 0x9000 demo_sys) resume) resume = Some s'"
  using lock_calls_uncontended [of "0x9000" demo_sys]
  by (simp add: lock_acquire_now_def demo_sys_def demo_k_def running_thread_def lock_sema_def)

section \<open>The state\<close>

datatype pool_flags = PF_KERNEL | PF_USER

record mstate = kstate +
  kernel_pool :: pool
  user_pool :: pool
  kernel_pool_lock :: addr
  user_pool_lock :: addr
  kernel_vaddr :: virtual_addr
  k_block_descs :: addr
  block_size :: "addr \<Rightarrow> u32"
  blocks_per_arena :: "addr \<Rightarrow> u32"
  arena_desc :: "addr \<Rightarrow> addr"
  arena_cnt :: "addr \<Rightarrow> u32"
  arena_large :: "addr \<Rightarrow> bool"

definition DESC_CNT :: nat where "DESC_CNT = 7"
definition K_HEAP_START :: u32 where "K_HEAP_START = 0xc0100000"
definition arena_size :: u32 where "arena_size = 12"
definition desc_addr :: "addr \<Rightarrow> nat \<Rightarrow> addr" where "desc_addr descs i = descs + of_nat i * 24"
definition free_list :: "addr \<Rightarrow> addr" where "free_list desc = desc + 8"
definition u_block_desc :: "addr \<Rightarrow> addr" where "u_block_desc t = t + 100"

definition pool_lock :: "pool_flags \<Rightarrow> 'a mstate_scheme \<Rightarrow> addr" where
  "pool_lock pf s = (case pf of PF_KERNEL \<Rightarrow> kernel_pool_lock s | PF_USER \<Rightarrow> user_pool_lock s)"

definition pool_alloc :: "pool_flags \<Rightarrow> 'a mstate_scheme \<Rightarrow> (u32 \<times> 'a mstate_scheme) option" where
  "pool_alloc pf s = (case pf of
     PF_KERNEL \<Rightarrow> do { (f, p) \<leftarrow> palloc (kernel_pool s); Some (f, s\<lparr>kernel_pool := p\<rparr>) }
   | PF_USER \<Rightarrow> do { (f, p) \<leftarrow> palloc (user_pool s); Some (f, s\<lparr>user_pool := p\<rparr>) })"

definition map_page :: "addr \<Rightarrow> u32 \<Rightarrow> 'a mstate_scheme \<Rightarrow> 'a mstate_scheme option" where
  "map_page vaddr pa s = do {
     (p, s) \<leftarrow> page_table_add vaddr pa (kernel_pool s) s;
     Some (s\<lparr>kernel_pool := p\<rparr>)
   }"

section \<open>Boot\<close>

definition MEM_BITMAP_BASE :: u32 where "MEM_BITMAP_BASE = 0xc009a000"

text \<open>
  \<^verbatim>\<open>mem_pool_init\<close>: the sizes are computed in the widths of the code; the numbers of pages are
  16-bit. A bitmap is its length and its bits, so its address (\<^verbatim>\<open>MEM_BITMAP_BASE\<close> onwards) is not in
  the state.
\<close>

definition mem_pool_init :: "u32 \<Rightarrow> 'a mstate_scheme \<Rightarrow> 'a mstate_scheme" where
  "mem_pool_init all_mem s =
     (let page_table_size = of_nat PG_SIZE * 256;
          used_mem = 0x100000 + page_table_size;
          free_mem = all_mem - used_mem;
          all_free_pages = (ucast (free_mem div of_nat PG_SIZE) :: u16);
          kernel_free_pages = all_free_pages div 2;
          user_free_pages = all_free_pages - kernel_free_pages;
          kbm_length = unat kernel_free_pages div 8;
          ubm_length = unat user_free_pages div 8;
          kp_start = used_mem;
          up_start = kp_start + ucast kernel_free_pages * of_nat PG_SIZE;
          s = s\<lparr>kernel_pool := \<lparr>pool_bitmap = bitmap_init \<lparr>btmp_bytes_len = kbm_length, bits = bits (pool_bitmap (kernel_pool s))\<rparr>,
                  phy_addr_start = kp_start, pool_size = ucast kernel_free_pages * of_nat PG_SIZE\<rparr>,
                user_pool := \<lparr>pool_bitmap = bitmap_init \<lparr>btmp_bytes_len = ubm_length, bits = bits (pool_bitmap (user_pool s))\<rparr>,
                  phy_addr_start = up_start, pool_size = ucast user_free_pages * of_nat PG_SIZE\<rparr>\<rparr>;
          s = lock_init (user_pool_lock s) (lock_init (kernel_pool_lock s) s)
      in s\<lparr>kernel_vaddr := \<lparr>vaddr_bitmap = bitmap_init \<lparr>btmp_bytes_len = kbm_length,
               bits = bits (vaddr_bitmap (kernel_vaddr s))\<rparr>, vaddr_start = K_HEAP_START\<rparr>\<rparr>)"

primrec block_desc_init_from :: "nat \<Rightarrow> nat \<Rightarrow> u16 \<Rightarrow> addr \<Rightarrow> 'a mstate_scheme \<Rightarrow> 'a mstate_scheme" where
  "block_desc_init_from 0 i bs desc_array s = s"
| "block_desc_init_from (Suc n) i bs desc_array s =
     (let d = desc_addr desc_array i;
          s = s\<lparr>block_size := (block_size s)(d := ucast bs),
                blocks_per_arena := (blocks_per_arena s)(d := (of_nat PG_SIZE - arena_size) div ucast bs)\<rparr>;
          s = list_init (free_list d) s
      in block_desc_init_from n (Suc i) (push_bit 1 bs) desc_array s)"

definition block_desc_init :: "addr \<Rightarrow> 'a mstate_scheme \<Rightarrow> 'a mstate_scheme" where
  "block_desc_init desc_array s = block_desc_init_from DESC_CNT 0 16 desc_array s"

definition mem_init :: "u32 \<Rightarrow> 'a mstate_scheme \<Rightarrow> 'a mstate_scheme" where
  "mem_init mem_bytes_total s = (let s = mem_pool_init mem_bytes_total s in block_desc_init (k_block_descs s) s)"

section \<open>Virtual page ranges\<close>

primrec set_run :: "nat \<Rightarrow> nat \<Rightarrow> int \<Rightarrow> bitmap \<Rightarrow> bitmap option" where
  "set_run 0 i v b = Some b"
| "set_run (Suc n) i v b = do { b \<leftarrow> bitmap_set b i v; set_run n (Suc i) v b }"

definition vaddr_get :: "pool_flags \<Rightarrow> u32 \<Rightarrow> 'a mstate_scheme \<Rightarrow> (addr \<times> 'a mstate_scheme) option" where
  "vaddr_get pf pg_cnt s = (case pf of
     PF_KERNEL \<Rightarrow> do {
       bit_idx_start \<leftarrow> bitmap_scan (vaddr_bitmap (kernel_vaddr s)) (unat pg_cnt);
       if bit_idx_start = - 1 then Some (NULL, s)
       else do {
         b \<leftarrow> set_run (unat pg_cnt) (nat bit_idx_start) 1 (vaddr_bitmap (kernel_vaddr s));
         Some (vaddr_start (kernel_vaddr s) + of_int bit_idx_start * of_nat PG_SIZE,
               s\<lparr>kernel_vaddr := (kernel_vaddr s)\<lparr>vaddr_bitmap := b\<rparr>\<rparr>)
       }
     }
   | PF_USER \<Rightarrow> do {
       let cur = running_thread s;
       let uv = userprog_vaddr (task s cur);
       bit_idx_start \<leftarrow> bitmap_scan (vaddr_bitmap uv) (unat pg_cnt);
       if bit_idx_start = - 1 then Some (NULL, s)
       else do {
         b \<leftarrow> set_run (unat pg_cnt) (nat bit_idx_start) 1 (vaddr_bitmap uv);
         let va0 = vaddr_start uv + of_int bit_idx_start * of_nat PG_SIZE;
         ASSERT (va0 < 0xc0000000 - of_nat PG_SIZE);
         Some (va0, upd_task cur (\<lambda>t. t\<lparr>userprog_vaddr := uv\<lparr>vaddr_bitmap := b\<rparr>\<rparr>) s)
       }
     })"

definition vaddr_remove :: "pool_flags \<Rightarrow> addr \<Rightarrow> u32 \<Rightarrow> 'a mstate_scheme \<Rightarrow> 'a mstate_scheme option" where
  "vaddr_remove pf vaddr pg_cnt s = (case pf of
     PF_KERNEL \<Rightarrow> do {
       let bit_idx_start = (vaddr - vaddr_start (kernel_vaddr s)) div of_nat PG_SIZE;
       b \<leftarrow> set_run (unat pg_cnt) (unat bit_idx_start) 0 (vaddr_bitmap (kernel_vaddr s));
       Some (s\<lparr>kernel_vaddr := (kernel_vaddr s)\<lparr>vaddr_bitmap := b\<rparr>\<rparr>)
     }
   | PF_USER \<Rightarrow> do {
       let cur = running_thread s;
       let uv = userprog_vaddr (task s cur);
       let bit_idx_start = (vaddr - vaddr_start uv) div of_nat PG_SIZE;
       b \<leftarrow> set_run (unat pg_cnt) (unat bit_idx_start) 0 (vaddr_bitmap uv);
       Some (upd_task cur (\<lambda>t. t\<lparr>userprog_vaddr := uv\<lparr>vaddr_bitmap := b\<rparr>\<rparr>) s)
     })"

section \<open>Pages\<close>

primrec map_pages :: "nat \<Rightarrow> pool_flags \<Rightarrow> addr \<Rightarrow> addr \<Rightarrow> 'a mstate_scheme \<Rightarrow> (addr \<times> 'a mstate_scheme) option" where
  "map_pages 0 pf va0 vaddr s = Some (va0, s)"
| "map_pages (Suc cnt) pf va0 vaddr s = do {
     (page_phyaddr, s) \<leftarrow> pool_alloc pf s;
     if page_phyaddr = NULL then Some (NULL, s)
     else do { s \<leftarrow> map_page vaddr page_phyaddr s; map_pages cnt pf va0 (vaddr + of_nat PG_SIZE) s }
   }"

definition malloc_page :: "pool_flags \<Rightarrow> u32 \<Rightarrow> 'a mstate_scheme \<Rightarrow> (addr \<times> 'a mstate_scheme) option" where
  "malloc_page pf pg_cnt s = do {
     ASSERT (0 < pg_cnt \<and> pg_cnt < 3840);
     (va0, s) \<leftarrow> vaddr_get pf pg_cnt s;
     if va0 = NULL then Some (NULL, s)
     else map_pages (unat pg_cnt) pf va0 va0 s
   }"

definition clear_pages :: "u32 \<Rightarrow> addr \<Rightarrow> 'a mstate_scheme \<Rightarrow> 'a mstate_scheme option" where
  "clear_pages pg_cnt vaddr s = do {
     ASSERT (vaddr \<noteq> NULL);
     clear_words (unat (pg_cnt * of_nat PG_SIZE) div 4) vaddr s
   }"

definition get_kernel_pages :: "u32 \<Rightarrow> 'a mstate_scheme \<Rightarrow> (addr \<times> 'a mstate_scheme) option" where
  "get_kernel_pages pg_cnt s = do {
     s \<leftarrow> lock_acquire_now (kernel_pool_lock s) s;
     (vaddr, s) \<leftarrow> malloc_page PF_KERNEL pg_cnt s;
     s \<leftarrow> (if vaddr \<noteq> NULL then clear_pages pg_cnt vaddr s else Some s);
     s \<leftarrow> lock_release_now (kernel_pool_lock s) s;
     Some (vaddr, s)
   }"

text \<open>\<^verbatim>\<open>get_user_pages\<close> clears the range a second time without the test for \<^verbatim>\<open>NULL\<close>.\<close>

definition get_user_pages :: "u32 \<Rightarrow> 'a mstate_scheme \<Rightarrow> (addr \<times> 'a mstate_scheme) option" where
  "get_user_pages pg_cnt s = do {
     s \<leftarrow> lock_acquire_now (user_pool_lock s) s;
     (vaddr, s) \<leftarrow> malloc_page PF_USER pg_cnt s;
     s \<leftarrow> (if vaddr \<noteq> NULL then clear_pages pg_cnt vaddr s else Some s);
     s \<leftarrow> clear_pages pg_cnt vaddr s;
     s \<leftarrow> lock_release_now (user_pool_lock s) s;
     Some (vaddr, s)
   }"

definition get_a_page :: "pool_flags \<Rightarrow> addr \<Rightarrow> 'a mstate_scheme \<Rightarrow> (addr \<times> 'a mstate_scheme) option" where
  "get_a_page pf vaddr s = do {
     s \<leftarrow> lock_acquire_now (pool_lock pf s) s;
     let cur = running_thread s;
     s \<leftarrow> (if pgdir (task s cur) \<noteq> NULL \<and> pf = PF_USER then do {
             let uv = userprog_vaddr (task s cur);
             let bit_idx = sint ((vaddr - vaddr_start uv) div of_nat PG_SIZE);
             ASSERT (0 \<le> bit_idx);
             b \<leftarrow> bitmap_set (vaddr_bitmap uv) (nat bit_idx) 1;
             Some (upd_task cur (\<lambda>t. t\<lparr>userprog_vaddr := uv\<lparr>vaddr_bitmap := b\<rparr>\<rparr>) s)
           } else if pgdir (task s cur) = NULL \<and> pf = PF_KERNEL then do {
             let bit_idx = sint ((vaddr - vaddr_start (kernel_vaddr s)) div of_nat PG_SIZE);
             ASSERT (0 < bit_idx);
             b \<leftarrow> bitmap_set (vaddr_bitmap (kernel_vaddr s)) (nat bit_idx) 1;
             Some (s\<lparr>kernel_vaddr := (kernel_vaddr s)\<lparr>vaddr_bitmap := b\<rparr>\<rparr>)
           } else None);
     (page_phyaddr, s) \<leftarrow> pool_alloc pf s;
     if page_phyaddr = NULL then Some (NULL, s)
     else do {
       s \<leftarrow> map_page vaddr page_phyaddr s;
       s \<leftarrow> lock_release_now (pool_lock pf s) s;
       Some (vaddr, s)
     }
   }"

definition get_a_page_without_opvaddrbitmap ::
    "pool_flags \<Rightarrow> addr \<Rightarrow> 'a mstate_scheme \<Rightarrow> (addr \<times> 'a mstate_scheme) option" where
  "get_a_page_without_opvaddrbitmap pf vaddr s = do {
     s \<leftarrow> lock_acquire_now (pool_lock pf s) s;
     (page_phyaddr, s) \<leftarrow> pool_alloc pf s;
     if page_phyaddr = NULL then do {
       s \<leftarrow> lock_release_now (pool_lock pf s) s;
       Some (NULL, s)
     } else do {
       s \<leftarrow> map_page vaddr page_phyaddr s;
       s \<leftarrow> lock_release_now (pool_lock pf s) s;
       Some (vaddr, s)
     }
   }"

definition pfree :: "u32 \<Rightarrow> 'a mstate_scheme \<Rightarrow> 'a mstate_scheme option" where
  "pfree pg_phy_addr s =
     (if phy_addr_start (user_pool s) \<le> pg_phy_addr then do {
        let bit_idx = (pg_phy_addr - phy_addr_start (user_pool s)) div of_nat PG_SIZE;
        b \<leftarrow> bitmap_set (pool_bitmap (user_pool s)) (unat bit_idx) 0;
        Some (s\<lparr>user_pool := (user_pool s)\<lparr>pool_bitmap := b\<rparr>\<rparr>)
      } else do {
        let bit_idx = (pg_phy_addr - phy_addr_start (kernel_pool s)) div of_nat PG_SIZE;
        b \<leftarrow> bitmap_set (pool_bitmap (kernel_pool s)) (unat bit_idx) 0;
        Some (s\<lparr>kernel_pool := (kernel_pool s)\<lparr>pool_bitmap := b\<rparr>\<rparr>)
      })"

text \<open>\<^verbatim>\<open>free_a_phy_page\<close> repeats the body of \<^verbatim>\<open>pfree\<close>.\<close>

definition free_a_phy_page :: "u32 \<Rightarrow> 'a mstate_scheme \<Rightarrow> 'a mstate_scheme option" where
  "free_a_phy_page pg_phy_addr s = pfree pg_phy_addr s"

primrec free_pages :: "nat \<Rightarrow> bool \<Rightarrow> addr \<Rightarrow> 'a mstate_scheme \<Rightarrow> 'a mstate_scheme option" where
  "free_pages 0 user vaddr s = Some s"
| "free_pages (Suc n) user vaddr s = do {
     pg_phy_addr \<leftarrow> addr_v2p vaddr s;
     ASSERT (pg_phy_addr mod of_nat PG_SIZE = 0 \<and>
       (if user then phy_addr_start (user_pool s) \<le> pg_phy_addr
        else phy_addr_start (kernel_pool s) \<le> pg_phy_addr \<and> pg_phy_addr < phy_addr_start (user_pool s)));
     s \<leftarrow> pfree pg_phy_addr s;
     s \<leftarrow> page_table_pte_remove vaddr s;
     free_pages n user (vaddr + of_nat PG_SIZE) s
   }"

definition mfree_page :: "pool_flags \<Rightarrow> addr \<Rightarrow> u32 \<Rightarrow> 'a mstate_scheme \<Rightarrow> 'a mstate_scheme option" where
  "mfree_page pf vaddr pg_cnt s = do {
     ASSERT (1 \<le> pg_cnt \<and> vaddr mod of_nat PG_SIZE = 0);
     pg_phy_addr \<leftarrow> addr_v2p vaddr s;
     ASSERT (pg_phy_addr mod of_nat PG_SIZE = 0 \<and> 0x102000 \<le> pg_phy_addr);
     s \<leftarrow> free_pages (unat pg_cnt) (phy_addr_start (user_pool s) \<le> pg_phy_addr) vaddr s;
     vaddr_remove pf vaddr pg_cnt s
   }"

section \<open>Blocks\<close>

definition arena2block :: "addr \<Rightarrow> u32 \<Rightarrow> 'a mstate_scheme \<Rightarrow> addr" where
  "arena2block a idx s = a + arena_size + idx * block_size s (arena_desc s a)"

definition block2arena :: "addr \<Rightarrow> addr" where "block2arena b = b AND 0xfffff000"

text \<open>The descriptor of the smallest block that fits; the loop ends at \<^verbatim>\<open>DESC_CNT\<close> when none does.\<close>

fun find_desc :: "nat \<Rightarrow> nat \<Rightarrow> u32 \<Rightarrow> addr \<Rightarrow> 'a mstate_scheme \<Rightarrow> nat" where
  "find_desc 0 i sz descs s = i"
| "find_desc (Suc n) i sz descs s =
     (if sz \<le> block_size s (desc_addr descs i) then i else find_desc n (Suc i) sz descs s)"

primrec fill_arena :: "nat \<Rightarrow> nat \<Rightarrow> addr \<Rightarrow> 'a mstate_scheme \<Rightarrow> 'a mstate_scheme option" where
  "fill_arena 0 i a s = Some s"
| "fill_arena (Suc n) i a s = do {
     let b = arena2block a (of_nat i) s;
     found \<leftarrow> elem_find (free_list (arena_desc s a)) b s;
     ASSERT (\<not> found);
     fill_arena n (Suc i) a (list_append (free_list (arena_desc s a)) b s)
   }"

primrec empty_arena :: "nat \<Rightarrow> nat \<Rightarrow> addr \<Rightarrow> 'a mstate_scheme \<Rightarrow> 'a mstate_scheme option" where
  "empty_arena 0 i a s = Some s"
| "empty_arena (Suc n) i a s = do {
     let b = arena2block a (of_nat i) s;
     found \<leftarrow> elem_find (free_list (arena_desc s a)) b s;
     ASSERT found;
     empty_arena n (Suc i) a (list_remove b s)
   }"

definition sys_malloc :: "u32 \<Rightarrow> 'a mstate_scheme \<Rightarrow> (addr \<times> 'a mstate_scheme) option" where
  "sys_malloc sz s =
     (let cur_thread = running_thread s;
          (pf, p_size, descs) = (if pgdir (task s cur_thread) = NULL
             then (PF_KERNEL, pool_size (kernel_pool s), k_block_descs s)
             else (PF_USER, pool_size (user_pool s), u_block_desc cur_thread))
      in if \<not> (0 < sz \<and> sz < p_size) then Some (NULL, s)
      else do {
        s \<leftarrow> lock_acquire_now (pool_lock pf s) s;
        if 1024 < sz then do {
          let page_cnt = (sz + arena_size + of_nat PG_SIZE - 1) div of_nat PG_SIZE;
          (a, s) \<leftarrow> malloc_page pf page_cnt s;
          if a \<noteq> NULL then do {
            s \<leftarrow> clear_pages page_cnt a s;
            let s = s\<lparr>arena_desc := (arena_desc s)(a := NULL), arena_cnt := (arena_cnt s)(a := page_cnt),
                      arena_large := (arena_large s)(a := True)\<rparr>;
            s \<leftarrow> lock_release_now (pool_lock pf s) s;
            Some (a + arena_size, s)
          } else do {
            s \<leftarrow> lock_release_now (pool_lock pf s) s;
            Some (NULL, s)
          }
        } else do {
          let desc = desc_addr descs (find_desc DESC_CNT 0 sz descs s);
          r \<leftarrow> (if list_empty (free_list desc) s then do {
                  (a, s) \<leftarrow> malloc_page pf 1 s;
                  if a = NULL then do { s \<leftarrow> lock_release_now (pool_lock pf s) s; Some (Inl s) }
                  else do {
                    s \<leftarrow> clear_pages 1 a s;
                    let s = s\<lparr>arena_desc := (arena_desc s)(a := desc), arena_large := (arena_large s)(a := False),
                              arena_cnt := (arena_cnt s)(a := blocks_per_arena s desc)\<rparr>;
                    let (old_status, s) = intr_disable s;
                    s \<leftarrow> fill_arena (unat (blocks_per_arena s desc)) 0 a s;
                    Some (Inr (snd (intr_set_status old_status s)))
                  }
                } else Some (Inr s));
          case r of
            Inl s \<Rightarrow> Some (NULL, s)
          | Inr s \<Rightarrow> do {
              let (b, s) = list_pop (free_list desc) s;
              s \<leftarrow> clear_words (unat (block_size s desc) div 4) b s;
              let a = block2arena b;
              let s = s\<lparr>arena_cnt := (arena_cnt s)(a := arena_cnt s a - 1)\<rparr>;
              s \<leftarrow> lock_release_now (pool_lock pf s) s;
              Some (b, s)
            }
        }
      })"

definition sys_free :: "addr \<Rightarrow> 'a mstate_scheme \<Rightarrow> 'a mstate_scheme option" where
  "sys_free ptr s = do {
     ASSERT (ptr \<noteq> NULL);
     ASSERT (pgdir (task s (running_thread s)) = NULL \<longrightarrow> K_HEAP_START \<le> ptr);
     let pf = (if pgdir (task s (running_thread s)) = NULL then PF_KERNEL else PF_USER);
     s \<leftarrow> lock_acquire_now (pool_lock pf s) s;
     let a = block2arena ptr;
     s \<leftarrow> (if arena_desc s a = NULL \<and> arena_large s a then mfree_page pf a (arena_cnt s a) s
           else do {
             let s = list_append (free_list (arena_desc s a)) ptr s;
             let s = s\<lparr>arena_cnt := (arena_cnt s)(a := arena_cnt s a + 1)\<rparr>;
             if arena_cnt s a = blocks_per_arena s (arena_desc s a) then do {
               s \<leftarrow> empty_arena (unat (blocks_per_arena s (arena_desc s a))) 0 a s;
               mfree_page pf a 1 s
             } else Some s
           });
     lock_release_now (pool_lock pf s) s
   }"

section \<open>Mapping a range of pages\<close>

lemma PDE_IDX_window: "unat w < 0xffc00000 \<Longrightarrow> PDE_IDX w \<noteq> 1023"
proof
  assume lt: "unat w < 0xffc00000" and "PDE_IDX w = 1023"
  then have "unat (drop_bit 22 w) = 1023" by (simp add: PDE_IDX_eq)
  then have "drop_bit 22 (unat w) = 1023" by (simp only: unat_drop_bit_eq)
  then have "unat w div 2 ^ 22 = 1023" by (simp add: drop_bit_eq_div)
  moreover have "unat w div 2 ^ 22 * 2 ^ 22 \<le> unat w" by (rule div_times_less_eq_dividend)
  ultimately show False using lt by simp
qed

lemma took_trans: "took kp kp' X \<Longrightarrow> took kp' kp'' Y \<Longrightarrow> took kp kp'' (X \<union> Y)"
  by (auto simp: took_def)

lemma took_disjoint: "took kp kp' X \<Longrightarrow> took kp' kp'' Y \<Longrightarrow> X \<inter> Y = {}"
  by (auto simp: took_def)

lemma took_finite: "took kp kp' X \<Longrightarrow> finite X"
  by (rule finite_subset [of _ "{..<bm_cap (pool_bitmap kp)}"]) (auto simp: took_def pool_free_def)

definition free_frames :: "pool \<Rightarrow> nat" where "free_frames kp = card {i. pool_free kp i}"

lemma free_frames_finite: "finite {i. pool_free kp i}"
  by (rule finite_subset [of _ "{..<bm_cap (pool_bitmap kp)}"]) (auto simp: pool_free_def)

lemma free_frames_pos: "0 < free_frames kp \<Longrightarrow> \<exists>i. pool_free kp i"
  unfolding free_frames_def by (metis (mono_tags) Collect_empty_eq card.empty less_irrefl)

lemma took_free_frames: "took kp kp' X \<Longrightarrow> free_frames kp' + card X = free_frames kp"
proof -
  assume t: "took kp kp' X"
  have "{i. pool_free kp' i} = {i. pool_free kp i} - X" "X \<subseteq> {i. pool_free kp i}" using t by (auto simp: took_def)
  then show ?thesis unfolding free_frames_def
    using card_Diff_subset [OF took_finite [OF t], of "{i. pool_free kp i}"] card_mono [OF free_frames_finite [of kp]]
    by (metis le_add_diff_inverse2)
qed

lemma vm_inv_take:
  assumes "vm_inv kp s" and "took kp kp' X"
  shows "vm_inv kp' s"
proof -
  have "pool_wf kp'" "\<And>i. pool_frame kp' i = pool_frame kp i" "\<And>i. pool_free kp' i \<Longrightarrow> pool_free kp i"
    using assms by (auto simp: vm_inv_def took_def pool_wf_def pool_frame_def)
  then show ?thesis using assms(1) by (auto simp: vm_inv_def)
qed

text \<open>One page: a frame for it, and a page table for it if there is none.\<close>

lemma map_one_page:
  assumes inv: "vm_inv (kernel_pool s) s" and w: "unat v < 0xffc00000" and un: "translate s v = None"
    and room: "2 \<le> free_frames (kernel_pool s)"
  shows "\<exists>i X p kp1 kp2. palloc (kernel_pool s) = Some (pool_frame (kernel_pool s) i, kp1)
    \<and> pool_free (kernel_pool s) i \<and> pool_frame (kernel_pool s) i \<noteq> NULL
    \<and> page_table_add v (pool_frame (kernel_pool s) i) kp1 (s\<lparr>kernel_pool := kp1\<rparr>)
        = Some (kp2, s\<lparr>kernel_pool := kp1, phys := p\<rparr>)
    \<and> took (kernel_pool s) kp2 X \<and> i \<in> X \<and> card X \<le> 2
    \<and> vm_inv kp2 (s\<lparr>phys := p\<rparr>)
    \<and> remaps v (pool_frame (kernel_pool s) i OR PG_US_U OR PG_RW_W OR PG_P_1) s (s\<lparr>phys := p\<rparr>)"
proof -
  let ?kp = "kernel_pool s"
  have "\<exists>i. pool_free ?kp i" using room free_frames_pos by simp
  then obtain i b where pal: "palloc ?kp = Some (pool_frame ?kp i, ?kp\<lparr>pool_bitmap := b\<rparr>)"
    and i: "pool_free ?kp i" and b: "bm_cap b = bm_cap (pool_bitmap ?kp)"
      "\<forall>j. bm_used b j = (j = i \<or> bm_used (pool_bitmap ?kp) j)"
    by (cases rule: palloc_cases [of ?kp]) auto
  let ?kp1 = "?kp\<lparr>pool_bitmap := b\<rparr>" and ?s1 = "s\<lparr>kernel_pool := ?kp\<lparr>pool_bitmap := b\<rparr>\<rparr>"
  have t1: "took ?kp ?kp1 {i}" by (rule took_one [OF i b])
  have tr: "translate ?s1 x = translate s x" "translate (?s1\<lparr>phys := q\<rparr>) x = translate (s\<lparr>phys := q\<rparr>) x" for x q
    by (rule translate_cong; simp)+
  have vc: "vm_inv k ?s1 = vm_inv k s" "vm_inv k (?s1\<lparr>phys := q\<rparr>) = vm_inv k (s\<lparr>phys := q\<rparr>)" for k q
    by (rule vm_inv_phys; simp)+
  have inv1: "vm_inv ?kp1 ?s1" using vm_inv_take [OF inv t1] by (simp add: vc)
  have "0 < free_frames ?kp1" using took_free_frames [OF t1] room by simp
  then have "\<exists>j. pool_free ?kp1 j" by (rule free_frames_pos)
  with page_table_add_cases [OF inv1 PDE_IDX_window [OF w], of "pool_frame ?kp i"] un tr obtain kp2 p Y where
    a: "page_table_add v (pool_frame ?kp i) ?kp1 ?s1 = Some (kp2, ?s1\<lparr>phys := p\<rparr>)" "vm_inv kp2 (?s1\<lparr>phys := p\<rparr>)"
      "remaps v (pool_frame ?kp i OR PG_US_U OR PG_RW_W OR PG_P_1) ?s1 (?s1\<lparr>phys := p\<rparr>)" "took ?kp1 kp2 Y" "card Y \<le> 1"
    by auto
  have "took ?kp kp2 ({i} \<union> Y)" by (rule took_trans [OF t1 a(4)])
  moreover have "card ({i} \<union> Y) \<le> 2" using card_Un_le [of "{i}" Y] a(5) by simp
  moreover have "vm_inv kp2 (s\<lparr>phys := p\<rparr>)" using a(2) by (simp add: vc)
  moreover have "remaps v (pool_frame ?kp i OR PG_US_U OR PG_RW_W OR PG_P_1) s (s\<lparr>phys := p\<rparr>)"
    using a(3) by (simp add: remaps_def tr)
  moreover have "pool_frame ?kp i \<noteq> NULL" using pool_frame_nonzero inv i by (simp add: vm_inv_def pool_free_def)
  ultimately show ?thesis using pal i a(1)
    by (intro exI [of _ i] exI [of _ "{i} \<union> Y"] exI [of _ p] exI [of _ ?kp1] exI [of _ kp2]) simp
qed

lemma page_at_Suc: "page_at (page_at base 1) k = page_at base (Suc k)" "page_at base 0 = base"
  by (simp_all add: page_at_def algebra_simps)

lemma kp_phys_swap: "s\<lparr>phys := p, kernel_pool := k\<rparr> = s\<lparr>kernel_pool := k, phys := p\<rparr>"
  by (cases s) simp

lemma map_pages_kernel:
  assumes "vm_inv (kernel_pool s) s" and "base AND 0xfff = 0" and "unat base + n * PG_SIZE \<le> 0xffc00000"
    and "\<forall>k<n. translate s (page_at base k) = None" and "2 * n \<le> free_frames (kernel_pool s)"
  shows "\<exists>kp p F X. map_pages n PF_KERNEL va0 base s = Some (va0, s\<lparr>kernel_pool := kp, phys := p\<rparr>)
    \<and> vm_inv kp (s\<lparr>phys := p\<rparr>) \<and> took (kernel_pool s) kp X \<and> inj_on F {..<n} \<and> F ` {..<n} \<subseteq> X
    \<and> (\<forall>w. PDE_IDX w \<noteq> 1023 \<longrightarrow> (\<forall>k<n. frame_of w \<noteq> page_at base k) \<longrightarrow> translate (s\<lparr>phys := p\<rparr>) w = translate s w)
    \<and> (\<forall>k<n. \<forall>w. frame_of w = page_at base k \<longrightarrow>
         translate (s\<lparr>phys := p\<rparr>) w = Some (pool_frame (kernel_pool s) (F k) + (w AND 0xfff)))"
  using assms
proof (induction n arbitrary: s base)
  case 0
  have "s\<lparr>kernel_pool := kernel_pool s, phys := phys s\<rparr> = s" "s\<lparr>phys := phys s\<rparr> = s" by simp_all
  then show ?case using "0.prems"(1) took_refl [of "kernel_pool s"]
    by (intro exI [of _ "kernel_pool s"] exI [of _ "phys s"] exI [of _ "\<lambda>_. 0"] exI [of _ "{}"]) simp
next
  case (Suc n)
  let ?kp = "kernel_pool s"
  have lt: "unat base < 0xffc00000" using Suc.prems(3) by (simp add: PG_SIZE_def)
  have un: "translate s base = None" using Suc.prems(4) page_at_Suc(2) by (metis zero_less_Suc)
  have wf: "pool_wf ?kp" using Suc.prems(1) by (simp add: vm_inv_def)
  from map_one_page [OF Suc.prems(1) lt un] Suc.prems(5) obtain i X p kp1 kp2 where
    a: "palloc ?kp = Some (pool_frame ?kp i, kp1)" "pool_free ?kp i" "pool_frame ?kp i \<noteq> NULL"
      "page_table_add base (pool_frame ?kp i) kp1 (s\<lparr>kernel_pool := kp1\<rparr>) = Some (kp2, s\<lparr>kernel_pool := kp1, phys := p\<rparr>)"
      "took ?kp kp2 X" "i \<in> X" "card X \<le> 2" "vm_inv kp2 (s\<lparr>phys := p\<rparr>)"
      "remaps base (pool_frame ?kp i OR PG_US_U OR PG_RW_W OR PG_P_1) s (s\<lparr>phys := p\<rparr>)" by auto
  define s2 where "s2 = s\<lparr>kernel_pool := kp2, phys := p\<rparr>"
  have rm: "translate s2 w = (if frame_of w = base then Some (pool_frame ?kp i + (w AND 0xfff)) else translate s w)"
    if "PDE_IDX w \<noteq> 1023" for w
    using remaps_app [OF a(9) that] pool_frame_aligned [OF wf] frame_of_aligned [OF Suc.prems(2)]
      translate_cong [of s2 "s\<lparr>phys := p\<rparr>" w] by (simp add: s2_def)
  have al: "page_at base k AND 0xfff = 0" "frame_of (page_at base k) = page_at base k" for k
    using page_at_low [OF Suc.prems(2)] frame_of_aligned by simp_all
  have bd: "unat (page_at base k) = unat base + k * PG_SIZE" if "k < Suc n" for k
    by (rule page_at_unat [OF _ that]) (use Suc.prems(3) in simp)
  have win: "PDE_IDX (page_at base k) \<noteq> 1023" if "k < Suc n" for k
    by (rule PDE_IDX_window) (use bd [OF that] that Suc.prems(3) in \<open>simp add: PG_SIZE_def\<close>)
  have ne: "page_at base k \<noteq> base" if "0 < k" "k < Suc n" for k
    using bd [OF that(2)] that(1) by (auto simp: PG_SIZE_def)
  have "unat (page_at base 1) = unat base + 1 * PG_SIZE"
    by (rule page_at_unat [of _ 2]) (use lt in \<open>simp_all add: PG_SIZE_def\<close>)
  then have b1: "unat (page_at base 1) + n * PG_SIZE \<le> 0xffc00000" using Suc.prems(3) by simp
  have kp2: "kernel_pool s2 = kp2" by (simp add: s2_def)
  have inv2: "vm_inv (kernel_pool s2) s2"
    using a(8) vm_inv_phys [of s2 "s\<lparr>phys := p\<rparr>" kp2] by (simp add: s2_def)
  have un2: "\<forall>k<n. translate s2 (page_at (page_at base 1) k) = None"
    unfolding page_at_Suc(1) using Suc.prems(4) rm win ne al(2) by auto
  have "free_frames kp2 + card X = free_frames ?kp" using took_free_frames [OF a(5)] .
  then have room2: "2 * n \<le> free_frames (kernel_pool s2)" using a(7) Suc.prems(5) kp2 by simp
  note ih = Suc.IH [OF inv2 al(1) b1 un2 room2, unfolded page_at_Suc(1) kp2]
  then obtain kp q F Y where
    h: "map_pages n PF_KERNEL va0 (page_at base 1) s2 = Some (va0, s2\<lparr>kernel_pool := kp, phys := q\<rparr>)"
      "vm_inv kp (s2\<lparr>phys := q\<rparr>)" "took kp2 kp Y" "inj_on F {..<n}" "F ` {..<n} \<subseteq> Y"
    and h6: "\<forall>w. PDE_IDX w \<noteq> 1023 \<longrightarrow> (\<forall>k<n. frame_of w \<noteq> page_at base (Suc k)) \<longrightarrow> translate (s2\<lparr>phys := q\<rparr>) w = translate s2 w"
    and h7: "\<forall>k<n. \<forall>w. frame_of w = page_at base (Suc k) \<longrightarrow>
         translate (s2\<lparr>phys := q\<rparr>) w = Some (pool_frame kp2 (F k) + (w AND 0xfff))"
    by (elim exE conjE)
  let ?F = "\<lambda>k. case k of 0 \<Rightarrow> i | Suc j \<Rightarrow> F j"
  have ph: "translate (s2\<lparr>phys := q\<rparr>) w = translate (s\<lparr>phys := q\<rparr>) w" for w by (rule translate_cong) (simp_all add: s2_def)
  have pf: "pool_frame kp2 j = pool_frame ?kp j" for j using a(5) by (simp add: took_def pool_frame_def)
  have dj: "X \<inter> Y = {}" using took_disjoint [OF a(5) h(3)] .
  have "map_pages (Suc n) PF_KERNEL va0 base s = Some (va0, s\<lparr>kernel_pool := kp, phys := q\<rparr>)"
    using h(1) a(1,3,4) by (simp add: pool_alloc_def map_page_def s2_def page_at_def add.commute kp_phys_swap)
  moreover have "vm_inv kp (s\<lparr>phys := q\<rparr>)" using h(2) vm_inv_phys [of "s2\<lparr>phys := q\<rparr>" "s\<lparr>phys := q\<rparr>" kp] by (simp add: s2_def)
  moreover have "took ?kp kp (X \<union> Y)" using took_trans [OF a(5) h(3)] .
  moreover have "inj_on ?F {..<Suc n}"
    using h(4,5) a(6) dj by (fastforce simp: inj_on_def split: nat.splits)
  moreover have "?F ` {..<Suc n} \<subseteq> X \<union> Y" using h(5) a(6) by (fastforce split: nat.splits)
  moreover have "translate (s\<lparr>phys := q\<rparr>) w = translate s w"
    if "PDE_IDX w \<noteq> 1023" "\<forall>k<Suc n. frame_of w \<noteq> page_at base k" for w
  proof -
    have "frame_of w \<noteq> base" using that(2) page_at_Suc(2) by (metis zero_less_Suc)
    then show ?thesis using h6 [rule_format, OF that(1)] that(2) rm [OF that(1)] by (simp add: ph)
  qed
  moreover have "translate (s\<lparr>phys := q\<rparr>) w = Some (pool_frame ?kp (?F k) + (w AND 0xfff))"
    if "k < Suc n" "frame_of w = page_at base k" for k w
  proof (cases k)
    case 0
    have idx: "PDE_IDX w = PDE_IDX base" using that(2) 0 al(2) [of 0] same_page [of w base] by (simp add: page_at_Suc)
    then have nw: "PDE_IDX w \<noteq> 1023" using win [of 0] by (simp add: page_at_Suc)
    have "frame_of w = base" using that(2) 0 by (simp add: page_at_Suc)
    moreover have "\<forall>k<n. frame_of w \<noteq> page_at base (Suc k)" using \<open>frame_of w = base\<close> ne by fastforce
    ultimately show ?thesis using h6 [rule_format, OF nw] rm [OF nw] 0 by (simp add: ph)
  next
    case (Suc j)
    then show ?thesis using h7 that by (simp add: ph pf)
  qed
  ultimately show ?case by (intro exI [of _ kp] exI [of _ q] exI [of _ ?F] exI [of _ "X \<union> Y"]) blast
qed

section \<open>Ranges of virtual pages\<close>

lemma set_run_spec:
  "v = 0 \<or> v = 1 \<Longrightarrow> \<exists>b'. set_run n i v b = Some b' \<and> bm_cap b' = bm_cap b
     \<and> (\<forall>j. bm_used b' j = (if i \<le> j \<and> j < i + n then v = 1 else bm_used b j))"
proof (induction n arbitrary: i b)
  case 0
  then show ?case by auto
next
  case (Suc n)
  obtain c where c: "bitmap_set b i v = Some c" using bm.set_some [OF Suc.prems] by blast
  from Suc.IH [OF Suc.prems, of "Suc i" c] obtain b' where
    b': "set_run n (Suc i) v c = Some b'" "bm_cap b' = bm_cap c"
      "\<forall>j. bm_used b' j = (if Suc i \<le> j \<and> j < Suc i + n then v = 1 else bm_used c j)" by blast
  have "bm_used b' j = (if i \<le> j \<and> j < i + Suc n then v = 1 else bm_used b j)" for j
    using b'(3) bm.set_used [OF c] by (cases "j = i") auto
  then show ?case using c b'(1,2) bm.set_cap [OF c] by simp
qed

text \<open>
  The kernel's heap range: it is aligned, lies below the table window, and its unused pages -
  the search also looks at the page after the last - are unmapped.
\<close>

definition heap_wf :: "virtual_addr \<Rightarrow> 'a vmstate_scheme \<Rightarrow> bool" where
  "heap_wf kv s = (vaddr_start kv AND 0xfff = 0 \<and> vaddr_start kv \<noteq> NULL
     \<and> unat (vaddr_start kv) + (bm_cap (vaddr_bitmap kv) + 1) * PG_SIZE \<le> 0xffc00000
     \<and> (\<forall>i\<le>bm_cap (vaddr_bitmap kv). \<not> bm_used (vaddr_bitmap kv) i \<longrightarrow> translate s (page_at (vaddr_start kv) i) = None))"

lemma page_at_add: "page_at (page_at b i) k = page_at b (i + k)"
  by (simp add: page_at_def algebra_simps)

lemma vaddr_get_kernel:
  assumes wf: "heap_wf (kernel_vaddr s) s" and n: "1 \<le> unat pg_cnt"
    and run: "\<exists>r. r + unat pg_cnt \<le> bm_cap (vaddr_bitmap (kernel_vaddr s)) \<and> free_run (vaddr_bitmap (kernel_vaddr s)) r (unat pg_cnt)"
  shows "\<exists>r b. vaddr_get PF_KERNEL pg_cnt s = Some (page_at (vaddr_start (kernel_vaddr s)) r,
        s\<lparr>kernel_vaddr := (kernel_vaddr s)\<lparr>vaddr_bitmap := b\<rparr>\<rparr>)
    \<and> r + unat pg_cnt \<le> bm_cap (vaddr_bitmap (kernel_vaddr s)) + 1
    \<and> free_run (vaddr_bitmap (kernel_vaddr s)) r (unat pg_cnt) \<and> bm_cap b = bm_cap (vaddr_bitmap (kernel_vaddr s))
    \<and> (\<forall>j. bm_used b j = (r \<le> j \<and> j < r + unat pg_cnt \<or> bm_used (vaddr_bitmap (kernel_vaddr s)) j))"
proof -
  let ?b = "vaddr_bitmap (kernel_vaddr s)" and ?n = "unat pg_cnt"
  obtain res where res: "bitmap_scan ?b ?n = Some res" "first_fit ?b ?n (scan_limit ?b ?n) res"
    using bitmap_scan_first_fit [OF n, of ?b] by blast
  have "bm_cap ?b \<le> scan_limit ?b ?n" "scan_limit ?b ?n \<le> bm_cap ?b + 1" by (simp_all add: scan_limit_def)
  then have "\<exists>r. r + ?n \<le> scan_limit ?b ?n \<and> free_run ?b r ?n" using run by (meson le_trans)
  then obtain r where r: "res = int r" "r + ?n \<le> scan_limit ?b ?n" "free_run ?b r ?n"
    using res(2) unfolding first_fit_def by (auto split: if_splits)
  obtain b where b: "set_run ?n r 1 ?b = Some b" "bm_cap b = bm_cap ?b"
    "\<forall>j. bm_used b j = (if r \<le> j \<and> j < r + ?n then (1::int) = 1 else bm_used ?b j)"
    using set_run_spec [of 1 ?n r ?b] by auto
  have "vaddr_get PF_KERNEL pg_cnt s = Some (page_at (vaddr_start (kernel_vaddr s)) r,
        s\<lparr>kernel_vaddr := (kernel_vaddr s)\<lparr>vaddr_bitmap := b\<rparr>\<rparr>)"
    using res(1) r(1) b(1) by (simp add: vaddr_get_def page_at_def add.commute)
  then show ?thesis using r b \<open>scan_limit ?b ?n \<le> bm_cap ?b + 1\<close> by (intro exI [of _ r] exI [of _ b]) auto
qed

lemma mem_pages:
  fixes all_mem :: u32
  assumes "0x200000 \<le> unat all_mem" and "unat all_mem < 0x200000 + 0x10000 * PG_SIZE"
  defines "F \<equiv> (unat all_mem - 0x200000) div PG_SIZE"
  shows "unat (ucast ((all_mem - (0x100000 + of_nat PG_SIZE * 256)) div of_nat PG_SIZE) :: u16) = F"
    and "F < 2 ^ 16" and "0x200000 + F * PG_SIZE \<le> unat all_mem"
proof -
  have F: "F = (unat all_mem - 0x200000) div 4096" by (simp add: F_def PG_SIZE_def)
  have lt: "unat all_mem - 0x200000 < 0x10000 * 4096" using assms(1,2) by (simp add: PG_SIZE_def)
  show F16: "F < 2 ^ 16" unfolding F using lt by (simp add: div_less_iff_less_mult)
  have "F * 4096 \<le> unat all_mem - 0x200000" unfolding F by (rule div_times_less_eq_dividend)
  then show "0x200000 + F * PG_SIZE \<le> unat all_mem" using assms(1) by (simp add: PG_SIZE_def)
  have le: "(0x200000 :: u32) \<le> all_mem" using assms(1) by (simp add: word_le_nat_alt)
  have "unat ((all_mem - 0x200000) div 4096) = F"
    unfolding F using unat_sub [OF le] by (simp add: unat_div)
  moreover have "(0x100000 + of_nat PG_SIZE * 256 :: u32) = 0x200000" "(of_nat PG_SIZE :: u32) = 4096"
    by (simp_all add: PG_SIZE_def)
  ultimately show "unat (ucast ((all_mem - (0x100000 + of_nat PG_SIZE * 256)) div of_nat PG_SIZE) :: u16) = F"
    using F16 by (simp add: unsigned_ucast_eq take_bit_nat_eq_self)
qed

text \<open>A freshly initialised pool of \<open>n\<close> pages, rounded down to whole bytes of its bitmap.\<close>

lemma fresh_pool:
  assumes "base AND 0xfff = 0" and "0 < unat base" and "unat base + n * PG_SIZE \<le> lim" and "lim \<le> 2 ^ 32"
    and kp: "kp = \<lparr>pool_bitmap = bitmap_init \<lparr>btmp_bytes_len = n div 8, bits = bs\<rparr>, phy_addr_start = base, pool_size = sz\<rparr>"
  shows "pool_wf kp" and "\<forall>i<bm_cap (pool_bitmap kp). pool_free kp i \<and> unat base \<le> unat (pool_frame kp i)
       \<and> unat (pool_frame kp i) + PG_SIZE \<le> lim"
proof -
  have cap: "bm_cap (pool_bitmap kp) = 8 * (n div 8)" by (simp add: kp bm_cap_def bitmap_init_def)
  have "8 * (n div 8) \<le> n" by simp
  then have le: "8 * (n div 8) * PG_SIZE \<le> n * PG_SIZE" by (rule mult_le_mono1)
  then have "unat base + 8 * (n div 8) * PG_SIZE \<le> 2 ^ 32" using assms(3,4) by linarith
  then show wf: "pool_wf kp"
    unfolding pool_wf_def cap using assms(1,2) by (auto simp: kp)
  show "\<forall>i<bm_cap (pool_bitmap kp). pool_free kp i \<and> unat base \<le> unat (pool_frame kp i)
       \<and> unat (pool_frame kp i) + PG_SIZE \<le> lim"
  proof (intro allI impI)
    fix i assume i: "i < bm_cap (pool_bitmap kp)"
    have u: "unat (pool_frame kp i) = unat base + i * PG_SIZE" using pool_frame_unat [OF wf i] by (simp add: kp)
    have "Suc i \<le> n" using i cap \<open>8 * (n div 8) \<le> n\<close> by simp
    then have "Suc i * PG_SIZE \<le> n * PG_SIZE" by (rule mult_le_mono1)
    then have "unat base + i * PG_SIZE + PG_SIZE \<le> lim" using assms(3) by simp
    moreover have "pool_free kp i" using i by (simp add: pool_free_def kp bm_init_used)
    ultimately show "pool_free kp i \<and> unat base \<le> unat (pool_frame kp i) \<and> unat (pool_frame kp i) + PG_SIZE \<le> lim"
      using u by simp
  qed
qed

section \<open>A concrete memory for the witnesses\<close>

definition demo_m :: mstate where
  "demo_m = \<lparr>eflags = 2, lprev = (\<lambda>_. 0), lnext = (\<lambda>_. 0), phys = phys demo_vm, cr3 = cr3 demo_vm, esp = 0x5f00,
     task = (\<lambda>t. demo_task t TASK_RUNNING), konts = (\<lambda>_. []), main_thread = 0x5000, idle_thread = 0x7000,
     thread_ready_list = 0x1000, thread_all_list = 0x1100, tss_seg = \<lparr>esp0 = 0, ss0 = 0, io_base = 0\<rparr>, ticks_total = 0,
     sem_value = (\<lambda>_. 1), lock_owner = (\<lambda>_. NULL), holder_repeat_nr = (\<lambda>_. 0),
     kernel_pool = demo_pool, user_pool = demo_pool\<lparr>phy_addr_start := 0x300000\<rparr>, kernel_pool_lock = 0x2000,
     user_pool_lock = 0x2100, kernel_vaddr = \<lparr>vaddr_bitmap = \<lparr>btmp_bytes_len = 1, bits = (\<lambda>_. 0)\<rparr>, vaddr_start = 0xc0100000\<rparr>,
     k_block_descs = 0x3000, block_size = (\<lambda>_. 0), blocks_per_arena = (\<lambda>_. 0), arena_desc = (\<lambda>_. NULL),
     arena_cnt = (\<lambda>_. 0), arena_large = (\<lambda>_. False)\<rparr>"

lemma demo_m_vm: "vm_inv (kernel_pool demo_m) demo_m"
  using demo_vm_inv vm_inv_phys [of demo_m demo_vm demo_pool] by (simp add: demo_m_def)

lemma demo_m_translate: "PDE_IDX w \<noteq> 1023 \<Longrightarrow> translate demo_m w = None"
proof -
  assume "PDE_IDX w \<noteq> 1023"
  then have "translate demo_vm w = None" by (simp add: translate_eq demo_pde)
  then show ?thesis using translate_cong [of demo_m demo_vm w] by (simp add: demo_m_def)
qed

lemma demo_m_heap: "heap_wf (kernel_vaddr demo_m) demo_m"
proof -
  have "translate demo_m (page_at 0xc0100000 i) = None" if "i \<le> 8" for i
  proof (rule demo_m_translate, rule PDE_IDX_window)
    have "unat (page_at 0xc0100000 i) = unat (0xc0100000 :: u32) + i * PG_SIZE"
      by (rule page_at_unat [of _ 9]) (use that in \<open>simp_all add: PG_SIZE_def\<close>)
    then show "unat (page_at 0xc0100000 i) < 0xffc00000" using that by (simp add: PG_SIZE_def)
  qed
  then show ?thesis by (simp add: heap_wf_def demo_m_def bm_cap_def PG_SIZE_def)
qed

lemma demo_m_frames: "free_frames (kernel_pool demo_m) = 8"
proof -
  have "{i. pool_free demo_pool i} = {..<8}" by (auto simp: demo_pool_free)
  then show ?thesis by (simp add: free_frames_def demo_m_def)
qed

section \<open>Properties\<close>



text \<open>
  C33: the boot-time division of memory. For any memory of 2 MiB up to 258 MiB the two pools are
  well formed, every frame of the kernel pool lies from 2 MiB up to the start of the user pool,
  every frame of the user pool lies from there up to the end of memory, so the pools are disjoint,
  and all frames and all heap pages start out free.
\<close>

theorem mem_pool_init_correct:
  assumes "0x200000 \<le> unat all_mem" and "unat all_mem < 0x200000 + 0x10000 * PG_SIZE"
  shows "let s' = mem_pool_init all_mem s; kp = kernel_pool s'; up = user_pool s' in
    pool_wf kp \<and> pool_wf up
    \<and> (\<forall>i<bm_cap (pool_bitmap kp). pool_free kp i \<and> 0x200000 \<le> unat (pool_frame kp i)
         \<and> unat (pool_frame kp i) + PG_SIZE \<le> unat (phy_addr_start up))
    \<and> (\<forall>i<bm_cap (pool_bitmap up). pool_free up i \<and> unat (phy_addr_start up) \<le> unat (pool_frame up i)
         \<and> unat (pool_frame up i) + PG_SIZE \<le> unat all_mem)
    \<and> (\<forall>i<bm_cap (vaddr_bitmap (kernel_vaddr s')). \<not> bm_used (vaddr_bitmap (kernel_vaddr s')) i)
    \<and> bm_cap (vaddr_bitmap (kernel_vaddr s')) = bm_cap (pool_bitmap kp)"
proof -
  define F where "F = (unat all_mem - 0x200000) div PG_SIZE"
  note F = mem_pages [OF assms, folded F_def]
  define k u where "k = F div 2" and "u = F - k"
  define up :: u32 where "up = page_at 0x200000 k"
  have ku: "k + u = F" by (simp add: k_def u_def)
  have am: "unat all_mem < 2 ^ 32" by (rule unat_u32_less)
  have "unat (0x200000 :: u32) + (k + 1) * PG_SIZE \<le> 2 ^ 32"
    using F(3) am ku F(2) by (simp add: PG_SIZE_def k_def)
  from page_at_unat [OF this, of k] have un_up: "unat up = 0x200000 + k * PG_SIZE" by (simp add: up_def)
  have al_up: "up AND 0xfff = 0" unfolding up_def by (rule page_at_low) simp
  let ?afp = "ucast ((all_mem - (0x100000 + of_nat PG_SIZE * 256)) div of_nat PG_SIZE) :: u16"
  have uk: "unat (?afp div 2) = k" using F(1) by (simp add: unat_div k_def)
  have "?afp div 2 \<le> ?afp" using uk F(1) by (simp add: word_le_nat_alt k_def)
  then have uu: "unat (?afp - ?afp div 2) = u" using unat_sub [of "?afp div 2" ?afp] uk F(1) by (simp add: u_def)
  have "(ucast (?afp div 2) :: u32) = of_nat k" by (simp add: uk [symmetric])
  then have st: "0x100000 + of_nat PG_SIZE * 256 + ucast (?afp div 2) * of_nat PG_SIZE = up"
    by (simp add: up_def page_at_def PG_SIZE_def)
  have c1: "unat (0x200000 :: u32) + k * PG_SIZE \<le> unat up" by (simp add: un_up)
  have c2: "unat up + u * PG_SIZE \<le> unat all_mem" using F(3) ku un_up by (metis add.assoc add_mult_distrib)
  have lk: "lock_init l s\<lparr>kernel_vaddr := kv\<rparr> = lock_init l s\<lparr>kernel_vaddr := kv\<rparr>" for l kv by simp
  have fld: "kernel_pool (mem_pool_init all_mem s) = \<lparr>pool_bitmap = bitmap_init \<lparr>btmp_bytes_len = k div 8,
        bits = bits (pool_bitmap (kernel_pool s))\<rparr>, phy_addr_start = 0x200000, pool_size = ucast (?afp div 2) * of_nat PG_SIZE\<rparr>"
    "user_pool (mem_pool_init all_mem s) = \<lparr>pool_bitmap = bitmap_init \<lparr>btmp_bytes_len = u div 8,
        bits = bits (pool_bitmap (user_pool s))\<rparr>, phy_addr_start = up, pool_size = ucast (?afp - ?afp div 2) * of_nat PG_SIZE\<rparr>"
    "vaddr_bitmap (kernel_vaddr (mem_pool_init all_mem s)) = bitmap_init \<lparr>btmp_bytes_len = k div 8,
        bits = bits (vaddr_bitmap (kernel_vaddr s))\<rparr>"
    unfolding mem_pool_init_def Let_def uk uu st
    by (simp_all add: lock_init_def sema_init_def list_init_def) (simp add: PG_SIZE_def)
  have "(0x200000 :: u32) AND 0xfff = 0" "0 < unat (0x200000 :: u32)" by simp_all
  note kpl = fresh_pool [OF this c1 order.strict_implies_order [OF unat_u32_less] fld(1)]
  have "0 < unat up" by (simp add: un_up)
  note upl = fresh_pool [OF al_up this c2 order.strict_implies_order [OF am] fld(2)]
  have "phy_addr_start (user_pool (mem_pool_init all_mem s)) = up" by (simp only: fld pool.simps)
  moreover have "bm_cap (vaddr_bitmap (kernel_vaddr (mem_pool_init all_mem s))) = bm_cap (pool_bitmap (kernel_pool (mem_pool_init all_mem s)))"
    by (simp only: fld pool.simps bm_cap_def bitmap_init_def bitmap.simps)
  moreover have "\<forall>i<bm_cap (vaddr_bitmap (kernel_vaddr (mem_pool_init all_mem s))). \<not> bm_used (vaddr_bitmap (kernel_vaddr (mem_pool_init all_mem s))) i"
    unfolding fld by (simp add: bm_init_used)
  moreover have "0x200000 = unat (0x200000 :: u32)" by simp
  ultimately show ?thesis using kpl upl unfolding Let_def by metis
qed

theorem mem_pool_init_correct_witness:
  "unat (phy_addr_start (user_pool (mem_pool_init 0x2000000 demo_m))) \<le> 0x2000000
   \<and> pool_wf (user_pool (mem_pool_init 0x2000000 demo_m))"
proof -
  have "0x200000 \<le> unat (0x2000000 :: u32)" "unat (0x2000000 :: u32) < 0x200000 + 0x10000 * PG_SIZE"
    by (simp_all add: PG_SIZE_def)
  from mem_pool_init_correct [OF this, of demo_m] show ?thesis
    by (simp add: Let_def mem_pool_init_def lock_init_def sema_init_def list_init_def PG_SIZE_def)
qed

end
