(* ===== verification/Ioqueue.thy ===== *)
theory Ioqueue
  imports Prelude
begin

text \<open>
  The ring buffer of \<^verbatim>\<open>device/ioqueue.c\<close> behind the keyboard and the pipes. Head and tail are indices;
  \<^verbatim>\<open>ioq_putchar\<close> and \<^verbatim>\<open>ioq_getchar\<close> are modelled up to the point where the caller would wait: on a full,
  or empty, queue the result is \<open>None\<close>, otherwise the new queue, with the task the call passes to
  \<^verbatim>\<open>thread_unblock\<close> (\<open>NULL\<close> when there is none). The callers run with interrupts off, which the
  \<^verbatim>\<open>ASSERT\<close>s of the code demand.

  The queue refines a list of at most \<^verbatim>\<open>bufsize - 1\<close> bytes; the laws are stated as a locale and the
  code is an interpretation of it.
\<close>

section \<open>The code\<close>

definition bufsize :: nat where "bufsize = 64"

record ioqueue =
  producer :: addr
  consumer :: addr
  ioq_buf :: "u8 list"
  ioq_head :: nat
  ioq_tail :: nat

definition ioqueue_init :: "ioqueue \<Rightarrow> ioqueue" where
  "ioqueue_init q = q\<lparr>producer := NULL, consumer := NULL, ioq_head := 0, ioq_tail := 0\<rparr>"

definition next_pos :: "nat \<Rightarrow> nat" where
  "next_pos p = (p + 1) mod bufsize"

definition ioq_full :: "ioqueue \<Rightarrow> bool" where
  "ioq_full q = (next_pos (ioq_head q) = ioq_tail q)"

definition ioq_empty :: "ioqueue \<Rightarrow> bool" where
  "ioq_empty q = (ioq_head q = ioq_tail q)"

definition ioq_getchar :: "ioqueue \<Rightarrow> (u8 \<times> ioqueue \<times> addr) option" where
  "ioq_getchar q =
     (if ioq_empty q then None
      else let byte = ioq_buf q ! ioq_tail q; q = q\<lparr>ioq_tail := next_pos (ioq_tail q)\<rparr>
           in if producer q \<noteq> NULL then Some (byte, q\<lparr>producer := NULL\<rparr>, producer q) else Some (byte, q, NULL))"

definition ioq_putchar :: "u8 \<Rightarrow> ioqueue \<Rightarrow> (ioqueue \<times> addr) option" where
  "ioq_putchar byte q =
     (if ioq_full q then None
      else let q = q\<lparr>ioq_buf := (ioq_buf q)[ioq_head q := byte], ioq_head := next_pos (ioq_head q)\<rparr>
           in if consumer q \<noteq> NULL then Some (q\<lparr>consumer := NULL\<rparr>, consumer q) else Some (q, NULL))"

definition ioq_length :: "ioqueue \<Rightarrow> nat" where
  "ioq_length q = (if ioq_tail q \<le> ioq_head q then ioq_head q - ioq_tail q else ioq_head q + bufsize - ioq_tail q)"

section \<open>The queue as a list\<close>

definition ioq_wf :: "ioqueue \<Rightarrow> bool" where
  "ioq_wf q = (length (ioq_buf q) = bufsize \<and> ioq_head q < bufsize \<and> ioq_tail q < bufsize)"

definition ioq_list :: "ioqueue \<Rightarrow> u8 list" where
  "ioq_list q = map (\<lambda>k. ioq_buf q ! ((ioq_tail q + k) mod bufsize)) [0..<ioq_length q]"

lemma ioq_length_less: "ioq_wf q \<Longrightarrow> ioq_length q < bufsize"
  by (auto simp: ioq_wf_def ioq_length_def)

lemma head_pos: "ioq_wf q \<Longrightarrow> ioq_head q = (ioq_tail q + ioq_length q) mod bufsize"
  by (auto simp: ioq_wf_def ioq_length_def mod_if)

lemma next_pos_less [simp]: "next_pos p < bufsize"
  by (simp add: next_pos_def bufsize_def)

lemma full_length: "ioq_wf q \<Longrightarrow> ioq_full q = (ioq_length q = bufsize - 1)"
  by (auto simp: ioq_wf_def ioq_full_def ioq_length_def next_pos_def mod_if)

lemma empty_length: "ioq_wf q \<Longrightarrow> ioq_empty q = (ioq_length q = 0)"
  by (auto simp: ioq_wf_def ioq_empty_def ioq_length_def)

lemma slot_distinct:
  assumes "t < n" and "j < k" and "k < (n :: nat)"
  shows "(t + j) mod n \<noteq> (t + k) mod n"
  using assms by (auto simp: mod_if)

lemma length_after_put:
  assumes "ioq_wf q" and "\<not> ioq_full q"
  shows "ioq_length (q\<lparr>ioq_buf := b, ioq_head := next_pos (ioq_head q)\<rparr>) = Suc (ioq_length q)"
  using assms by (auto simp: ioq_wf_def ioq_full_def ioq_length_def next_pos_def mod_if split: if_splits)

lemma length_after_get:
  assumes "ioq_wf q" and "\<not> ioq_empty q"
  shows "Suc (ioq_length (q\<lparr>ioq_tail := next_pos (ioq_tail q)\<rparr>)) = ioq_length q"
  using assms by (auto simp: ioq_wf_def ioq_empty_def ioq_length_def next_pos_def mod_if split: if_splits)

lemma list_after_put:
  assumes wf: "ioq_wf q" and nf: "\<not> ioq_full q"
  shows "ioq_list (q\<lparr>ioq_buf := (ioq_buf q)[ioq_head q := x], ioq_head := next_pos (ioq_head q)\<rparr>) = ioq_list q @ [x]"
proof -
  let ?n = "ioq_length q" and ?q = "q\<lparr>ioq_buf := (ioq_buf q)[ioq_head q := x], ioq_head := next_pos (ioq_head q)\<rparr>"
  have h: "ioq_head q = (ioq_tail q + ?n) mod bufsize" and len: "?n < bufsize" and b: "length (ioq_buf q) = bufsize" "ioq_tail q < bufsize"
    using wf head_pos ioq_length_less by (auto simp: ioq_wf_def)
  have "(ioq_buf q)[ioq_head q := x] ! ((ioq_tail q + k) mod bufsize) = ioq_buf q ! ((ioq_tail q + k) mod bufsize)" if "k < ?n" for k
    using slot_distinct [OF b(2) that len] by (simp add: h)
  moreover have "(ioq_buf q)[ioq_head q := x] ! ((ioq_tail q + ?n) mod bufsize) = x"
    using b h by (metis nth_list_update_eq mod_less_divisor not_less_zero gr_zeroI)
  moreover have "ioq_length ?q = Suc ?n" by (rule length_after_put [OF wf nf])
  ultimately show ?thesis by (simp add: ioq_list_def)
qed

lemma list_after_get:
  assumes wf: "ioq_wf q" and ne: "\<not> ioq_empty q"
  shows "ioq_list q = ioq_buf q ! ioq_tail q # ioq_list (q\<lparr>ioq_tail := next_pos (ioq_tail q)\<rparr>)"
proof -
  let ?q = "q\<lparr>ioq_tail := next_pos (ioq_tail q)\<rparr>"
  have len: "ioq_length q = Suc (ioq_length ?q)" using length_after_get [OF wf ne] by simp
  have t: "ioq_tail q mod bufsize = ioq_tail q" using wf by (simp add: ioq_wf_def)
  have "(next_pos (ioq_tail q) + k) mod bufsize = (ioq_tail q + Suc k) mod bufsize" for k
    by (simp add: next_pos_def mod_simps)
  then show ?thesis
    unfolding ioq_list_def len by (simp add: upt_conv_Cons map_Suc_upt [symmetric] t del: upt_Suc)
qed

section \<open>The interface\<close>

text \<open>A bounded first-in first-out buffer: what the keyboard and the pipes rely on.\<close>

locale byte_queue =
  fixes inv :: "'q \<Rightarrow> bool" and contents :: "'q \<Rightarrow> u8 list" and cap :: nat
    and putc :: "u8 \<Rightarrow> 'q \<Rightarrow> ('q \<times> addr) option" and getc :: "'q \<Rightarrow> (u8 \<times> 'q \<times> addr) option"
  assumes put_room: "inv q \<Longrightarrow> length (contents q) < cap \<Longrightarrow>
      \<exists>q' w. putc x q = Some (q', w) \<and> inv q' \<and> contents q' = contents q @ [x]"
    and put_full: "inv q \<Longrightarrow> length (contents q) = cap \<Longrightarrow> putc x q = None"
    and get_some: "inv q \<Longrightarrow> contents q = x # xs \<Longrightarrow> \<exists>q' w. getc q = Some (x, q', w) \<and> inv q' \<and> contents q' = xs"
    and get_none: "inv q \<Longrightarrow> contents q = [] \<Longrightarrow> getc q = None"
    and bounded: "inv q \<Longrightarrow> length (contents q) \<le> cap"
begin

primrec put_all :: "u8 list \<Rightarrow> 'q \<Rightarrow> 'q option" where
  "put_all [] q = Some q"
| "put_all (x # xs) q = do { (q, _) \<leftarrow> putc x q; put_all xs q }"

primrec get_all :: "nat \<Rightarrow> 'q \<Rightarrow> (u8 list \<times> 'q) option" where
  "get_all 0 q = Some ([], q)"
| "get_all (Suc n) q = do { (x, q, _) \<leftarrow> getc q; (xs, q) \<leftarrow> get_all n q; Some (x # xs, q) }"

lemma put_all_contents:
  "inv q \<Longrightarrow> length (contents q) + length xs \<le> cap \<Longrightarrow>
     \<exists>q'. put_all xs q = Some q' \<and> inv q' \<and> contents q' = contents q @ xs"
proof (induction xs arbitrary: q)
  case (Cons x xs)
  from Cons.prems obtain q' w where q': "putc x q = Some (q', w)" "inv q'" "contents q' = contents q @ [x]"
    using put_room [of q x] by auto
  with Cons.IH [of q'] Cons.prems(2) show ?case by simp
qed simp

lemma get_all_contents:
  "inv q \<Longrightarrow> n \<le> length (contents q) \<Longrightarrow>
     \<exists>q'. get_all n q = Some (take n (contents q), q') \<and> inv q' \<and> contents q' = drop n (contents q)"
proof (induction n arbitrary: q)
  case (Suc n)
  then obtain x xs where c: "contents q = x # xs" by (cases "contents q") auto
  with Suc.prems(1) get_some obtain q' w where q': "getc q = Some (x, q', w)" "inv q'" "contents q' = xs" by blast
  with Suc.IH [of q'] Suc.prems(2) c show ?case by auto
qed simp

end

lemma bytes_of_ring:
  assumes "ioq_wf q"
  shows "length (ioq_list q) = ioq_length q" and "length (ioq_list q) \<le> bufsize - 1"
  using ioq_length_less [OF assms] by (simp_all add: ioq_list_def)

interpretation ring: byte_queue ioq_wf ioq_list "bufsize - 1" ioq_putchar ioq_getchar
proof
  fix q x assume wf: "ioq_wf q" and "length (ioq_list q) < bufsize - 1"
  then have nf: "\<not> ioq_full q" by (simp add: full_length bytes_of_ring)
  show "\<exists>q' w. ioq_putchar x q = Some (q', w) \<and> ioq_wf q' \<and> ioq_list q' = ioq_list q @ [x]"
    using list_after_put [OF wf nf, of x] nf wf
    by (auto simp: ioq_putchar_def Let_def ioq_wf_def ioq_list_def ioq_length_def)
next
  fix q x assume "ioq_wf q" "length (ioq_list q) = bufsize - 1"
  then show "ioq_putchar x q = None" by (simp add: ioq_putchar_def full_length bytes_of_ring)
next
  fix q x xs assume wf: "ioq_wf q" and c: "ioq_list q = x # xs"
  then have ne: "\<not> ioq_empty q" using bytes_of_ring [OF wf] by (auto simp: empty_length)
  show "\<exists>q' w. ioq_getchar q = Some (x, q', w) \<and> ioq_wf q' \<and> ioq_list q' = xs"
    using list_after_get [OF wf ne] ne wf c
    by (auto simp: ioq_getchar_def Let_def ioq_wf_def ioq_list_def ioq_length_def)
next
  fix q assume "ioq_wf q" "ioq_list q = []"
  then show "ioq_getchar q = None" using bytes_of_ring [of q] by (simp add: ioq_getchar_def empty_length)
qed (rule bytes_of_ring(2))

section \<open>Properties\<close>

text \<open>
  C22: the ring buffer is a first-in first-out queue of at most 63 bytes. Putting a byte into a queue
  that holds fewer appends it, into one that holds 63 makes the caller wait; taking a byte returns
  the oldest one, and makes the caller wait exactly when the queue is empty. The length function is
  the number of bytes held, and a task that was waiting is handed over to be woken.
\<close>

theorem ioqueue_refines_list:
  assumes "ioq_wf q"
  shows "ioq_length q = length (ioq_list q) \<and> length (ioq_list q) \<le> 63
    \<and> (length (ioq_list q) = 63 \<longrightarrow> ioq_putchar x q = None)
    \<and> (length (ioq_list q) < 63 \<longrightarrow> (\<exists>q'. ioq_putchar x q = Some (q', consumer q) \<and> ioq_wf q'
         \<and> ioq_list q' = ioq_list q @ [x] \<and> consumer q' = NULL))
    \<and> (ioq_list q = [] \<longrightarrow> ioq_getchar q = None)
    \<and> (ioq_list q \<noteq> [] \<longrightarrow> (\<exists>q'. ioq_getchar q = Some (hd (ioq_list q), q', producer q) \<and> ioq_wf q'
         \<and> ioq_list q' = tl (ioq_list q) \<and> producer q' = NULL))"
proof -
  have cap: "bufsize - 1 = 63" by (simp add: bufsize_def)
  have w: "ioq_putchar x q = Some (q', w) \<Longrightarrow> w = consumer q \<and> consumer q' = NULL" for q' w
    by (auto simp: ioq_putchar_def Let_def split: if_splits)
  have v: "ioq_getchar q = Some (y, q', w) \<Longrightarrow> w = producer q \<and> producer q' = NULL" for y q' w
    by (auto simp: ioq_getchar_def Let_def split: if_splits)
  have p: "length (ioq_list q) < 63 \<longrightarrow> (\<exists>q'. ioq_putchar x q = Some (q', consumer q) \<and> ioq_wf q'
         \<and> ioq_list q' = ioq_list q @ [x] \<and> consumer q' = NULL)"
    using ring.put_room [OF assms, of x, unfolded cap] w by blast
  have g: "ioq_list q \<noteq> [] \<longrightarrow> (\<exists>q'. ioq_getchar q = Some (hd (ioq_list q), q', producer q) \<and> ioq_wf q'
         \<and> ioq_list q' = tl (ioq_list q) \<and> producer q' = NULL)"
    using ring.get_some [OF assms] v by (cases "ioq_list q") fastforce+
  show ?thesis using p g ring.put_full [OF assms, of x] ring.get_none [OF assms] bytes_of_ring [OF assms] unfolding cap by simp
qed

theorem ioqueue_refines_list_witness:
  "ioq_getchar \<lparr>producer = 7, consumer = NULL, ioq_buf = replicate 63 0 @ [5], ioq_head = 2, ioq_tail = 63\<rparr>
     = Some (5, \<lparr>producer = NULL, consumer = NULL, ioq_buf = replicate 63 0 @ [5], ioq_head = 2, ioq_tail = 0\<rparr>, 7)"
proof -
  let ?q = "\<lparr>producer = 7, consumer = NULL, ioq_buf = replicate 63 0 @ [5], ioq_head = 2, ioq_tail = 63\<rparr> :: ioqueue"
  have "ioq_wf ?q" by (simp add: ioq_wf_def bufsize_def)
  moreover have "ioq_list ?q \<noteq> []" by (simp add: ioq_list_def ioq_length_def bufsize_def)
  ultimately have "\<exists>q'. ioq_getchar ?q = Some (hd (ioq_list ?q), q', 7)"
    using ioqueue_refines_list [of ?q 0] by auto
  moreover have "(replicate 63 0 @ [5]) ! 63 = (5 :: u8)" by (simp add: nth_append)
  ultimately show ?thesis by (simp add: ioq_getchar_def ioq_empty_def next_pos_def bufsize_def)
qed

end
