(* ===== verification/Keyboard.thy ===== *)
theory Keyboard
  imports Ioqueue Interrupt
begin

unbundle bit_operations_syntax

text \<open>
  The keyboard driver, \<^verbatim>\<open>device/keyboard.c\<close>: the interrupt handler decodes scan codes (make and break
  codes, with the prefix 0xe0), tracks the modifier keys and puts characters into the keyboard
  queue. The scan code read from port 0x60 is an argument. A key the handler does not know prints a
  message and changes nothing.
\<close>

section \<open>The code\<close>

record kbd =
  kbd_buf :: ioqueue
  ctrl_status :: bool
  shift_status :: bool
  alt_status :: bool
  caps_lock_status :: bool
  ext_scancode :: bool

definition shift_l_make :: u16 where "shift_l_make = 0x2a"
definition shift_r_make :: u16 where "shift_r_make = 0x36"
definition alt_l_make :: u16 where "alt_l_make = 0x38"
definition alt_r_make :: u16 where "alt_r_make = 0xe038"
definition ctrl_l_make :: u16 where "ctrl_l_make = 0x1d"
definition ctrl_r_make :: u16 where "ctrl_r_make = 0xe01d"
definition caps_lock_make :: u16 where "caps_lock_make = 0x3a"
definition maybe_return :: u16 where "maybe_return = 0xe01c"

text \<open>Columns: without shift, with shift.\<close>

definition keymap :: "(u8 \<times> u8) list" where
  "keymap =
    [(0, 0), (27, 27), (49, 33), (50, 64), (51, 35), (52, 36), (53, 37), (54, 94), (55, 38), (56, 42),
     (57, 40), (48, 41), (45, 95), (61, 43), (8, 8), (9, 9), (113, 81), (119, 87), (101, 69), (114, 82),
     (116, 84), (121, 89), (117, 85), (105, 73), (111, 79), (112, 80), (91, 123), (93, 125), (13, 13),
     (0, 0), (97, 65), (115, 83), (100, 68), (102, 70), (103, 71), (104, 72), (106, 74), (107, 75),
     (108, 76), (59, 58), (39, 34), (96, 126), (0, 0), (92, 124), (122, 90), (120, 88), (99, 67), (118, 86),
     (98, 66), (110, 78), (109, 77), (44, 60), (46, 62), (47, 63), (0, 0), (42, 42), (0, 0), (32, 32), (0, 0)]"

text \<open>The parts of the handler, in the order of the code.\<close>

definition release_key :: "u16 \<Rightarrow> kbd \<Rightarrow> kbd" where
  "release_key make_code k =
     (if make_code = ctrl_l_make \<or> make_code = ctrl_r_make then k\<lparr>ctrl_status := False\<rparr>
      else if make_code = shift_l_make \<or> make_code = shift_r_make then k\<lparr>shift_status := False\<rparr>
      else if make_code = alt_l_make \<or> make_code = alt_r_make then k\<lparr>alt_status := False\<rparr>
      else k)"

definition key_char :: "u16 \<Rightarrow> kbd \<Rightarrow> u8" where
  "key_char scancode k =
     (let shift =
            (if scancode < 0x0e \<or> scancode \<in> {0x29, 0x1a, 0x1b, 0x2b, 0x27, 0x28, 0x33, 0x34, 0x35}
             then shift_status k
             else \<not> (shift_status k \<and> caps_lock_status k \<or> \<not> shift_status k \<and> \<not> caps_lock_status k));
          index = unat (scancode AND 0x00ff)
      in if shift then snd (keymap ! index) else fst (keymap ! index))"

text \<open>\<open>None\<close>: the handler would wait, which it never does, as it tests for a full queue first.\<close>

definition deliver_char :: "u8 \<Rightarrow> kbd \<Rightarrow> kbd option" where
  "deliver_char cur_char k =
     (let cur_char = (if ctrl_status k \<and> cur_char = 0x6c \<or> ctrl_status k \<and> cur_char = 0x75 then cur_char - 0x61 else cur_char)
      in if \<not> ioq_full (kbd_buf k)
         then do { (q, _) \<leftarrow> ioq_putchar cur_char (kbd_buf k); Some (k\<lparr>kbd_buf := q\<rparr>) }
         else Some k)"

definition press_modifier :: "u16 \<Rightarrow> kbd \<Rightarrow> kbd" where
  "press_modifier scancode k =
     (if scancode = ctrl_l_make \<or> scancode = ctrl_r_make then k\<lparr>ctrl_status := True\<rparr>
      else if scancode = shift_l_make \<or> scancode = shift_r_make then k\<lparr>shift_status := True\<rparr>
      else if scancode = alt_l_make \<or> scancode = alt_r_make then k\<lparr>alt_status := True\<rparr>
      else if scancode = caps_lock_make then k\<lparr>caps_lock_status := \<not> caps_lock_status k\<rparr>
      else k)"

definition intr_keyboard_handler :: "u8 \<Rightarrow> kbd \<Rightarrow> kbd option" where
  "intr_keyboard_handler inb k =
     (let scancode = ucast inb :: u16
      in if scancode = 0xe0 then Some (k\<lparr>ext_scancode := True\<rparr>)
         else
           let (scancode, k) = (if ext_scancode k then (0xe000 OR scancode, k\<lparr>ext_scancode := False\<rparr>) else (scancode, k))
           in if scancode AND 0x80 \<noteq> 0 then Some (release_key (scancode AND 0xff7f) k)
              else if 0 < scancode \<and> scancode < 0x3b \<or> scancode = alt_r_make \<or> scancode = ctrl_r_make \<or> scancode = maybe_return then
                let cur_char = key_char scancode k
                in if cur_char \<noteq> 0 then deliver_char cur_char k
                   else Some (press_modifier (scancode AND 0x00ff) k)
              else Some k)"

definition keyboard_init :: "handler \<Rightarrow> kbd \<Rightarrow> handlers \<Rightarrow> (kbd \<times> handlers) option" where
  "keyboard_init func k h = do {
     let k = k\<lparr>kbd_buf := ioqueue_init (kbd_buf k)\<rparr>;
     h \<leftarrow> register_handler 0x21 func h;
     Some (k, h)
   }"

primrec handle_codes :: "u8 list \<Rightarrow> kbd \<Rightarrow> kbd option" where
  "handle_codes [] k = Some k"
| "handle_codes (c # cs) k = do { k \<leftarrow> intr_keyboard_handler c k; handle_codes cs k }"

section \<open>The handler never waits and keeps the queue well formed\<close>

lemma keymap_length [simp]: "length keymap = 0x3b"
  by (simp add: keymap_def)

lemma modifier_queue [simp]: "kbd_buf (release_key c k) = kbd_buf k" "kbd_buf (press_modifier c k) = kbd_buf k"
  by (simp_all add: release_key_def press_modifier_def)

lemma deliver_total:
  assumes "ioq_wf (kbd_buf k)" and "x \<noteq> 0"
  defines "y \<equiv> (if ctrl_status k \<and> (x = 0x6c \<or> x = 0x75) then x - 0x61 else x)"
  shows "\<exists>k'. deliver_char x k = Some k' \<and> ioq_wf (kbd_buf k') \<and> y \<noteq> 0
    \<and> ioq_list (kbd_buf k') = ioq_list (kbd_buf k) @ (if length (ioq_list (kbd_buf k)) < 63 then [y] else [])"
proof (cases "ioq_full (kbd_buf k)")
  case True
  moreover from this have "length (ioq_list (kbd_buf k)) = 63"
    using full_length [OF assms(1)] bytes_of_ring(1) [OF assms(1)] by (simp add: bufsize_def)
  ultimately show ?thesis using assms(1,2) by (auto simp: deliver_char_def y_def)
next
  case False
  then have room: "length (ioq_list (kbd_buf k)) < bufsize - 1"
    using full_length [OF assms(1)] bytes_of_ring [OF assms(1)] by simp
  with False ring.put_room [OF assms(1) room, of y] assms(2) show ?thesis
    by (auto simp: deliver_char_def y_def bufsize_def)
qed

lemma handler_total:
  assumes "ioq_wf (kbd_buf k)"
  shows "\<exists>k'. intr_keyboard_handler c k = Some k' \<and> ioq_wf (kbd_buf k')
    \<and> (ioq_list (kbd_buf k') = ioq_list (kbd_buf k) \<or> (\<exists>x. x \<noteq> 0 \<and> ioq_list (kbd_buf k') = ioq_list (kbd_buf k) @ [x]))"
proof -
  define k1 where "k1 = (if ext_scancode k then k\<lparr>ext_scancode := False\<rparr> else k)"
  define sc where "sc = (if ext_scancode k then 0xe000 OR ucast c else ucast c :: u16)"
  have b: "kbd_buf k1 = kbd_buf k" by (simp add: k1_def)
  have h: "intr_keyboard_handler c k =
      (if ucast c = (0xe0 :: u16) then Some (k\<lparr>ext_scancode := True\<rparr>)
       else if sc AND 0x80 \<noteq> 0 then Some (release_key (sc AND 0xff7f) k1)
       else if 0 < sc \<and> sc < 0x3b \<or> sc = alt_r_make \<or> sc = ctrl_r_make \<or> sc = maybe_return
       then (if key_char sc k1 \<noteq> 0 then deliver_char (key_char sc k1) k1 else Some (press_modifier (sc AND 0xff) k1))
       else Some k1)"
    unfolding intr_keyboard_handler_def Let_def k1_def sc_def by (cases "ext_scancode k") (simp_all only: if_True if_False prod.case)
  show ?thesis
  proof (cases "\<exists>k'. intr_keyboard_handler c k = Some k' \<and> kbd_buf k' = kbd_buf k")
    case True
    then show ?thesis using assms by auto
  next
    case False
    then have "intr_keyboard_handler c k = deliver_char (key_char sc k1) k1" "key_char sc k1 \<noteq> 0"
      unfolding h by (auto simp: b split: if_splits)
    then show ?thesis using deliver_total [of k1 "key_char sc k1"] assms b by (auto split: if_splits)
  qed
qed

text \<open>The scan codes of the letters, and what the table has for them.\<close>

definition letter_codes :: "u8 list" where
  "letter_codes = map of_nat ([0x10..<0x1a] @ [0x1e..<0x27] @ [0x2c..<0x33])"

lemma keymap_letters:
  "list_all (\<lambda>c. let (p, q) = keymap ! unat c in 0x61 \<le> p \<and> p \<le> 0x7a \<and> q = p - 0x20) letter_codes"
  by (simp add: letter_codes_def keymap_def upt_rec)

lemma letter_code_facts:
  "list_all (\<lambda>c. ucast c \<noteq> (0xe0 :: u16) \<and> (ucast c :: u16) AND 0x80 = 0 \<and> 0 < (ucast c :: u16) \<and> (ucast c :: u16) < 0x3b
     \<and> \<not> (ucast c :: u16) < 0x0e \<and> ucast c \<notin> {0x29, 0x1a, 0x1b, 0x2b, 0x27, 0x28, 0x33, 0x34, 0x35 :: u16}
     \<and> unat ((ucast c :: u16) AND 0xff) = unat c) letter_codes"
  by (simp add: letter_codes_def upt_rec)

section \<open>Properties\<close>

text \<open>
  C26: whatever scan codes arrive, the handler returns for every one of them (it never waits on a full
  queue), the queue stays well formed, and the characters waiting in it are never reordered or lost:
  new characters, none of them zero, are only appended.
\<close>

theorem keyboard_never_waits:
  assumes "ioq_wf (kbd_buf k)"
  shows "\<exists>k' ys. handle_codes cs k = Some k' \<and> ioq_wf (kbd_buf k') \<and> ioq_list (kbd_buf k') = ioq_list (kbd_buf k) @ ys \<and> 0 \<notin> set ys"
  using assms
proof (induction cs arbitrary: k)
  case (Cons c cs)
  obtain k1 xs where k1: "intr_keyboard_handler c k = Some k1" "ioq_wf (kbd_buf k1)"
    "ioq_list (kbd_buf k1) = ioq_list (kbd_buf k) @ xs" "0 \<notin> set xs"
    using handler_total [OF Cons.prems, of c] by (metis append_Nil2 empty_iff list.set(1) set_ConsD)
  obtain k2 ys where k2: "handle_codes cs k1 = Some k2" "ioq_wf (kbd_buf k2)"
    "ioq_list (kbd_buf k2) = ioq_list (kbd_buf k1) @ ys" "0 \<notin> set ys"
    using Cons.IH [OF k1(2)] by blast
  show ?case using k1 k2 by (intro exI [of _ k2] exI [of _ "xs @ ys"]) simp
qed simp

definition demo_kbd :: kbd where
  "demo_kbd = \<lparr>kbd_buf = \<lparr>producer = NULL, consumer = NULL, ioq_buf = replicate 64 0, ioq_head = 0, ioq_tail = 0\<rparr>,
     ctrl_status = False, shift_status = False, alt_status = False, caps_lock_status = False, ext_scancode = False\<rparr>"

lemma demo_kbd_wf: "ioq_wf (kbd_buf demo_kbd)"
  by (simp add: demo_kbd_def ioq_wf_def bufsize_def)

theorem keyboard_never_waits_witness:
  "\<exists>k' ys. handle_codes [0x2a, 0x1e, 0xaa, 0xe0, 0x1d] demo_kbd = Some k' \<and> ioq_wf (kbd_buf k')
     \<and> ioq_list (kbd_buf k') = ioq_list (kbd_buf demo_kbd) @ ys \<and> 0 \<notin> set ys"
  using keyboard_never_waits [OF demo_kbd_wf] .

text \<open>
  The letter keys. Pressing a letter key while no control key is down appends one letter to a queue
  with room: the capital exactly when one of shift and caps lock is active and not both.
\<close>

theorem keyboard_letters:
  assumes "ioq_wf (kbd_buf k)" and "length (ioq_list (kbd_buf k)) < 63" and "c \<in> set letter_codes"
    and "\<not> ext_scancode k" and "\<not> ctrl_status k"
  shows "\<exists>k' x. intr_keyboard_handler c k = Some k' \<and> 0x61 \<le> x \<and> x \<le> 0x7a \<and> keymap ! unat c = (x, x - 0x20)
    \<and> ioq_list (kbd_buf k') = ioq_list (kbd_buf k) @ [if shift_status k \<noteq> caps_lock_status k then x - 0x20 else x]"
proof -
  define x where "x = fst (keymap ! unat c)"
  have km: "keymap ! unat c = (x, x - 0x20)" "0x61 \<le> x" "x \<le> 0x7a"
    using keymap_letters assms(3) by (auto simp: list_all_iff Let_def x_def split_beta prod_eq_iff)
  define y where "y = (if shift_status k \<noteq> caps_lock_status k then x - 0x20 else x)"
  have sc: "ucast c \<noteq> (0xe0 :: u16)" "(ucast c :: u16) AND 0x80 = 0" "0 < (ucast c :: u16)" "(ucast c :: u16) < 0x3b"
    "\<not> (ucast c :: u16) < 0x0e" "ucast c \<notin> {0x29, 0x1a, 0x1b, 0x2b, 0x27, 0x28, 0x33, 0x34, 0x35 :: u16}"
    "unat ((ucast c :: u16) AND 0xff) = unat c"
    using letter_code_facts assms(3) unfolding list_all_iff by blast+
  have kc: "key_char (ucast c) k = y"
    unfolding key_char_def Let_def sc(7) km(1) y_def using sc(5,6) by (cases "shift_status k"; cases "caps_lock_status k") auto
  have nz: "y \<noteq> 0" using km(2,3) by (auto simp: y_def word_le_nat_alt)
  have "intr_keyboard_handler c k = deliver_char y k"
    unfolding intr_keyboard_handler_def Let_def using sc(1-4) nz assms(4) by (simp only: if_True if_False prod.case kc) simp
  with deliver_total [OF assms(1) nz] assms(2,5) km y_def show ?thesis by auto
qed

theorem keyboard_letters_witness:
  "\<exists>k' x. intr_keyboard_handler 0x1e demo_kbd = Some k' \<and> 0x61 \<le> x \<and> x \<le> 0x7a \<and> keymap ! unat (0x1e :: u8) = (x, x - 0x20)
    \<and> ioq_list (kbd_buf k') = ioq_list (kbd_buf demo_kbd) @ [x]"
proof -
  have "(0x1e :: u8) \<in> set letter_codes" by (simp add: letter_codes_def upt_rec)
  from keyboard_letters [OF demo_kbd_wf _ this] show ?thesis
    by (simp add: demo_kbd_def ioq_list_def ioq_length_def)
qed

end
