(* ===== verification/Disk.thy ===== *)
theory Disk
  imports Bitmap
begin

unbundle bit_operations_syntax

text \<open>
  The disk as the file system sees it, and the structures it keeps on disk and in memory:
  \<^verbatim>\<open>ide_read\<close> and \<^verbatim>\<open>ide_write\<close> of \<^verbatim>\<open>device/ide.c\<close> as operations on sectors, the records of
  \<^verbatim>\<open>fs/inode.h\<close>, \<^verbatim>\<open>fs/dir.h\<close>, \<^verbatim>\<open>fs/file.h\<close>, \<^verbatim>\<open>fs/super_block.h\<close> and \<^verbatim>\<open>device/ide.h\<close>, and their
  byte layout on this little-endian machine.

  A sector is a list of 512 bytes. Objects that the code reaches by pointer (inodes, open
  directories) are functions of their address; the list of open inodes is the sequence of addresses
  it stands for. \<^verbatim>\<open>sys_malloc\<close>, whose behaviour is the subject of theory \<open>Memory\<close>, enters only by the
  addresses it returns, \<open>heap_next\<close>, one per call; when they are used up it returns \<open>NULL\<close>. A write
  through a null pointer, past the end of a buffer, or to a sector past the end of the disk is
  \<open>None\<close>, like a failed \<^verbatim>\<open>ASSERT\<close>. \<^verbatim>\<open>printk\<close> has no effect here.
\<close>

section \<open>Bytes and words\<close>

type_synonym sector = "u8 list"

definition SECTOR_SIZE :: nat where "SECTOR_SIZE = 512"

definition le32 :: "u32 \<Rightarrow> u8 list" where
  "le32 w = [ucast w, ucast (drop_bit 8 w), ucast (drop_bit 16 w), ucast (drop_bit 24 w)]"

definition get32 :: "u8 list \<Rightarrow> nat \<Rightarrow> u32" where
  "get32 bs off = ucast (bs ! off) OR push_bit 8 (ucast (bs ! (off + 1)))
     OR push_bit 16 (ucast (bs ! (off + 2))) OR push_bit 24 (ucast (bs ! (off + 3)))"

text \<open>\<^verbatim>\<open>memcpy\<close> of \<open>xs\<close> to offset \<open>off\<close> of a buffer.\<close>

definition put :: "nat \<Rightarrow> u8 list \<Rightarrow> u8 list \<Rightarrow> u8 list" where
  "put off xs bs = take off bs @ xs @ drop (off + length xs) bs"

section \<open>Structures\<close>

record inode =
  i_no :: u32
  i_size :: u32
  i_open_cnts :: u32
  write_deny :: bool
  i_sectors :: "u32 list"

record super_block =
  magic :: u32
  sb_sec_cnt :: u32
  inode_cnt :: u32
  part_lba_base :: u32
  block_bitmap_lba :: u32
  block_bitmap_sects :: u32
  inode_bitmap_lba :: u32
  inode_bitmap_sects :: u32
  inode_table_lba :: u32
  inode_table_sects :: u32
  data_start_lba :: u32
  root_inode_no :: u32
  dir_entry_size :: u32

record dir_entry =
  filename :: "u8 list"
  de_i_no :: u32
  f_type :: u32

record dir =
  dir_inode :: addr
  dir_pos :: u32
  dir_buf :: sector

record file_slot =
  fd_pos :: u32
  fd_flag :: u32
  fd_inode :: addr

record partition =
  part_name :: "u8 list"
  start_lba :: u32
  sec_cnt :: u32
  sb :: super_block
  block_bitmap :: bitmap
  inode_bitmap :: bitmap
  open_inodes :: "addr list"

definition DIRECT_PTRS :: nat where "DIRECT_PTRS = 12"
definition TOTAL_PTRS :: nat where "TOTAL_PTRS = 13"
definition FLATTEN_PTRS :: nat where "FLATTEN_PTRS = 140"
definition MAX_FILES_PER_PART :: u32 where "MAX_FILES_PER_PART = 4096"
definition BITS_PER_SECTOR :: u32 where "BITS_PER_SECTOR = 4096"
definition BLOCK_SIZE :: u32 where "BLOCK_SIZE = 512"
definition MAX_FILE_NAME_LEN :: nat where "MAX_FILE_NAME_LEN = 16"
definition MAX_FILE_OPEN :: nat where "MAX_FILE_OPEN = 32"
definition MAX_FILES_OPEN_PER_PROC :: nat where "MAX_FILES_OPEN_PER_PROC = 8"
definition MAX_PATH_LEN :: nat where "MAX_PATH_LEN = 512"

abbreviation (input) FT_UNKNOWN :: u32 where "FT_UNKNOWN \<equiv> 0"
abbreviation (input) FT_REGULAR :: u32 where "FT_REGULAR \<equiv> 1"
abbreviation (input) FT_DIRECTORY :: u32 where "FT_DIRECTORY \<equiv> 2"

text \<open>
  \<open>fds\<close> and \<open>cwd_inode\<close> are the descriptor table and the working directory of the running task,
  \<open>root_dir\<close> the address of the static object of that name.
\<close>

record fstate =
  disk :: "u32 \<Rightarrow> sector"
  cur_part :: partition
  inodes :: "addr \<Rightarrow> inode"
  dirs :: "addr \<Rightarrow> dir"
  root_dir :: addr
  file_table :: "file_slot list"
  fds :: "u32 list"
  cwd_inode :: u32
  heap_next :: "addr list"

section \<open>Layout\<close>

definition inode_bytes :: nat where "inode_bytes = 76"

definition encode_inode :: "inode \<Rightarrow> u8 list" where
  "encode_inode i = le32 (i_no i) @ le32 (i_size i) @ le32 (i_open_cnts i) @ le32 (of_bool (write_deny i))
     @ concat (map le32 (i_sectors i)) @ replicate 8 0"

definition decode_inode :: "u8 list \<Rightarrow> nat \<Rightarrow> inode" where
  "decode_inode bs off = \<lparr>i_no = get32 bs off, i_size = get32 bs (off + 4), i_open_cnts = get32 bs (off + 8),
     write_deny = (get32 bs (off + 12) \<noteq> 0), i_sectors = map (\<lambda>k. get32 bs (off + 16 + 4 * k)) [0..<TOTAL_PTRS]\<rparr>"

definition dir_entry_bytes :: nat where "dir_entry_bytes = 24"

definition encode_dir_entry :: "dir_entry \<Rightarrow> u8 list" where
  "encode_dir_entry d = filename d @ le32 (de_i_no d) @ le32 (f_type d)"

definition decode_dir_entry :: "u8 list \<Rightarrow> nat \<Rightarrow> dir_entry" where
  "decode_dir_entry bs off = \<lparr>filename = take MAX_FILE_NAME_LEN (drop off bs), de_i_no = get32 bs (off + 16),
     f_type = get32 bs (off + 20)\<rparr>"

definition encode_super_block :: "super_block \<Rightarrow> u8 list" where
  "encode_super_block b = concat (map le32 [magic b, sb_sec_cnt b, inode_cnt b, part_lba_base b, block_bitmap_lba b,
     block_bitmap_sects b, inode_bitmap_lba b, inode_bitmap_sects b, inode_table_lba b, inode_table_sects b,
     data_start_lba b, root_inode_no b, dir_entry_size b])"

definition decode_super_block :: "u8 list \<Rightarrow> super_block" where
  "decode_super_block bs = \<lparr>magic = get32 bs 0, sb_sec_cnt = get32 bs 4, inode_cnt = get32 bs 8,
     part_lba_base = get32 bs 12, block_bitmap_lba = get32 bs 16, block_bitmap_sects = get32 bs 20,
     inode_bitmap_lba = get32 bs 24, inode_bitmap_sects = get32 bs 28, inode_table_lba = get32 bs 32,
     inode_table_sects = get32 bs 36, data_start_lba = get32 bs 40, root_inode_no = get32 bs 44,
     dir_entry_size = get32 bs 48\<rparr>"

definition words_of :: "u8 list \<Rightarrow> u32 list" where
  "words_of bs = map (\<lambda>k. get32 bs (4 * k)) [0..<length bs div 4]"

definition bytes_of :: "u32 list \<Rightarrow> u8 list" where
  "bytes_of ws = concat (map le32 ws)"

text \<open>A null-terminated string in a buffer; running past the buffer is \<open>None\<close>.\<close>

definition cstr_at :: "u8 list \<Rightarrow> nat \<Rightarrow> u8 list option" where
  "cstr_at bs off = (let r = drop off bs in if 0 \<in> set r then Some (takeWhile (\<lambda>b. b \<noteq> 0) r) else None)"

section \<open>Sectors\<close>

definition max_lba :: u32 where "max_lba = 80 * 1024 * 1024 div 512 - 1"

text \<open>
  Both loops pass the same sector number in every round, so a transfer of more than one sector
  reads the first sector again and again, and writes all parts of the buffer over it.
\<close>

primrec ide_read :: "u32 \<Rightarrow> nat \<Rightarrow> 'a fstate_scheme \<Rightarrow> u8 list option" where
  "ide_read lba 0 s = Some []"
| "ide_read lba (Suc n) s = do { ASSERT (lba \<le> max_lba); r \<leftarrow> ide_read lba n s; Some (disk s lba @ r) }"

primrec ide_write :: "u32 \<Rightarrow> u8 list \<Rightarrow> nat \<Rightarrow> 'a fstate_scheme \<Rightarrow> 'a fstate_scheme option" where
  "ide_write lba buf 0 s = Some s"
| "ide_write lba buf (Suc n) s = do {
     ASSERT (lba \<le> max_lba);
     ide_write lba (drop SECTOR_SIZE buf) n (s\<lparr>disk := (disk s)(lba := take SECTOR_SIZE buf)\<rparr>)
   }"

section \<open>Allocation\<close>

definition kmalloc :: "'a fstate_scheme \<Rightarrow> addr \<times> 'a fstate_scheme" where
  "kmalloc s = (case heap_next s of [] \<Rightarrow> (NULL, s) | a # as \<Rightarrow> (a, s\<lparr>heap_next := as\<rparr>))"

definition upd_inode :: "addr \<Rightarrow> (inode \<Rightarrow> inode) \<Rightarrow> 'a fstate_scheme \<Rightarrow> 'a fstate_scheme" where
  "upd_inode a f s = s\<lparr>inodes := (inodes s)(a := f (inodes s a))\<rparr>"

definition upd_part :: "(partition \<Rightarrow> partition) \<Rightarrow> 'a fstate_scheme \<Rightarrow> 'a fstate_scheme" where
  "upd_part f s = s\<lparr>cur_part := f (cur_part s)\<rparr>"

section \<open>Layout lemmas\<close>

lemma length_le32 [simp]: "length (le32 w) = 4"
  by (simp add: le32_def)

lemma le32_0: "le32 0 = [0, 0, 0, 0]"
  by (simp add: le32_def)

lemma bytes_join:
  fixes w :: u32
  shows "ucast (ucast w :: u8) OR push_bit 8 (ucast (ucast (drop_bit 8 w) :: u8))
     OR push_bit 16 (ucast (ucast (drop_bit 16 w) :: u8)) OR push_bit 24 (ucast (ucast (drop_bit 24 w) :: u8)) = w"
proof (rule bit_word_eqI)
  fix n assume "n < LENGTH(32)"
  then consider "n < 8" | "8 \<le> n" "n < 16" | "16 \<le> n" "n < 24" | "24 \<le> n" "n < 32" by fastforce
  then show "bit (ucast (ucast w :: u8) OR push_bit 8 (ucast (ucast (drop_bit 8 w) :: u8))
     OR push_bit 16 (ucast (ucast (drop_bit 16 w) :: u8)) OR push_bit 24 (ucast (ucast (drop_bit 24 w) :: u8)) :: u32) n = bit w n"
    by cases (auto simp: bit_or_iff bit_ucast_iff bit_push_bit_iff bit_drop_bit_eq not_less)
qed

lemma get32_at:
  assumes "drop off bs = le32 w @ ys"
  shows "get32 bs off = w"
proof -
  have "off < length bs" using assms by (metis drop_all le32_def append_is_Nil_conv list.distinct(1) not_le)
  then have "bs ! (off + k) = (le32 w @ ys) ! k" for k using assms nth_drop [of off bs k] by simp
  from this [of 0] this [of 1] this [of 2] this [of 3] show ?thesis
    by (simp add: get32_def le32_def bytes_join)
qed

lemma length_bytes_of [simp]: "length (bytes_of ws) = 4 * length ws"
  by (induction ws) (simp_all add: bytes_of_def)

lemma drop_bytes_of: "k < length ws \<Longrightarrow> drop (4 * k) (bytes_of ws @ ys) = le32 (ws ! k) @ bytes_of (drop (Suc k) ws) @ ys"
proof (induction ws arbitrary: k)
  case (Cons w ws)
  then show ?case by (cases k) (simp_all add: bytes_of_def)
qed simp

lemma get32_words:
  assumes "drop off bs = bytes_of ws @ ys" and "k < length ws"
  shows "get32 bs (off + 4 * k) = ws ! k"
proof (rule get32_at)
  have "drop (off + 4 * k) bs = drop (4 * k) (drop off bs)" by (simp add: add.commute)
  then show "drop (off + 4 * k) bs = le32 (ws ! k) @ bytes_of (drop (Suc k) ws) @ ys"
    unfolding assms(1) drop_bytes_of [OF assms(2)] .
qed

lemma words_of_bytes_of [simp]: "words_of (bytes_of ws) = ws"
proof (rule nth_equalityI)
  fix k assume "k < length (words_of (bytes_of ws))"
  then have k: "k < length ws" by (simp add: words_of_def)
  then show "words_of (bytes_of ws) ! k = ws ! k"
    using get32_words [of 0 "bytes_of ws" ws "[]" k] by (simp add: words_of_def)
qed (simp add: words_of_def)

lemma length_words_of [simp]: "length (words_of bs) = length bs div 4"
  by (simp add: words_of_def)

lemma length_put: "off + length xs \<le> length bs \<Longrightarrow> length (put off xs bs) = length bs"
  by (simp add: put_def)

lemma drop_put: "off \<le> length bs \<Longrightarrow> drop off (put off xs bs) = xs @ drop (off + length xs) bs"
  by (simp add: put_def)

lemma length_encode_inode: "length (i_sectors i) = TOTAL_PTRS \<Longrightarrow> length (encode_inode i) = inode_bytes"
  using length_bytes_of [of "i_sectors i"] by (simp add: encode_inode_def TOTAL_PTRS_def inode_bytes_def bytes_of_def)

lemma decode_encode_inode:
  assumes "length (i_sectors i) = TOTAL_PTRS" and "drop off bs = encode_inode i @ ys"
  shows "decode_inode bs off = i"
proof -
  let ?ws = "[i_no i, i_size i, i_open_cnts i, of_bool (write_deny i)] @ i_sectors i"
  have "drop off bs = bytes_of ?ws @ replicate 8 0 @ ys"
    using assms(2) by (simp add: encode_inode_def bytes_of_def)
  note g = get32_words [OF this]
  have h: "get32 bs off = i_no i" "get32 bs (off + 4) = i_size i" "get32 bs (off + 8) = i_open_cnts i"
    "get32 bs (off + 12) = of_bool (write_deny i)"
    using g [of 0] g [of 1] g [of 2] g [of 3] by (simp_all add: numeral_2_eq_2 numeral_3_eq_3)
  have "get32 bs (off + 16 + 4 * k) = i_sectors i ! k" if "k < TOTAL_PTRS" for k
  proof -
    have "off + 4 * (4 + k) = off + 16 + 4 * k" by simp
    then show ?thesis using g [of "4 + k"] that assms(1) by (simp add: add.assoc)
  qed
  then have "map (\<lambda>k. get32 bs (off + 16 + 4 * k)) [0..<TOTAL_PTRS] = i_sectors i"
    using assms(1) by (intro nth_equalityI) simp_all
  then show ?thesis using h by (simp add: decode_inode_def)
qed

lemma decode_encode_dir_entry:
  assumes "length (filename d) = MAX_FILE_NAME_LEN" and "drop off bs = encode_dir_entry d @ ys"
  shows "decode_dir_entry bs off = d"
proof -
  have "drop (off + 16) bs = drop 16 (drop off bs)" by (simp add: add.commute)
  then have "drop (off + 16) bs = bytes_of [de_i_no d, f_type d] @ ys"
    using assms by (simp add: encode_dir_entry_def bytes_of_def MAX_FILE_NAME_LEN_def)
  note g = get32_words [OF this]
  have "get32 bs (off + 20) = f_type d" using g [of 1] by (simp add: add.commute)
  then show ?thesis using g [of 0] assms
    by (simp add: decode_dir_entry_def encode_dir_entry_def MAX_FILE_NAME_LEN_def)
qed

lemma decode_encode_super_block: "decode_super_block (encode_super_block b @ ys) = b"
proof -
  note g = get32_words [of 0 "encode_super_block b @ ys" "[magic b, sb_sec_cnt b, inode_cnt b, part_lba_base b, block_bitmap_lba b,
     block_bitmap_sects b, inode_bitmap_lba b, inode_bitmap_sects b, inode_table_lba b, inode_table_sects b,
     data_start_lba b, root_inode_no b, dir_entry_size b]" ys, simplified encode_super_block_def bytes_of_def drop_0, OF refl]
  show ?thesis
    using g [of 0] g [of 1] g [of 2] g [of 3] g [of 4] g [of 5] g [of 6] g [of 7] g [of 8] g [of 9] g [of 10] g [of 11] g [of 12]
    by (simp add: decode_super_block_def encode_super_block_def numeral_eq_Suc)
qed

section \<open>Sector lemmas\<close>

lemma ide_read_1 [simp]: "ide_read lba (Suc 0) s = (if lba \<le> max_lba then Some (disk s lba) else None)"
  by simp

lemma ide_write_1 [simp]:
  "ide_write lba buf (Suc 0) s = (if lba \<le> max_lba then Some (s\<lparr>disk := (disk s)(lba := take SECTOR_SIZE buf)\<rparr>) else None)"
  by simp

text \<open>A transfer of several sectors touches only the first one; a write leaves the last part there.\<close>

lemma ide_read_many: "lba \<le> max_lba \<Longrightarrow> ide_read lba n s = Some (concat (replicate n (disk s lba)))"
  by (induction n) simp_all

lemma ide_write_many:
  "lba \<le> max_lba \<Longrightarrow> ide_write lba buf (Suc n) s
     = Some (s\<lparr>disk := (disk s)(lba := take SECTOR_SIZE (drop (n * SECTOR_SIZE) buf))\<rparr>)"
proof (induction n arbitrary: buf s)
  case (Suc n)
  have "ide_write lba buf (Suc (Suc n)) s
      = ide_write lba (drop SECTOR_SIZE buf) (Suc n) (s\<lparr>disk := (disk s)(lba := take SECTOR_SIZE buf)\<rparr>)"
    using Suc.prems by (simp only: ide_write.simps(2) [of lba buf] ASSERT_bind if_True)
  also have "\<dots> = Some (s\<lparr>disk := (disk s)(lba := take SECTOR_SIZE (drop (Suc n * SECTOR_SIZE) buf))\<rparr>)"
    unfolding Suc.IH [OF Suc.prems] by (simp add: add.commute)
  finally show ?case .
qed simp

section \<open>Reading around a write\<close>

lemma put_nth_other: "j < off \<or> off + length xs \<le> j \<Longrightarrow> off + length xs \<le> length bs \<Longrightarrow> put off xs bs ! j = bs ! j"
  by (auto simp: put_def nth_append)

lemma put_nth: "j < length xs \<Longrightarrow> off \<le> length bs \<Longrightarrow> put off xs bs ! (off + j) = xs ! j"
  by (simp add: put_def nth_append)

lemma get32_put_other:
  assumes "p + 4 \<le> off \<or> off + length xs \<le> p" and "off + length xs \<le> length bs"
  shows "get32 (put off xs bs) p = get32 bs p"
  using assms by (auto simp: get32_def put_nth_other)

lemma decode_inode_put_other:
  assumes "p + inode_bytes \<le> off \<or> off + length xs \<le> p" and "off + length xs \<le> length bs"
  shows "decode_inode (put off xs bs) p = decode_inode bs p"
proof -
  have "get32 (put off xs bs) (p + k) = get32 bs (p + k)" if "k + 4 \<le> inode_bytes" for k
    using assms that by (intro get32_put_other) auto
  from this [of 0] this [of 4] this [of 8] this [of 12] this [of "16 + 4 * k" for k]
  show ?thesis by (simp add: decode_inode_def inode_bytes_def TOTAL_PTRS_def add.assoc)
qed

lemma encode_sync_inode:
  assumes "length (i_sectors i) = TOTAL_PTRS" and "off + inode_bytes \<le> length bs"
  shows "decode_inode (put off (encode_inode i) bs) off = i"
  using assms drop_put [of off bs "encode_inode i"] by (intro decode_encode_inode) auto

end
