(* ===== verification/Inode.thy ===== *)
theory Inode
  imports Disk
begin

unbundle bit_operations_syntax

text \<open>
  Inodes, \<^verbatim>\<open>fs/inode.c\<close>, with the block and inode bitmaps of \<^verbatim>\<open>fs/file.c\<close> they are released to.
  The 32-bit results of the code, signed or not, are 32-bit words; \<open>-1\<close> is the word of all ones.
  The interrupt bracket around \<^verbatim>\<open>inode_close\<close> has no effect on this state and is not repeated here,
  nor is the exchange of the page directory around the allocation of a shared inode.

  The properties: an inode written by \<^verbatim>\<open>inode_sync\<close> is what \<^verbatim>\<open>inode_open\<close> loads, as long as it does
  not cross a sector boundary; what \<^verbatim>\<open>inode_sync\<close> does to an inode that crosses one; what
  \<^verbatim>\<open>inode_release\<close> gives back.
\<close>

section \<open>Bitmaps\<close>

datatype bitmap_type = INODE_BITMAP | BLOCK_BITMAP

definition inode_bitmap_alloc :: "'a fstate_scheme \<Rightarrow> (u32 \<times> 'a fstate_scheme) option" where
  "inode_bitmap_alloc s = do {
     bit_i \<leftarrow> bitmap_scan (inode_bitmap (cur_part s)) 1;
     if bit_i = - 1 then Some (- 1, s)
     else do {
       b \<leftarrow> bitmap_set (inode_bitmap (cur_part s)) (nat bit_i) 1;
       Some (of_int bit_i, upd_part (inode_bitmap_update (\<lambda>_. b)) s)
     }
   }"

definition block_bitmap_alloc :: "'a fstate_scheme \<Rightarrow> (u32 \<times> 'a fstate_scheme) option" where
  "block_bitmap_alloc s = do {
     bit_i \<leftarrow> bitmap_scan (block_bitmap (cur_part s)) 1;
     if bit_i = - 1 then Some (- 1, s)
     else do {
       b \<leftarrow> bitmap_set (block_bitmap (cur_part s)) (nat bit_i) 1;
       Some (data_start_lba (sb (cur_part s)) + of_int bit_i, upd_part (block_bitmap_update (\<lambda>_. b)) s)
     }
   }"

definition bitmap_sync :: "u32 \<Rightarrow> bitmap_type \<Rightarrow> 'a fstate_scheme \<Rightarrow> 'a fstate_scheme option" where
  "bitmap_sync bit_idx btmp_type s =
     (let off_sec = bit_idx div BITS_PER_SECTOR;
          off_size = unat (off_sec * BLOCK_SIZE);
          (base, b) = (case btmp_type of
             INODE_BITMAP \<Rightarrow> (inode_bitmap_lba (sb (cur_part s)), inode_bitmap (cur_part s))
           | BLOCK_BITMAP \<Rightarrow> (block_bitmap_lba (sb (cur_part s)), block_bitmap (cur_part s)))
      in ide_write (base + off_sec) (map (bits b) [off_size..<off_size + SECTOR_SIZE]) 1 s)"

definition inode_bit_clear :: "u32 \<Rightarrow> 'a fstate_scheme \<Rightarrow> 'a fstate_scheme option" where
  "inode_bit_clear inode_no s = do {
     b \<leftarrow> bitmap_set (inode_bitmap (cur_part s)) (unat inode_no) 0;
     Some (upd_part (inode_bitmap_update (\<lambda>_. b)) s)
   }"

definition block_bit_clear :: "u32 \<Rightarrow> 'a fstate_scheme \<Rightarrow> 'a fstate_scheme option" where
  "block_bit_clear block_bitmap_idx s = do {
     b \<leftarrow> bitmap_set (block_bitmap (cur_part s)) (unat block_bitmap_idx) 0;
     Some (upd_part (block_bitmap_update (\<lambda>_. b)) s)
   }"

section \<open>Inodes\<close>

record inode_position =
  two_sec :: bool
  sec_lba :: u32
  off_size :: nat

definition inode_locate :: "u32 \<Rightarrow> 'a fstate_scheme \<Rightarrow> inode_position option" where
  "inode_locate inode_no s = do {
     ASSERT (inode_no < MAX_FILES_PER_PART);
     let off = inode_no * of_nat inode_bytes;
     let off_in_sec = unat (off mod of_nat SECTOR_SIZE);
     Some \<lparr>two_sec = (SECTOR_SIZE < off_in_sec + inode_bytes),
           sec_lba = inode_table_lba (sb (cur_part s)) + off div of_nat SECTOR_SIZE, off_size = off_in_sec\<rparr>
   }"

text \<open>\<open>room\<close> is the size of the caller's buffer.\<close>

definition inode_sync :: "inode \<Rightarrow> nat \<Rightarrow> 'a fstate_scheme \<Rightarrow> 'a fstate_scheme option" where
  "inode_sync i room s = do {
     let inode_no = (ucast (ucast (i_no i) :: u8) :: u32);
     pos \<leftarrow> inode_locate inode_no s;
     ASSERT (sec_lba pos < start_lba (cur_part s) + sec_cnt (cur_part s));
     let inode_buf = i\<lparr>i_open_cnts := 0, write_deny := False\<rparr>;
     let sync_secs = (if two_sec pos then 2 else 1);
     ASSERT (SECTOR_SIZE * sync_secs \<le> room);
     sec_buf \<leftarrow> ide_read (sec_lba pos) sync_secs s;
     ide_write (sec_lba pos) (put (off_size pos) (encode_inode inode_buf) sec_buf) sync_secs s
   }"

definition inode_open :: "u32 \<Rightarrow> 'a fstate_scheme \<Rightarrow> (addr \<times> 'a fstate_scheme) option" where
  "inode_open inode_no s =
     (case find (\<lambda>a. i_no (inodes s a) = inode_no) (open_inodes (cur_part s)) of
        Some a \<Rightarrow> Some (a, upd_inode a (\<lambda>i. i\<lparr>i_open_cnts := i_open_cnts i + 1\<rparr>) s)
      | None \<Rightarrow> do {
          pos \<leftarrow> inode_locate inode_no s;
          let (inode_found, s) = kmalloc s;
          let (inode_buf, s) = kmalloc s;
          ASSERT (inode_buf \<noteq> NULL);
          buf \<leftarrow> ide_read (sec_lba pos) (if two_sec pos then 2 else 1) s;
          ASSERT (inode_found \<noteq> NULL);
          let s = upd_inode inode_found (\<lambda>_. decode_inode buf (off_size pos)) s;
          let s = upd_part (open_inodes_update (\<lambda>l. inode_found # l)) s;
          Some (inode_found, upd_inode inode_found (\<lambda>i. i\<lparr>i_open_cnts := 1\<rparr>) s)
        })"

definition inode_close :: "addr \<Rightarrow> 'a fstate_scheme \<Rightarrow> 'a fstate_scheme" where
  "inode_close a s =
     (let s = upd_inode a (\<lambda>i. i\<lparr>i_open_cnts := i_open_cnts i - 1\<rparr>) s
      in if i_open_cnts (inodes s a) = 0 then upd_part (open_inodes_update (remove1 a)) s else s)"

definition inode_delete :: "u32 \<Rightarrow> nat \<Rightarrow> 'a fstate_scheme \<Rightarrow> 'a fstate_scheme option" where
  "inode_delete inode_no room s = do {
     ASSERT (inode_no < MAX_FILES_PER_PART);
     pos \<leftarrow> inode_locate inode_no s;
     ASSERT (sec_lba pos \<le> start_lba (cur_part s) + sec_cnt (cur_part s));
     let secs_to_sync = (if two_sec pos then 2 else 1);
     ASSERT (SECTOR_SIZE * secs_to_sync \<le> room);
     inode_buf \<leftarrow> ide_read (sec_lba pos) secs_to_sync s;
     ide_write (sec_lba pos) (put (off_size pos) (replicate inode_bytes 0) inode_buf) secs_to_sync s
   }"

text \<open>The array of all block pointers that several operations build: twelve direct ones, then the indirect table.\<close>

definition flatten_ptrs :: "inode \<Rightarrow> 'a fstate_scheme \<Rightarrow> u32 list option" where
  "flatten_ptrs i s =
     (if i_sectors i ! DIRECT_PTRS \<noteq> 0 then do {
        t \<leftarrow> ide_read (i_sectors i ! DIRECT_PTRS) 1 s;
        Some (take DIRECT_PTRS (i_sectors i) @ words_of t)
      } else Some (take DIRECT_PTRS (i_sectors i) @ replicate (FLATTEN_PTRS - DIRECT_PTRS) 0))"

definition release_block :: "u32 \<Rightarrow> 'a fstate_scheme \<Rightarrow> 'a fstate_scheme option" where
  "release_block lba s = do {
     let block_bitmap_idx = lba - data_start_lba (sb (cur_part s));
     ASSERT (0 < block_bitmap_idx);
     s \<leftarrow> block_bit_clear block_bitmap_idx s;
     bitmap_sync block_bitmap_idx BLOCK_BITMAP s
   }"

primrec release_blocks :: "u32 list \<Rightarrow> 'a fstate_scheme \<Rightarrow> 'a fstate_scheme option" where
  "release_blocks [] s = Some s"
| "release_blocks (lba # ls) s = do {
     s \<leftarrow> (if lba \<noteq> 0 then release_block lba s else Some s);
     release_blocks ls s
   }"

definition inode_release :: "u32 \<Rightarrow> 'a fstate_scheme \<Rightarrow> 'a fstate_scheme option" where
  "inode_release inode_no s = do {
     (inode_to_del, s) \<leftarrow> inode_open inode_no s;
     let i = inodes s inode_to_del;
     ASSERT (i_no i = inode_no);
     all_blocks \<leftarrow> flatten_ptrs i s;
     s \<leftarrow> (if i_sectors i ! DIRECT_PTRS \<noteq> 0 then release_block (i_sectors i ! DIRECT_PTRS) s else Some s);
     s \<leftarrow> release_blocks all_blocks s;
     s \<leftarrow> inode_bit_clear inode_no s;
     s \<leftarrow> bitmap_sync inode_no INODE_BITMAP s;
     let (io_buf, s) = kmalloc s;
     ASSERT (io_buf \<noteq> NULL);
     s \<leftarrow> inode_delete inode_no (2 * SECTOR_SIZE) s;
     Some (inode_close inode_to_del s)
   }"

definition inode_init :: "u32 \<Rightarrow> inode" where
  "inode_init inode_no = \<lparr>i_no = inode_no, i_size = 0, i_open_cnts = 0, write_deny = False,
     i_sectors = replicate TOTAL_PTRS 0\<rparr>"

section \<open>Where an inode lies\<close>

definition inode_sec :: "u32 \<Rightarrow> 'a fstate_scheme \<Rightarrow> u32" where
  "inode_sec n s = inode_table_lba (sb (cur_part s)) + of_nat (inode_bytes * unat n div SECTOR_SIZE)"

definition inode_off :: "u32 \<Rightarrow> nat" where "inode_off n = inode_bytes * unat n mod SECTOR_SIZE"

definition crosses :: "u32 \<Rightarrow> bool" where "crosses n = (SECTOR_SIZE < inode_off n + inode_bytes)"

text \<open>The image of an inode on disk.\<close>

definition stored_inode :: "u32 \<Rightarrow> 'a fstate_scheme \<Rightarrow> inode" where
  "stored_inode n s = decode_inode (disk s (inode_sec n s)) (inode_off n)"

lemma inode_sec_disk [simp]: "inode_sec n (s\<lparr>disk := d\<rparr>) = inode_sec n s"
  by (simp add: inode_sec_def)

lemma inode_locate_pos:
  assumes "n < MAX_FILES_PER_PART"
  shows "inode_locate n s = Some \<lparr>two_sec = crosses n, sec_lba = inode_sec n s, off_size = inode_off n\<rparr>"
proof -
  have "unat n < 4096" using assms by (simp add: MAX_FILES_PER_PART_def word_less_nat_alt)
  then have u: "unat (n * 76) = 76 * unat n" by (subst unat_mult_lem [THEN iffD1]) simp_all
  then have m: "unat (n * 76 mod 512) = 76 * unat n mod 512" and d: "unat (n * 76 div 512) = 76 * unat n div 512"
    by (simp_all add: unat_mod unat_div)
  have "76 * unat n div 512 < 2 ^ 32" using \<open>unat n < 4096\<close> by simp
  then have "n * 76 div 512 = of_nat (76 * unat n div 512)" using u32_eq_of_nat d by blast
  with m show ?thesis
    using assms by (simp add: inode_locate_def crosses_def inode_sec_def inode_off_def inode_bytes_def SECTOR_SIZE_def Let_def)
qed


text \<open>Two inodes that lie in one sector and do not cross its end occupy different bytes of it.\<close>

lemma inode_slots_apart:
  assumes "n < MAX_FILES_PER_PART" and "m < MAX_FILES_PER_PART" and "n \<noteq> m" and "inode_sec n s = inode_sec m s"
  shows "inode_off n + inode_bytes \<le> inode_off m \<or> inode_off m + inode_bytes \<le> inode_off n"
proof -
  let ?n = "unat n" and ?m = "unat m"
  have lt: "?n < 4096" "?m < 4096" using assms(1,2) by (simp_all add: MAX_FILES_PER_PART_def word_less_nat_alt)
  have "(of_nat (76 * ?n div 512) :: u32) = of_nat (76 * ?m div 512)"
    using assms(4) by (simp add: inode_sec_def inode_bytes_def SECTOR_SIZE_def)
  moreover have "76 * ?n div 512 < 2 ^ 32" "76 * ?m div 512 < 2 ^ 32" using lt by simp_all
  ultimately have q: "76 * ?n div 512 = 76 * ?m div 512" by (simp only: of_nat_u32_eq)
  have "76 * ?n = 76 * ?n div 512 * 512 + 76 * ?n mod 512" "76 * ?m = 76 * ?m div 512 * 512 + 76 * ?m mod 512"
    by (rule div_mult_mod_eq [symmetric])+
  moreover have "?n < ?m \<or> ?m < ?n" using assms(3) by (metis linorder_neqE_nat word_unat_eq_iff)
  ultimately show ?thesis unfolding inode_off_def inode_bytes_def SECTOR_SIZE_def using q by linarith
qed

text \<open>What the synchronisation of an inode needs of the partition.\<close>

definition inode_ready :: "u32 \<Rightarrow> 'a fstate_scheme \<Rightarrow> bool" where
  "inode_ready n s = (n < MAX_FILES_PER_PART \<and> inode_sec n s \<le> max_lba \<and> length (disk s (inode_sec n s)) = SECTOR_SIZE
     \<and> inode_sec n s < start_lba (cur_part s) + sec_cnt (cur_part s))"

section \<open>The layout of a mounted partition\<close>

text \<open>
  The metadata lies below the first data sector and the data sectors that the block bitmap counts
  lie on the disk. Sector numbers do not wrap.
\<close>

definition fs_layout :: "'a fstate_scheme \<Rightarrow> bool" where
  "fs_layout s = (let p = cur_part s; b = sb p in
     (\<forall>idx<bm_cap (block_bitmap p). unat (block_bitmap_lba b) + idx div 4096 < unat (data_start_lba b))
     \<and> unat (inode_bitmap_lba b) < unat (data_start_lba b)
     \<and> unat (inode_table_lba b) + 608 \<le> unat (data_start_lba b)
     \<and> unat (data_start_lba b) + bm_cap (block_bitmap p) \<le> unat max_lba + 1
     \<and> data_start_lba b \<le> start_lba p + sec_cnt p
     \<and> data_start_lba b \<le> max_lba
     \<and> dir_entry_size b = of_nat dir_entry_bytes
     \<and> (\<forall>lba. length (disk s lba) = SECTOR_SIZE))"

definition data_lba :: "'a fstate_scheme \<Rightarrow> nat \<Rightarrow> u32" where
  "data_lba s idx = data_start_lba (sb (cur_part s)) + of_nat idx"

lemma unat_max_lba [simp]: "unat max_lba = 163839"
  by (simp add: max_lba_def)

lemma layout_data:
  assumes "fs_layout s" and "idx < bm_cap (block_bitmap (cur_part s))"
  shows "unat (data_lba s idx) = unat (data_start_lba (sb (cur_part s))) + idx" and "data_lba s idx \<le> max_lba"
    and "data_lba s idx - data_start_lba (sb (cur_part s)) = of_nat idx" and "idx < 163840"
proof -
  have b: "unat (data_start_lba (sb (cur_part s))) + idx < 163840" using assms by (simp add: fs_layout_def Let_def)
  then show u: "unat (data_lba s idx) = unat (data_start_lba (sb (cur_part s))) + idx"
    by (simp add: data_lba_def unat_word_ariths unat_of_nat_u32 del: unsigned_of_nat)
  show "data_lba s idx \<le> max_lba" using b u by (simp add: word_le_nat_alt)
  show "data_lba s idx - data_start_lba (sb (cur_part s)) = of_nat idx" by (simp add: data_lba_def)
  show "idx < 163840" using b by simp
qed

lemma layout_inode:
  assumes "fs_layout s" and "n < MAX_FILES_PER_PART"
  shows "inode_sec n s < data_start_lba (sb (cur_part s))" and "inode_ready n s"
proof -
  let ?t = "inode_table_lba (sb (cur_part s))" and ?k = "inode_bytes * unat n div SECTOR_SIZE"
  have "unat n < 4096" using assms(2) by (simp add: MAX_FILES_PER_PART_def word_less_nat_alt)
  then have k: "?k < 608" by (simp add: inode_bytes_def SECTOR_SIZE_def)
  have lay: "unat ?t + 608 \<le> unat (data_start_lba (sb (cur_part s)))" "unat (data_start_lba (sb (cur_part s))) < 2 ^ 32"
    using assms(1) unat_u32_less by (auto simp: fs_layout_def Let_def)
  then have "unat (inode_sec n s) = unat ?t + ?k"
    using k by (simp add: inode_sec_def unat_word_ariths unat_of_nat_u32 del: unsigned_of_nat)
  then show lt: "inode_sec n s < data_start_lba (sb (cur_part s))" using k lay by (simp add: word_less_nat_alt)
  show "inode_ready n s" using assms lt by (auto simp: inode_ready_def fs_layout_def Let_def)
qed

lemma bitmap_sync_block:
  assumes "fs_layout s" and "idx < bm_cap (block_bitmap (cur_part s))"
  shows "\<exists>d. bitmap_sync (of_nat idx) BLOCK_BITMAP s = Some (s\<lparr>disk := d\<rparr>)
    \<and> (\<forall>lba. data_start_lba (sb (cur_part s)) \<le> lba \<longrightarrow> d lba = disk s lba) \<and> (\<forall>lba. length (d lba) = SECTOR_SIZE)"
proof -
  let ?D = "data_start_lba (sb (cur_part s))" and ?b = "block_bitmap_lba (sb (cur_part s))"
  have i: "idx < 163840" by (rule layout_data(4) [OF assms])
  have "unat ?b + idx div 4096 < unat ?D" using assms by (simp add: fs_layout_def Let_def)
  moreover have "unat ?D < 2 ^ 32" by (rule unat_u32_less)
  moreover have "unat ((of_nat idx :: u32) div BITS_PER_SECTOR) = idx div 4096"
    using i by (simp add: unat_div BITS_PER_SECTOR_def unat_of_nat_u32 del: unsigned_of_nat)
  ultimately have "unat (?b + of_nat idx div BITS_PER_SECTOR) < unat ?D" by (simp add: unat_word_ariths)
  then have "?b + of_nat idx div BITS_PER_SECTOR < ?D" by (simp add: word_less_nat_alt)
  moreover from this have "?b + of_nat idx div BITS_PER_SECTOR \<le> max_lba" using assms(1) by (auto simp: fs_layout_def Let_def)
  moreover define d where "d = (disk s)(?b + of_nat idx div BITS_PER_SECTOR :=
    map (bits (block_bitmap (cur_part s))) [unat (of_nat idx div BITS_PER_SECTOR * BLOCK_SIZE)..<
      unat (of_nat idx div BITS_PER_SECTOR * BLOCK_SIZE) + SECTOR_SIZE])"
  ultimately have "bitmap_sync (of_nat idx) BLOCK_BITMAP s = Some (s\<lparr>disk := d\<rparr>)"
    "\<forall>lba. ?D \<le> lba \<longrightarrow> d lba = disk s lba" "\<forall>lba. length (d lba) = SECTOR_SIZE"
    using assms(1) by (auto simp: bitmap_sync_def Let_def fs_layout_def d_def)
  then show ?thesis by blast
qed

text \<open>Allocation and release of blocks change the block bitmap and metadata sectors only.\<close>

definition remap :: "(u32 \<Rightarrow> sector) \<Rightarrow> bitmap \<Rightarrow> 'a fstate_scheme \<Rightarrow> 'a fstate_scheme" where
  "remap d b s = s\<lparr>disk := d, cur_part := (cur_part s)\<lparr>block_bitmap := b\<rparr>\<rparr>"

definition meta_only :: "'a fstate_scheme \<Rightarrow> (u32 \<Rightarrow> sector) \<Rightarrow> bitmap \<Rightarrow> bool" where
  "meta_only s d b = ((\<forall>lba. data_start_lba (sb (cur_part s)) \<le> lba \<longrightarrow> d lba = disk s lba)
     \<and> (\<forall>lba. length (d lba) = SECTOR_SIZE) \<and> bm_cap b = bm_cap (block_bitmap (cur_part s)))"

lemma remap_fields [simp]:
  "disk (remap d b s) = d" "block_bitmap (cur_part (remap d b s)) = b" "inodes (remap d b s) = inodes s"
  "sb (cur_part (remap d b s)) = sb (cur_part s)" "inode_bitmap (cur_part (remap d b s)) = inode_bitmap (cur_part s)"
  "start_lba (cur_part (remap d b s)) = start_lba (cur_part s)" "sec_cnt (cur_part (remap d b s)) = sec_cnt (cur_part s)"
  "open_inodes (cur_part (remap d b s)) = open_inodes (cur_part s)" "heap_next (remap d b s) = heap_next s"
  "file_table (remap d b s) = file_table s" "dirs (remap d b s) = dirs s" "root_dir (remap d b s) = root_dir s"
  "remap d' b' (remap d b s) = remap d' b' s" "data_lba (remap d b s) idx = data_lba s idx"
  by (simp_all add: remap_def data_lba_def)

lemma remap_layout [simp]: "fs_layout s \<Longrightarrow> meta_only s d b \<Longrightarrow> fs_layout (remap d b s)"
  by (simp add: fs_layout_def meta_only_def Let_def)

lemma meta_only_trans: "meta_only s d b \<Longrightarrow> meta_only (remap d b s) d' b' \<Longrightarrow> meta_only s d' b'"
  by (simp add: meta_only_def)

lemma meta_only_refl: "fs_layout s \<Longrightarrow> meta_only s (disk s) (block_bitmap (cur_part s))"
  by (simp add: meta_only_def fs_layout_def Let_def)

lemma remap_self [simp]: "remap (disk s) (block_bitmap (cur_part s)) s = s"
  by (simp add: remap_def)

lemma block_alloc_cases:
  assumes "fs_layout s"
  obtains (full) "block_bitmap_alloc s = Some (- 1, s)" "\<forall>i<bm_cap (block_bitmap (cur_part s)). bm_used (block_bitmap (cur_part s)) i"
  | (block) i b where "block_bitmap_alloc s = Some (data_lba s i, remap (disk s) b s)" "data_lba s i \<noteq> - 1"
      "i < bm_cap (block_bitmap (cur_part s))" "\<not> bm_used (block_bitmap (cur_part s)) i" "meta_only s (disk s) b"
      "\<forall>j. bm_used b j = (j = i \<or> bm_used (block_bitmap (cur_part s)) j)"
      "\<forall>j<i. bm_used (block_bitmap (cur_part s)) j"
proof (cases rule: bm.scan_cases [of "block_bitmap (cur_part s)"])
  case full
  then show ?thesis using that(1) by (simp add: block_bitmap_alloc_def)
next
  case (free i)
  obtain b where b: "bitmap_set (block_bitmap (cur_part s)) i 1 = Some b" "bm_cap b = bm_cap (block_bitmap (cur_part s))"
    "\<And>j. bm_used b j = (j = i \<or> bm_used (block_bitmap (cur_part s)) j)"
    using bm.take_slot [OF free(1)] by metis
  have u: "unat (data_lba s i) < 163840" using layout_data [OF assms free(2)] assms free(2) by (simp add: fs_layout_def Let_def)
  have "data_lba s i \<noteq> - 1"
  proof
    assume "data_lba s i = - 1"
    then have "data_lba s i = 0xffffffff" by simp
    then have "unat (data_lba s i) = 4294967295" by simp
    with u show False by simp
  qed
  moreover have "block_bitmap_alloc s = Some (data_lba s i, remap (disk s) b s)"
    using free(1) b(1) by (simp add: block_bitmap_alloc_def data_lba_def remap_def upd_part_def)
  ultimately show ?thesis using that(2) free b assms by (simp add: meta_only_def fs_layout_def Let_def)
qed

lemma release_block_spec:
  assumes "fs_layout s" and "0 < idx" and "idx < bm_cap (block_bitmap (cur_part s))"
  shows "\<exists>d b. release_block (data_lba s idx) s = Some (remap d b s) \<and> meta_only s d b
    \<and> (\<forall>j. bm_used b j = (bm_used (block_bitmap (cur_part s)) j \<and> j \<noteq> idx))"
proof -
  have i: "data_lba s idx - data_start_lba (sb (cur_part s)) = of_nat idx" "idx < 2 ^ 32"
    using layout_data [OF assms(1,3)] by simp_all
  then have nz: "(of_nat idx :: u32) \<noteq> 0" and ui: "unat (of_nat idx :: u32) = idx"
    using assms(2) of_nat_u32_eq [of idx 0] unat_of_nat_u32 by simp_all
  obtain b where b: "bitmap_set (block_bitmap (cur_part s)) idx 0 = Some b" using bm.set_some [of 0] by blast
  have bu: "bm_used b j = (bm_used (block_bitmap (cur_part s)) j \<and> j \<noteq> idx)" for j using bm.set_used [OF b, of j] by auto
  let ?s = "remap (disk s) b s"
  have cap: "bm_cap b = bm_cap (block_bitmap (cur_part s))" by (rule bm.set_cap [OF b])
  then have m: "meta_only s (disk s) b" using assms(1) by (simp add: meta_only_def fs_layout_def Let_def)
  have c: "block_bit_clear (of_nat idx) s = Some ?s"
    unfolding block_bit_clear_def ui using b by (simp add: remap_def upd_part_def)
  obtain d where d: "bitmap_sync (of_nat idx) BLOCK_BITMAP ?s = Some (?s\<lparr>disk := d\<rparr>)"
    "\<forall>lba. data_start_lba (sb (cur_part s)) \<le> lba \<longrightarrow> d lba = disk s lba" "\<forall>lba. length (d lba) = SECTOR_SIZE"
    using bitmap_sync_block [OF remap_layout [OF assms(1) m], of idx] assms(3) cap by auto
  have "?s\<lparr>disk := d\<rparr> = remap d b s" by (simp add: remap_def)
  moreover have "release_block (data_lba s idx) s = bitmap_sync (of_nat idx) BLOCK_BITMAP ?s"
    unfolding release_block_def i(1) Let_def using c nz by (simp add: word_neq_0_conv)
  ultimately show ?thesis using d bu cap by (intro exI [of _ d] exI [of _ b]) (simp add: meta_only_def)
qed

text \<open>The blocks that a list of pointers names.\<close>

definition block_ptrs :: "'a fstate_scheme \<Rightarrow> u32 list \<Rightarrow> bool" where
  "block_ptrs s ls = (\<forall>l\<in>set ls. l = 0 \<or> (\<exists>idx. 0 < idx \<and> idx < bm_cap (block_bitmap (cur_part s)) \<and> l = data_lba s idx))"

definition named_blocks :: "'a fstate_scheme \<Rightarrow> u32 list \<Rightarrow> nat set" where
  "named_blocks s ls = {idx. idx < bm_cap (block_bitmap (cur_part s)) \<and> data_lba s idx \<in> set ls - {0}}"

lemma data_lba_inj:
  assumes "fs_layout s" and "i < bm_cap (block_bitmap (cur_part s))" and "j < bm_cap (block_bitmap (cur_part s))"
  shows "(data_lba s i = data_lba s j) = (i = j)"
  unfolding word_unat_eq_iff layout_data(1) [OF assms(1,2)] layout_data(1) [OF assms(1,3)] by simp

lemma data_lba_nonzero: "fs_layout s \<Longrightarrow> 0 < i \<Longrightarrow> i < bm_cap (block_bitmap (cur_part s)) \<Longrightarrow> data_lba s i \<noteq> 0"
  using layout_data(1) [of s i] by (simp add: word_unat_eq_iff)

lemma release_blocks_spec:
  "fs_layout s \<Longrightarrow> block_ptrs s ls \<Longrightarrow>
    \<exists>d b. release_blocks ls s = Some (remap d b s) \<and> meta_only s d b
     \<and> (\<forall>j. bm_used b j = (bm_used (block_bitmap (cur_part s)) j \<and> j \<notin> named_blocks s ls))"
proof (induction ls arbitrary: s)
  case Nil
  then show ?case
    by (intro exI [of _ "disk s"] exI [of _ "block_bitmap (cur_part s)"]) (simp add: meta_only_refl named_blocks_def)
next
  case (Cons l ls)
  have tl: "block_ptrs s ls" using Cons.prems(2) by (simp add: block_ptrs_def)
  show ?case
  proof (cases "l = 0")
    case True
    then have "named_blocks s (l # ls) = named_blocks s ls" by (auto simp: named_blocks_def)
    with True Cons.IH [OF Cons.prems(1) tl] show ?thesis by simp
  next
    case False
    then obtain idx where idx: "0 < idx" "idx < bm_cap (block_bitmap (cur_part s))" "l = data_lba s idx"
      using Cons.prems(2) by (auto simp: block_ptrs_def)
    obtain d b where r: "release_block l s = Some (remap d b s)" "meta_only s d b"
      "\<forall>j. bm_used b j = (bm_used (block_bitmap (cur_part s)) j \<and> j \<noteq> idx)"
      using release_block_spec [OF Cons.prems(1) idx(1,2)] idx(3) by auto
    let ?s = "remap d b s"
    have cap: "bm_cap b = bm_cap (block_bitmap (cur_part s))" using r(2) by (simp add: meta_only_def)
    then have "block_ptrs ?s ls" and nb: "named_blocks ?s ls = named_blocks s ls"
      using tl by (simp_all add: block_ptrs_def named_blocks_def)
    from Cons.IH [OF remap_layout [OF Cons.prems(1) r(2)] this(1)]
    obtain d' b' where r': "release_blocks ls ?s = Some (remap d' b' ?s)" "meta_only ?s d' b'"
      "\<forall>j. bm_used b' j = (bm_used b j \<and> j \<notin> named_blocks s ls)" unfolding nb by auto
    have "named_blocks s (l # ls) = insert idx (named_blocks s ls)"
      using idx False data_lba_inj [OF Cons.prems(1)] by (auto simp: named_blocks_def)
    then show ?thesis using r r' False meta_only_trans [OF r(2) r'(2)] by (intro exI [of _ d'] exI [of _ b']) auto
  qed
qed

lemma inode_open_keeps:
  assumes "inode_open n s = Some (a, s1)"
  shows "disk s1 = disk s" and "block_bitmap (cur_part s1) = block_bitmap (cur_part s)"
    and "inode_bitmap (cur_part s1) = inode_bitmap (cur_part s)" and "sb (cur_part s1) = sb (cur_part s)"
    and "start_lba (cur_part s1) = start_lba (cur_part s)" and "sec_cnt (cur_part s1) = sec_cnt (cur_part s)"
  using assms by (auto simp: inode_open_def upd_inode_def upd_part_def kmalloc_def Let_def
      split: option.splits list.splits prod.splits bind_split_asm if_splits)

lemma inode_open_layout: "fs_layout s \<Longrightarrow> inode_open n s = Some (a, s1) \<Longrightarrow> fs_layout s1"
  using inode_open_keeps [of n s a s1] by (simp add: fs_layout_def Let_def)

lemma inode_delete_total:
  assumes "inode_ready n s" and "2 * SECTOR_SIZE \<le> room"
  shows "\<exists>d. inode_delete n room s = Some (s\<lparr>disk := d\<rparr>)"
proof -
  have "\<exists>d. ide_write (inode_sec n s) bs (if crosses n then 2 else 1) s = Some (s\<lparr>disk := d\<rparr>)" for bs
    using assms(1) ide_write_many [of "inode_sec n s" bs 1 s] ide_write_many [of "inode_sec n s" bs 0 s]
    by (auto simp: inode_ready_def numeral_2_eq_2 simp del: ide_write.simps)
  then show ?thesis
    using assms ide_read_many [of "inode_sec n s" "if crosses n then 2 else 1" s]
    by (auto simp: inode_delete_def inode_locate_pos inode_ready_def simp del: ide_write.simps ide_read.simps)
qed

section \<open>A concrete partition for the witnesses\<close>

definition demo_part :: partition where
  "demo_part = \<lparr>part_name = [0x73, 0x64, 0x62, 0x31], start_lba = 0, sec_cnt = 2000,
     sb = \<lparr>magic = 0x19491001, sb_sec_cnt = 2000, inode_cnt = 4096, part_lba_base = 0, block_bitmap_lba = 2,
       block_bitmap_sects = 1, inode_bitmap_lba = 3, inode_bitmap_sects = 1, inode_table_lba = 4, inode_table_sects = 608,
       data_start_lba = 612, root_inode_no = 0, dir_entry_size = 24\<rparr>,
     block_bitmap = \<lparr>btmp_bytes_len = 512, bits = (\<lambda>i. if i = 0 then 1 else 0)\<rparr>,
     inode_bitmap = \<lparr>btmp_bytes_len = 512, bits = (\<lambda>i. if i = 0 then 1 else 0)\<rparr>, open_inodes = []\<rparr>"

definition demo_inode :: inode where
  "demo_inode = \<lparr>i_no = 1, i_size = 0, i_open_cnts = 1, write_deny = False, i_sectors = replicate 13 0\<rparr>"

definition demo_fs :: fstate where
  "demo_fs = \<lparr>disk = (\<lambda>_. replicate SECTOR_SIZE 0), cur_part = demo_part, inodes = (\<lambda>_. demo_inode),
     dirs = (\<lambda>_. \<lparr>dir_inode = 0x1000, dir_pos = 0, dir_buf = []\<rparr>), root_dir = 0xc000,
     file_table = replicate 32 \<lparr>fd_pos = 0, fd_flag = 0, fd_inode = NULL\<rparr>, fds = [0, 1, 2, - 1, - 1, - 1, - 1, - 1],
     cwd_inode = 0, heap_next = [0x1000, 0x2000, 0x3000, 0x4000]\<rparr>"

lemma demo_fs_layout: "fs_layout demo_fs"
  by (auto simp: fs_layout_def demo_fs_def demo_part_def bm_cap_def dir_entry_bytes_def SECTOR_SIZE_def word_le_nat_alt)

lemma demo_ready: "n < MAX_FILES_PER_PART \<Longrightarrow> inode_ready n demo_fs"
  by (rule layout_inode(2) [OF demo_fs_layout])

section \<open>Properties\<close>

definition clean_inode :: "inode \<Rightarrow> inode" where
  "clean_inode i = i\<lparr>i_open_cnts := 0, write_deny := False\<rparr>"

lemma u8_number: "unat (n :: u32) < 256 \<Longrightarrow> (ucast (ucast n :: u8) :: u32) = n"
  by (simp add: word_unat_eq_iff unsigned_ucast_eq unsigned_take_bit_eq take_bit_nat_eq_self)

lemma inode_sync_whole:
  assumes "unat (i_no i) < 256" and "inode_ready (i_no i) s" and "\<not> crosses (i_no i)" and "SECTOR_SIZE \<le> room"
  shows "inode_sync i room s = Some (s\<lparr>disk := (disk s)(inode_sec (i_no i) s :=
     take SECTOR_SIZE (put (inode_off (i_no i)) (encode_inode (clean_inode i)) (disk s (inode_sec (i_no i) s))))\<rparr>)"
  using assms by (simp add: inode_sync_def u8_number inode_locate_pos inode_ready_def clean_inode_def)

text \<open>
  C11: what \<^verbatim>\<open>inode_sync\<close> writes, \<^verbatim>\<open>inode_open\<close> reads. For an inode with a number below 256 that does not
  cross a sector boundary, \<^verbatim>\<open>inode_sync\<close> returns, changes one sector, stores the inode with its open
  count and write lock cleared, and leaves the stored image of every other such inode as it was; when
  the inode is not in memory, \<^verbatim>\<open>inode_open\<close> then loads exactly that inode, with open count 1, and puts
  it at the head of the open inodes.
\<close>

theorem inode_sync_open_roundtrip:
  assumes "unat (i_no i) < 256" and "inode_ready (i_no i) s" and "\<not> crosses (i_no i)" and "SECTOR_SIZE \<le> room"
    and "length (i_sectors i) = TOTAL_PTRS" and "\<forall>a\<in>set (open_inodes (cur_part s)). i_no (inodes s a) \<noteq> i_no i"
    and "heap_next s = a # b # rest" and "a \<noteq> NULL" and "b \<noteq> NULL"
  shows "\<exists>s'. inode_sync i room s = Some s' \<and> (\<forall>lba. lba \<noteq> inode_sec (i_no i) s \<longrightarrow> disk s' lba = disk s lba)
    \<and> (\<forall>m<MAX_FILES_PER_PART. m \<noteq> i_no i \<and> \<not> crosses m \<longrightarrow> stored_inode m s' = stored_inode m s)
    \<and> (\<exists>s''. inode_open (i_no i) s' = Some (a, s'') \<and> inodes s'' a = i\<lparr>i_open_cnts := 1, write_deny := False\<rparr>
         \<and> open_inodes (cur_part s'') = a # open_inodes (cur_part s))"
proof -
  let ?n = "i_no i" and ?L = "inode_sec (i_no i) s" and ?e = "encode_inode (clean_inode i)"
  define s' where "s' = s\<lparr>disk := (disk s)(?L := take SECTOR_SIZE (put (inode_off ?n) ?e (disk s ?L)))\<rparr>"
  have sy: "inode_sync i room s = Some s'" unfolding s'_def by (rule inode_sync_whole [OF assms(1-4)])
  have len: "length ?e = inode_bytes" using assms(5) by (intro length_encode_inode) (simp add: clean_inode_def)
  have fit: "inode_off ?n + length ?e \<le> length (disk s ?L)" using assms(2,3) len by (simp add: crosses_def inode_ready_def)
  have whole: "disk s' ?L = put (inode_off ?n) ?e (disk s ?L)"
    using length_put [OF fit] assms(2) by (simp add: s'_def inode_ready_def)
  have sec: "inode_sec m s' = inode_sec m s" for m by (simp add: inode_sec_def s'_def)
  have others: "stored_inode m s' = stored_inode m s" if "m < MAX_FILES_PER_PART" "m \<noteq> ?n" for m
  proof (cases "inode_sec m s = ?L")
    case True
    then show ?thesis
      using inode_slots_apart [of m ?n s] that assms(2) len decode_inode_put_other [OF _ fit, of "inode_off m"]
      by (simp add: stored_inode_def sec whole inode_ready_def)
  qed (simp add: stored_inode_def sec s'_def)
  have "decode_inode (disk s' ?L) (inode_off ?n) = clean_inode i"
    unfolding whole using assms(5) fit len by (intro encode_sync_inode) (simp_all add: clean_inode_def)
  moreover have "find (\<lambda>a. i_no (inodes s' a) = ?n) (open_inodes (cur_part s')) = None"
    using assms(6) by (simp add: find_None_iff s'_def)
  moreover have "inode_locate ?n s' = Some \<lparr>two_sec = False, sec_lba = ?L, off_size = inode_off ?n\<rparr>"
    using assms(2,3) by (simp add: inode_locate_pos inode_ready_def sec)
  ultimately have "\<exists>s''. inode_open ?n s' = Some (a, s'') \<and> inodes s'' a = i\<lparr>i_open_cnts := 1, write_deny := False\<rparr>
         \<and> open_inodes (cur_part s'') = a # open_inodes (cur_part s)"
    using assms(2,7-9) by (simp add: inode_open_def kmalloc_def inode_ready_def upd_inode_def upd_part_def clean_inode_def s'_def)
  then show ?thesis using sy others by (intro exI [of _ s']) (simp add: s'_def)
qed

theorem inode_sync_open_roundtrip_witness:
  "\<exists>s' s''. inode_sync (demo_inode\<lparr>i_size := 77\<rparr>) 1024 demo_fs = Some s' \<and> inode_open 1 s' = Some (0x1000, s'')
     \<and> i_size (inodes s'' 0x1000) = 77"
proof -
  let ?i = "demo_inode\<lparr>i_size := 77\<rparr>"
  have "inode_ready (i_no ?i) demo_fs" by (rule demo_ready) (simp add: demo_inode_def MAX_FILES_PER_PART_def)
  moreover have "\<not> crosses (i_no ?i)" by (simp add: crosses_def inode_off_def demo_inode_def inode_bytes_def SECTOR_SIZE_def)
  ultimately show ?thesis
    using inode_sync_open_roundtrip [of ?i demo_fs 1024 "0x1000" "0x2000" "[0x3000, 0x4000]"]
    by (auto simp: demo_inode_def demo_fs_def demo_part_def SECTOR_SIZE_def TOTAL_PTRS_def)
qed

text \<open>
  C34: \<^verbatim>\<open>inode_sync\<close> of an inode that crosses a sector boundary. The two-sector transfers go to the first
  sector only, so its second part ends up there: the tail of the inode overwrites the beginning of the
  sector, the bytes where the head of the inode belongs keep their old contents, and the following
  sector is not written at all.
\<close>

theorem inode_sync_crossing_corrupts:
  assumes "unat (i_no i) < 256" and "inode_ready (i_no i) s" and "crosses (i_no i)" and "2 * SECTOR_SIZE \<le> room"
    and "length (i_sectors i) = TOTAL_PTRS" and "k = inode_off (i_no i) + inode_bytes - SECTOR_SIZE"
  shows "inode_sync i room s = Some (s\<lparr>disk := (disk s)(inode_sec (i_no i) s :=
      drop (inode_bytes - k) (encode_inode (clean_inode i)) @ drop k (disk s (inode_sec (i_no i) s)))\<rparr>)
    \<and> 0 < k \<and> k \<le> inode_off (i_no i)"
proof -
  let ?n = "i_no i" and ?A = "disk s (inode_sec (i_no i) s)" and ?e = "encode_inode (clean_inode i)" and ?o = "inode_off (i_no i)"
  have len: "length ?e = 76" using assms(5) length_encode_inode [of "clean_inode i"] by (simp add: clean_inode_def inode_bytes_def)
  have A: "length ?A = 512" using assms(2) by (simp add: inode_ready_def SECTOR_SIZE_def)
  have o: "?o < 512" "512 < ?o + 76" "k = ?o + 76 - 512"
    using assms(3,6) by (simp_all add: crosses_def inode_off_def SECTOR_SIZE_def inode_bytes_def)
  have "take 512 (drop 512 (put ?o ?e (?A @ ?A))) = drop (76 - k) ?e @ drop k ?A"
    using o len A by (simp add: put_def)
  then have w: "take SECTOR_SIZE (drop (1 * SECTOR_SIZE) (put ?o ?e (?A @ ?A))) = drop (inode_bytes - k) ?e @ drop k ?A"
    by (simp add: SECTOR_SIZE_def inode_bytes_def)
  have "inode_sync i room s = ide_write (inode_sec ?n s) (put ?o ?e (?A @ ?A)) (Suc 1) s"
    using assms(1-4) by (simp add: inode_sync_def u8_number inode_locate_pos inode_ready_def clean_inode_def numeral_2_eq_2)
  also have "\<dots> = Some (s\<lparr>disk := (disk s)(inode_sec ?n s := drop (inode_bytes - k) ?e @ drop k ?A)\<rparr>)"
    using assms(2) ide_write_many [of "inode_sec ?n s" "put ?o ?e (?A @ ?A)" 1 s] unfolding w by (simp add: inode_ready_def)
  finally show ?thesis using o by (simp add: SECTOR_SIZE_def inode_bytes_def)
qed

theorem inode_sync_crossing_corrupts_witness:
  "\<exists>s'. inode_sync (demo_inode\<lparr>i_no := 6\<rparr>) 1024 demo_fs = Some s' \<and> inode_off 6 = 456
     \<and> disk s' 4 = drop 56 (encode_inode (clean_inode (demo_inode\<lparr>i_no := 6\<rparr>))) @ drop 20 (disk demo_fs 4)"
proof -
  let ?i = "demo_inode\<lparr>i_no := 6\<rparr>"
  have r: "inode_ready (i_no ?i) demo_fs" by (rule demo_ready) (simp add: MAX_FILES_PER_PART_def)
  have o: "inode_off 6 = 456" and s: "inode_sec 6 demo_fs = 4" and c: "crosses 6"
    by (simp_all add: crosses_def inode_off_def inode_sec_def demo_fs_def demo_part_def inode_bytes_def SECTOR_SIZE_def)
  have "length (i_sectors ?i) = TOTAL_PTRS" by (simp add: demo_inode_def TOTAL_PTRS_def)
  from inode_sync_crossing_corrupts [OF _ r _ _ this, of 1024 20] show ?thesis
    by (simp add: o s c SECTOR_SIZE_def inode_bytes_def)
qed

text \<open>
  C14: \<^verbatim>\<open>inode_release\<close> gives back exactly what the inode owns. For an inode whose block pointers name
  data blocks other than block 0, the call returns, clears in the block bitmap the bits of the blocks it
  points to and of its indirect table and no others, and clears its own bit in the inode bitmap and no
  other.
\<close>

theorem inode_release_frees:
  assumes "fs_layout s" and "n < MAX_FILES_PER_PART" and "inode_open n s = Some (a, s1)" and "i_no (inodes s1 a) = n"
    and "flatten_ptrs (inodes s1 a) s1 = Some ls" and "block_ptrs s1 (i_sectors (inodes s1 a) ! DIRECT_PTRS # ls)"
    and "heap_next s1 = p # rest" and "p \<noteq> NULL"
  shows "\<exists>s'. inode_release n s = Some s'
    \<and> (\<forall>j. bm_used (block_bitmap (cur_part s')) j = (bm_used (block_bitmap (cur_part s)) j
         \<and> j \<notin> named_blocks s1 (i_sectors (inodes s1 a) ! DIRECT_PTRS # ls)))
    \<and> (\<forall>j. bm_used (inode_bitmap (cur_part s')) j = (bm_used (inode_bitmap (cur_part s)) j \<and> j \<noteq> unat n))"
proof -
  let ?t = "i_sectors (inodes s1 a) ! DIRECT_PTRS"
  note keep = inode_open_keeps [OF assms(3)]
  have lay: "fs_layout s1" by (rule inode_open_layout [OF assms(1,3)])
  obtain d b where r: "release_blocks (?t # ls) s1 = Some (remap d b s1)" "meta_only s1 d b"
    "\<forall>j. bm_used b j = (bm_used (block_bitmap (cur_part s1)) j \<and> j \<notin> named_blocks s1 (?t # ls))"
    using release_blocks_spec [OF lay assms(6)] by blast
  obtain ib where ib: "bitmap_set (inode_bitmap (cur_part s1)) (unat n) 0 = Some ib" using bm.set_some [of 0] by blast
  define s2 where "s2 = upd_part (inode_bitmap_update (\<lambda>_. ib)) (remap d b s1)"
  have lba: "inode_bitmap_lba (sb (cur_part s1)) \<le> max_lba" using lay by (auto simp: fs_layout_def Let_def word_le_nat_alt)
  have n0: "n div BITS_PER_SECTOR = 0"
    using assms(2) by (simp add: MAX_FILES_PER_PART_def BITS_PER_SECTOR_def word_less_nat_alt word_unat_eq_iff unat_div)
  define s3 where "s3 = s2\<lparr>disk := (disk s2)(inode_bitmap_lba (sb (cur_part s1)) := map (bits ib) [0..<SECTOR_SIZE])\<rparr>"
  have sync: "bitmap_sync n INODE_BITMAP s2 = Some s3"
    using lba by (simp add: bitmap_sync_def n0 s3_def s2_def upd_part_def SECTOR_SIZE_def)
  have "fs_layout s3" using remap_layout [OF lay r(2)]
    by (simp add: fs_layout_def Let_def s3_def s2_def upd_part_def SECTOR_SIZE_def)
  then have "inode_ready n (s3\<lparr>heap_next := rest\<rparr>)"
    using layout_inode(2) [OF _ assms(2)] by (simp add: inode_ready_def inode_sec_def)
  then obtain d' where del: "inode_delete n (2 * SECTOR_SIZE) (s3\<lparr>heap_next := rest\<rparr>) = Some (s3\<lparr>heap_next := rest, disk := d'\<rparr>)"
    using inode_delete_total by fastforce
  obtain t where t: "(if ?t \<noteq> 0 then release_block ?t s1 else Some s1) = Some t" "release_blocks ls t = Some (remap d b s1)"
    using r(1) by (auto split: bind_splits)
  have "inode_bit_clear n (remap d b s1) = Some s2" using ib by (simp add: inode_bit_clear_def s2_def)
  moreover have "kmalloc s3 = (p, s3\<lparr>heap_next := rest\<rparr>)" using assms(7) by (simp add: kmalloc_def s3_def s2_def upd_part_def)
  ultimately have "inode_release n s = Some (inode_close a (s3\<lparr>heap_next := rest, disk := d'\<rparr>))"
    unfolding inode_release_def using assms(3-5,8) t sync del by (simp add: Let_def)
  moreover have "\<forall>j. bm_used ib j = (bm_used (inode_bitmap (cur_part s)) j \<and> j \<noteq> unat n)"
    using bm.set_used [OF ib] keep(3) by auto
  moreover have "cur_part (inode_close a s') = (cur_part s')\<lparr>open_inodes := open_inodes (cur_part (inode_close a s'))\<rparr>" for s' :: "'a fstate_scheme"
    by (simp add: inode_close_def Let_def upd_inode_def upd_part_def)
  ultimately show ?thesis using r(3) keep(2)
    by (intro exI [of _ "inode_close a (s3\<lparr>heap_next := rest, disk := d'\<rparr>)"])
      (simp add: inode_close_def Let_def upd_inode_def upd_part_def s3_def s2_def)
qed

theorem inode_release_frees_witness:
  "\<exists>s'. inode_release 1 (demo_fs\<lparr>cur_part := demo_part\<lparr>open_inodes := [0x9000]\<rparr>\<rparr>) = Some s'
     \<and> bm_used (block_bitmap (cur_part s')) 0 \<and> \<not> bm_used (inode_bitmap (cur_part s')) 1"
proof -
  let ?s = "demo_fs\<lparr>cur_part := demo_part\<lparr>open_inodes := [0x9000]\<rparr>\<rparr>"
  let ?s1 = "upd_inode 0x9000 (\<lambda>i. i\<lparr>i_open_cnts := i_open_cnts i + 1\<rparr>) ?s"
  have op: "inode_open 1 ?s = Some (0x9000, ?s1)" by (simp add: inode_open_def demo_fs_def demo_inode_def)
  have lay: "fs_layout ?s" using demo_fs_layout by (simp add: fs_layout_def demo_fs_def)
  have fl: "flatten_ptrs (inodes ?s1 0x9000) ?s1 = Some (replicate 140 0)"
    by (simp add: flatten_ptrs_def upd_inode_def demo_fs_def demo_inode_def DIRECT_PTRS_def FLATTEN_PTRS_def replicate_add [symmetric])
  have t: "i_sectors (inodes ?s1 0x9000) ! DIRECT_PTRS = 0"
    by (simp add: upd_inode_def demo_fs_def demo_inode_def DIRECT_PTRS_def)
  have bp: "block_ptrs ?s1 (0 # replicate 140 0)" "named_blocks ?s1 (0 # replicate 140 0) = {}"
    by (auto simp: block_ptrs_def named_blocks_def)
  have h: "heap_next ?s1 = 0x1000 # [0x2000, 0x3000, 0x4000]" "(0x1000 :: addr) \<noteq> NULL" "(1 :: u32) < MAX_FILES_PER_PART"
    "i_no (inodes ?s1 0x9000) = 1"
    by (simp_all add: upd_inode_def demo_fs_def MAX_FILES_PER_PART_def demo_inode_def)
  obtain s' where s': "inode_release 1 ?s = Some s'"
    "\<forall>j. bm_used (block_bitmap (cur_part s')) j = bm_used (block_bitmap (cur_part ?s)) j"
    "\<forall>j. bm_used (inode_bitmap (cur_part s')) j = (bm_used (inode_bitmap (cur_part ?s)) j \<and> j \<noteq> unat (1 :: u32))"
    using inode_release_frees [OF lay h(3) op h(4) fl _ h(1,2), unfolded t bp(2), OF bp(1)] by auto
  moreover have "bm_used (block_bitmap (cur_part ?s)) 0" by (simp add: demo_part_def bm_used_def)
  ultimately show ?thesis by simp
qed


end
