(* ===== verification/Dir.thy ===== *)
theory Dir
  imports Inode
begin

unbundle bit_operations_syntax

text \<open>
  Directories, \<^verbatim>\<open>fs/dir.c\<close>. A directory is a file of 24-byte entries, 21 to a sector; a file name is a
  list of bytes without its terminator. The code takes the size of an entry from the super block,
  where only \<^verbatim>\<open>partition_format\<close> writes it, as \<^verbatim>\<open>sizeof(struct dir_entry)\<close>; a partition with any other
  size is outside the model (\<open>None\<close>).

  The loop of \<^verbatim>\<open>sync_dir_entry\<close> and the counting loop in \<^verbatim>\<open>delete_dir_entry\<close> need not end and are
  partial functions; the other loops end.
\<close>

section \<open>Opening and closing\<close>

definition open_root_dir :: "'a fstate_scheme \<Rightarrow> 'a fstate_scheme option" where
  "open_root_dir s = do {
     (a, s) \<leftarrow> inode_open (root_inode_no (sb (cur_part s))) s;
     Some (s\<lparr>dirs := (dirs s)(root_dir s := (dirs s (root_dir s))\<lparr>dir_inode := a, dir_pos := 0\<rparr>)\<rparr>)
   }"

definition dir_open :: "u32 \<Rightarrow> 'a fstate_scheme \<Rightarrow> (addr \<times> 'a fstate_scheme) option" where
  "dir_open inode_no s = do {
     let (pdir, s) = kmalloc s;
     (a, s) \<leftarrow> inode_open inode_no s;
     ASSERT (pdir \<noteq> NULL);
     Some (pdir, s\<lparr>dirs := (dirs s)(pdir := (dirs s pdir)\<lparr>dir_inode := a, dir_pos := 0\<rparr>)\<rparr>)
   }"

definition dir_close :: "addr \<Rightarrow> 'a fstate_scheme \<Rightarrow> 'a fstate_scheme" where
  "dir_close d s = (if d = root_dir s then s else inode_close (dir_inode (dirs s d)) s)"

section \<open>Entries\<close>

definition dir_entrys_per_sec :: "'a fstate_scheme \<Rightarrow> nat option" where
  "dir_entrys_per_sec s = do {
     ASSERT (dir_entry_size (sb (cur_part s)) = of_nat dir_entry_bytes);
     Some (SECTOR_SIZE div dir_entry_bytes)
   }"

primrec find_name :: "nat \<Rightarrow> nat \<Rightarrow> u8 list \<Rightarrow> u8 list \<Rightarrow> dir_entry option option" where
  "find_name 0 k name buf = Some None"
| "find_name (Suc n) k name buf = do {
     f \<leftarrow> cstr_at buf (dir_entry_bytes * k);
     if f = name then Some (Some (decode_dir_entry buf (dir_entry_bytes * k)))
     else find_name n (Suc k) name buf
   }"

primrec search_blocks :: "u32 list \<Rightarrow> nat \<Rightarrow> u8 list \<Rightarrow> 'a fstate_scheme \<Rightarrow> dir_entry option option" where
  "search_blocks [] n name s = Some None"
| "search_blocks (b # bs) n name s =
     (if b = 0 then search_blocks bs n name s
      else do {
        buf \<leftarrow> ide_read b 1 s;
        r \<leftarrow> find_name n 0 name buf;
        case r of Some d \<Rightarrow> Some (Some d) | None \<Rightarrow> search_blocks bs n name s
      })"

definition search_dir_entry :: "addr \<Rightarrow> u8 list \<Rightarrow> 'a fstate_scheme \<Rightarrow> (dir_entry option \<times> 'a fstate_scheme) option" where
  "search_dir_entry pdir name s = do {
     let (p, s) = kmalloc s;
     if p = NULL then Some (None, s)
     else do {
       all_blocks \<leftarrow> flatten_ptrs (inodes s (dir_inode (dirs s pdir))) s;
       let (buf, s) = kmalloc s;
       ASSERT (buf \<noteq> NULL);
       n \<leftarrow> dir_entrys_per_sec s;
       r \<leftarrow> search_blocks all_blocks n name s;
       Some (r, s)
     }
   }"

text \<open>Both callers pass an entry that is all zero.\<close>

definition create_dir_entry :: "u8 list \<Rightarrow> u32 \<Rightarrow> u32 \<Rightarrow> dir_entry option" where
  "create_dir_entry name inode_no file_type = do {
     ASSERT (length name \<le> MAX_FILE_NAME_LEN);
     Some \<lparr>filename = name @ replicate (MAX_FILE_NAME_LEN - length name) 0, de_i_no = inode_no, f_type = file_type\<rparr>
   }"

section \<open>Adding an entry\<close>

definition set_sector :: "addr \<Rightarrow> nat \<Rightarrow> u32 \<Rightarrow> 'a fstate_scheme \<Rightarrow> 'a fstate_scheme" where
  "set_sector a k lba s = upd_inode a (\<lambda>i. i\<lparr>i_sectors := (i_sectors i)[k := lba]\<rparr>) s"

definition grow_inode :: "addr \<Rightarrow> u32 \<Rightarrow> 'a fstate_scheme \<Rightarrow> 'a fstate_scheme" where
  "grow_inode a n s = upd_inode a (\<lambda>i. i\<lparr>i_size := i_size i + n\<rparr>) s"

text \<open>The three cases of a free block pointer; the result says whether the entry can be written.\<close>

definition sync_alloc :: "addr \<Rightarrow> u32 list \<Rightarrow> bool \<Rightarrow> nat \<Rightarrow> 'a fstate_scheme \<Rightarrow> (u32 list option \<times> 'a fstate_scheme) option" where
  "sync_alloc a all_blocks has_flatten blk_i s = do {
     (blk_lba, s) \<leftarrow> block_bitmap_alloc s;
     if blk_lba = - 1 then Some (None, s)
     else do {
       let blk_bm_i = blk_lba - data_start_lba (sb (cur_part s));
       ASSERT (blk_bm_i \<noteq> - 1);
       s \<leftarrow> bitmap_sync blk_bm_i BLOCK_BITMAP s;
       if blk_i < DIRECT_PTRS then Some (Some (all_blocks[blk_i := blk_lba]), set_sector a blk_i blk_lba s)
       else if blk_i = DIRECT_PTRS \<and> \<not> has_flatten then do {
         let s = set_sector a DIRECT_PTRS blk_lba s;
         (blk_lba, s) \<leftarrow> block_bitmap_alloc s;
         if blk_lba = - 1 then do {
           s \<leftarrow> block_bit_clear (i_sectors (inodes s a) ! DIRECT_PTRS - data_start_lba (sb (cur_part s))) s;
           Some (None, set_sector a DIRECT_PTRS 0 s)
         } else do {
           let blk_bm_i = blk_lba - data_start_lba (sb (cur_part s));
           ASSERT (blk_bm_i \<noteq> - 1);
           s \<leftarrow> bitmap_sync blk_bm_i BLOCK_BITMAP s;
           let all_blocks = all_blocks[DIRECT_PTRS := blk_lba];
           s \<leftarrow> ide_write (i_sectors (inodes s a) ! DIRECT_PTRS) (bytes_of (drop DIRECT_PTRS all_blocks)) 1 s;
           Some (Some all_blocks, s)
         }
       } else do {
         let all_blocks = all_blocks[blk_i := blk_lba];
         s \<leftarrow> ide_write (i_sectors (inodes s a) ! DIRECT_PTRS) (bytes_of (drop DIRECT_PTRS all_blocks)) 1 s;
         Some (Some all_blocks, s)
       }
     }
   }"

text \<open>The first entry of a block whose type is \<^verbatim>\<open>FT_UNKNOWN\<close>.\<close>

primrec find_unused :: "nat \<Rightarrow> nat \<Rightarrow> u8 list \<Rightarrow> nat option" where
  "find_unused 0 k buf = None"
| "find_unused (Suc n) k buf =
     (if f_type (decode_dir_entry buf (dir_entry_bytes * k)) = FT_UNKNOWN then Some k else find_unused n (Suc k) buf)"

partial_function (option) sync_loop ::
    "addr \<Rightarrow> dir_entry \<Rightarrow> u32 list \<Rightarrow> bool \<Rightarrow> nat \<Rightarrow> 'a fstate_scheme \<Rightarrow> (bool \<times> 'a fstate_scheme) option" where
  "sync_loop a p_de all_blocks has_flatten blk_i s =
     (if FLATTEN_PTRS \<le> blk_i then Some (False, s)
      else if all_blocks ! blk_i = 0 then do {
        (r, s) \<leftarrow> sync_alloc a all_blocks has_flatten blk_i s;
        case r of None \<Rightarrow> Some (False, s)
        | Some all_blocks \<Rightarrow> do {
            s \<leftarrow> ide_write (all_blocks ! blk_i) (put 0 (encode_dir_entry p_de) (replicate SECTOR_SIZE 0)) 1 s;
            Some (True, grow_inode a (of_nat dir_entry_bytes) s)
          }
      }
      else if blk_i = DIRECT_PTRS then do {
        t \<leftarrow> ide_read (i_sectors (inodes s a) ! DIRECT_PTRS) 1 s;
        sync_loop a p_de (take DIRECT_PTRS all_blocks @ words_of t) True blk_i s
      }
      else do {
        buf \<leftarrow> ide_read (all_blocks ! blk_i) 1 s;
        n \<leftarrow> dir_entrys_per_sec s;
        case find_unused n 0 buf of
          Some k \<Rightarrow> do {
            s \<leftarrow> ide_write (all_blocks ! blk_i) (put (dir_entry_bytes * k) (encode_dir_entry p_de) buf) 1 s;
            Some (True, grow_inode a (of_nat dir_entry_bytes) s)
          }
        | None \<Rightarrow> sync_loop a p_de all_blocks has_flatten (blk_i + 1) s
      })"

definition sync_dir_entry :: "addr \<Rightarrow> dir_entry \<Rightarrow> 'a fstate_scheme \<Rightarrow> (bool \<times> 'a fstate_scheme) option" where
  "sync_dir_entry parent_dir p_de s = do {
     let a = dir_inode (dirs s parent_dir);
     _ \<leftarrow> dir_entrys_per_sec s;
     ASSERT (i_size (inodes s a) mod of_nat dir_entry_bytes = 0);
     sync_loop a p_de (take DIRECT_PTRS (i_sectors (inodes s a)) @ replicate (FLATTEN_PTRS - DIRECT_PTRS) 0) False 0 s
   }"

section \<open>Removing an entry\<close>

definition dot :: "u8 list" where "dot = [0x2e]"
definition dotdot :: "u8 list" where "dotdot = [0x2e, 0x2e]"

text \<open>One block: whether it holds the entry of the directory itself, how many other entries, and the one looked for.\<close>

primrec count_entries :: "nat \<Rightarrow> nat \<Rightarrow> u32 \<Rightarrow> u8 list \<Rightarrow> bool \<Rightarrow> nat \<Rightarrow> nat option \<Rightarrow> (bool \<times> nat \<times> nat option) option" where
  "count_entries 0 k inode_no buf is_first cnt found = Some (is_first, cnt, found)"
| "count_entries (Suc n) k inode_no buf is_first cnt found =
     (let d = decode_dir_entry buf (dir_entry_bytes * k)
      in if f_type d = FT_UNKNOWN then count_entries n (Suc k) inode_no buf is_first cnt found
         else do {
           name \<leftarrow> cstr_at buf (dir_entry_bytes * k);
           if name = dot then count_entries n (Suc k) inode_no buf True cnt found
           else if name \<noteq> dotdot then
             (if de_i_no d = inode_no then do {
                ASSERT (found = None);
                count_entries n (Suc k) inode_no buf is_first (cnt + 1) (Some k)
              } else count_entries n (Suc k) inode_no buf is_first (cnt + 1) found)
           else count_entries n (Suc k) inode_no buf is_first cnt found
         })"

text \<open>The loop that counts the indirect blocks does not advance its index.\<close>

partial_function (option) count_indirect :: "u32 list \<Rightarrow> nat \<Rightarrow> u32 \<Rightarrow> u32 option" where
  "count_indirect all_blocks idx cnt =
     (if idx < FLATTEN_PTRS then count_indirect all_blocks idx (if all_blocks ! idx \<noteq> 0 then cnt + 1 else cnt)
      else Some cnt)"

definition drop_block :: "addr \<Rightarrow> u32 list \<Rightarrow> nat \<Rightarrow> 'a fstate_scheme \<Rightarrow> 'a fstate_scheme option" where
  "drop_block a all_blocks blk_i s = do {
     let idx = all_blocks ! blk_i - data_start_lba (sb (cur_part s));
     s \<leftarrow> block_bit_clear idx s;
     s \<leftarrow> bitmap_sync idx BLOCK_BITMAP s;
     if blk_i < DIRECT_PTRS then Some (set_sector a blk_i 0 s)
     else do {
       indirect_blocks \<leftarrow> count_indirect all_blocks DIRECT_PTRS 0;
       ASSERT (1 \<le> indirect_blocks);
       if 1 < indirect_blocks
       then ide_write (i_sectors (inodes s a) ! DIRECT_PTRS) (bytes_of (drop DIRECT_PTRS (all_blocks[blk_i := 0]))) 1 s
       else do {
         let idx = i_sectors (inodes s a) ! DIRECT_PTRS - data_start_lba (sb (cur_part s));
         s \<leftarrow> block_bit_clear idx s;
         s \<leftarrow> bitmap_sync idx BLOCK_BITMAP s;
         Some (set_sector a DIRECT_PTRS 0 s)
       }
     }
   }"

function delete_loop :: "addr \<Rightarrow> u32 \<Rightarrow> nat \<Rightarrow> u32 list \<Rightarrow> nat \<Rightarrow> 'a fstate_scheme \<Rightarrow> (bool \<times> 'a fstate_scheme) option" where
  "delete_loop a inode_no room all_blocks blk_i s =
     (if FLATTEN_PTRS \<le> blk_i then Some (False, s)
      else if all_blocks ! blk_i = 0 then delete_loop a inode_no room all_blocks (blk_i + 1) s
      else do {
        buf \<leftarrow> ide_read (all_blocks ! blk_i) 1 s;
        n \<leftarrow> dir_entrys_per_sec s;
        (is_first, cnt, found) \<leftarrow> count_entries n 0 inode_no buf False 0 None;
        case found of
          None \<Rightarrow> delete_loop a inode_no room all_blocks (blk_i + 1) s
        | Some k \<Rightarrow> do {
            ASSERT (1 \<le> cnt);
            s \<leftarrow> (if cnt = 1 \<and> \<not> is_first then drop_block a all_blocks blk_i s
                  else ide_write (all_blocks ! blk_i) (put (dir_entry_bytes * k) (replicate dir_entry_bytes 0) buf) 1 s);
            ASSERT (of_nat dir_entry_bytes \<le> i_size (inodes s a));
            let s = upd_inode a (\<lambda>i. i\<lparr>i_size := i_size i - of_nat dir_entry_bytes\<rparr>) s;
            s \<leftarrow> inode_sync (inodes s a) room s;
            Some (True, s)
          }
      })"
  by pat_completeness auto
termination
  by (relation "measure (\<lambda>(_, _, _, _, i, _). FLATTEN_PTRS - i)") auto

declare delete_loop.simps [simp del]

definition delete_dir_entry :: "addr \<Rightarrow> u32 \<Rightarrow> nat \<Rightarrow> 'a fstate_scheme \<Rightarrow> (bool \<times> 'a fstate_scheme) option" where
  "delete_dir_entry pdir inode_no room s = do {
     let a = dir_inode (dirs s pdir);
     all_blocks \<leftarrow> flatten_ptrs (inodes s a) s;
     delete_loop a inode_no room all_blocks 0 s
   }"

section \<open>Reading entries one by one\<close>

text \<open>Within a block: either the position after its entries, or the index of the entry to return.\<close>

primrec read_entries :: "nat \<Rightarrow> nat \<Rightarrow> u32 \<Rightarrow> u32 \<Rightarrow> u8 list \<Rightarrow> (u32 + nat) option" where
  "read_entries 0 k cur_pos pos buf = Some (Inl cur_pos)"
| "read_entries (Suc n) k cur_pos pos buf =
     (if f_type (decode_dir_entry buf (dir_entry_bytes * k)) \<noteq> 0 then
        (if cur_pos < pos then read_entries n (Suc k) (cur_pos + of_nat dir_entry_bytes) pos buf
         else do { ASSERT (cur_pos = pos); Some (Inr k) })
      else read_entries n (Suc k) cur_pos pos buf)"

text \<open>After a null block pointer the index is advanced twice.\<close>

function read_loop :: "addr \<Rightarrow> u32 list \<Rightarrow> nat \<Rightarrow> nat \<Rightarrow> u32 \<Rightarrow> 'a fstate_scheme \<Rightarrow> (dir_entry option \<times> 'a fstate_scheme) option" where
  "read_loop d all_blocks block_cnt blk_i cur_pos s =
     (if block_cnt \<le> blk_i then Some (None, s)
      else if i_size (inodes s (dir_inode (dirs s d))) \<le> dir_pos (dirs s d) then Some (None, s)
      else if all_blocks ! blk_i = 0 then read_loop d all_blocks block_cnt (blk_i + 2) cur_pos s
      else do {
        buf \<leftarrow> ide_read (all_blocks ! blk_i) 1 s;
        n \<leftarrow> dir_entrys_per_sec s;
        let s = s\<lparr>dirs := (dirs s)(d := (dirs s d)\<lparr>dir_buf := buf\<rparr>)\<rparr>;
        r \<leftarrow> read_entries n 0 cur_pos (dir_pos (dirs s d)) buf;
        case r of
          Inl cur_pos \<Rightarrow> read_loop d all_blocks block_cnt (blk_i + 1) cur_pos s
        | Inr k \<Rightarrow> Some (Some (decode_dir_entry buf (dir_entry_bytes * k)),
            s\<lparr>dirs := (dirs s)(d := (dirs s d)\<lparr>dir_pos := dir_pos (dirs s d) + of_nat dir_entry_bytes\<rparr>)\<rparr>)
      })"
  by pat_completeness auto
termination
  by (relation "measure (\<lambda>(_, _, c, i, _, _). c - i)") auto

declare read_loop.simps [simp del]

definition dir_read :: "addr \<Rightarrow> 'a fstate_scheme \<Rightarrow> (dir_entry option \<times> 'a fstate_scheme) option" where
  "dir_read d s = do {
     let i = inodes s (dir_inode (dirs s d));
     all_blocks \<leftarrow> flatten_ptrs i s;
     read_loop d all_blocks (if i_sectors i ! DIRECT_PTRS \<noteq> 0 then FLATTEN_PTRS else DIRECT_PTRS) 0 0 s
   }"

section \<open>Removing a directory\<close>

definition dir_is_empty :: "addr \<Rightarrow> 'a fstate_scheme \<Rightarrow> bool" where
  "dir_is_empty d s = (i_size (inodes s (dir_inode (dirs s d))) = dir_entry_size (sb (cur_part s)) * 2)"

definition dir_remove :: "addr \<Rightarrow> addr \<Rightarrow> 'a fstate_scheme \<Rightarrow> (u32 \<times> 'a fstate_scheme) option" where
  "dir_remove parent_dir child_dir s = do {
     let child_inode = inodes s (dir_inode (dirs s child_dir));
     ASSERT (\<forall>blk_i\<in>{1..<TOTAL_PTRS}. i_sectors child_inode ! blk_i = 0);
     let (io_buf, s) = kmalloc s;
     if io_buf = NULL then Some (- 1, s)
     else do {
       (_, s) \<leftarrow> delete_dir_entry parent_dir (i_no child_inode) (2 * SECTOR_SIZE) s;
       s \<leftarrow> inode_release (i_no (inodes s (dir_inode (dirs s child_dir)))) s;
       Some (0, s)
     }
   }"

end
