(* ===== verification/File.thy ===== *)
theory File
  imports Dir
begin

unbundle bit_operations_syntax

text \<open>
  Open files, \<^verbatim>\<open>fs/file.c\<close>. A \<^verbatim>\<open>struct file *\<close> is an index of \<^verbatim>\<open>file_table\<close>; the bytes read or written are
  lists. The flags are those of \<^verbatim>\<open>enum oflags\<close>.
\<close>

section \<open>Descriptors\<close>

primrec free_slot_loop :: "nat \<Rightarrow> nat \<Rightarrow> file_slot list \<Rightarrow> nat" where
  "free_slot_loop 0 fd ft = fd"
| "free_slot_loop (Suc n) fd ft = (if fd_inode (ft ! fd) = NULL then fd else free_slot_loop n (fd + 1) ft)"

definition get_free_slot_in_global :: "'a fstate_scheme \<Rightarrow> u32" where
  "get_free_slot_in_global s =
     (let fd = free_slot_loop (MAX_FILE_OPEN - 3) 3 (file_table s)
      in if fd = MAX_FILE_OPEN then - 1 else of_nat fd)"

primrec free_fd_loop :: "nat \<Rightarrow> nat \<Rightarrow> u32 list \<Rightarrow> nat" where
  "free_fd_loop 0 fd ft = fd"
| "free_fd_loop (Suc n) fd ft = (if ft ! fd = - 1 then fd else free_fd_loop n (fd + 1) ft)"

definition pcb_fd_install :: "u32 \<Rightarrow> 'a fstate_scheme \<Rightarrow> u32 \<times> 'a fstate_scheme" where
  "pcb_fd_install global_fd s =
     (let local_fd = free_fd_loop (MAX_FILES_OPEN_PER_PROC - 3) 3 (fds s)
      in if local_fd = MAX_FILES_OPEN_PER_PROC then (- 1, s)
         else (of_nat local_fd, s\<lparr>fds := (fds s)[local_fd := global_fd]\<rparr>))"

definition set_slot :: "u32 \<Rightarrow> file_slot \<Rightarrow> 'a fstate_scheme \<Rightarrow> 'a fstate_scheme" where
  "set_slot fd f s = s\<lparr>file_table := (file_table s)[unat fd := f]\<rparr>"

definition upd_slot :: "u32 \<Rightarrow> (file_slot \<Rightarrow> file_slot) \<Rightarrow> 'a fstate_scheme \<Rightarrow> 'a fstate_scheme" where
  "upd_slot fd f s = set_slot fd (f (file_table s ! unat fd)) s"

section \<open>Creating, opening and closing\<close>

definition file_create :: "addr \<Rightarrow> u8 list \<Rightarrow> u8 \<Rightarrow> 'a fstate_scheme \<Rightarrow> (u32 \<times> 'a fstate_scheme) option" where
  "file_create parent_dir name flag s = do {
     let (io_buf, s) = kmalloc s;
     if io_buf = NULL then Some (- 1, s)
     else do {
       (inode_no, s) \<leftarrow> inode_bitmap_alloc s;
       if inode_no = - 1 then Some (- 1, s)
       else do {
         let (a, s) = kmalloc s;
         if a = NULL then do { s \<leftarrow> inode_bit_clear inode_no s; Some (- 1, s) }
         else do {
           let s = upd_inode a (\<lambda>_. inode_init inode_no) s;
           let fd_i = get_free_slot_in_global s;
           if fd_i = - 1 then do { s \<leftarrow> inode_bit_clear inode_no s; Some (- 1, s) }
           else do {
             let s = set_slot fd_i \<lparr>fd_pos = 0, fd_flag = ucast flag, fd_inode = a\<rparr> s;
             let s = upd_inode a (write_deny_update (\<lambda>_. False)) s;
             new_dir_entry \<leftarrow> create_dir_entry name inode_no FT_REGULAR;
             (ok, s) \<leftarrow> sync_dir_entry parent_dir new_dir_entry s;
             if \<not> ok then do {
               let s = set_slot fd_i \<lparr>fd_pos = 0, fd_flag = 0, fd_inode = NULL\<rparr> s;
               s \<leftarrow> inode_bit_clear inode_no s;
               Some (- 1, s)
             } else do {
               s \<leftarrow> inode_sync (inodes s (dir_inode (dirs s parent_dir))) 1024 s;
               s \<leftarrow> inode_sync (inodes s a) 1024 s;
               s \<leftarrow> bitmap_sync inode_no INODE_BITMAP s;
               let s = upd_part (open_inodes_update (\<lambda>l. a # l)) s;
               let s = upd_inode a (i_open_cnts_update (\<lambda>_. 1)) s;
               Some (pcb_fd_install fd_i s)
             }
           }
         }
       }
     }
   }"

definition O_WRONLY :: u32 where "O_WRONLY = 1"
definition O_RDWR :: u32 where "O_RDWR = 2"
definition O_CREAT :: u32 where "O_CREAT = 4"

definition file_open :: "u32 \<Rightarrow> u8 \<Rightarrow> 'a fstate_scheme \<Rightarrow> (u32 \<times> 'a fstate_scheme) option" where
  "file_open inode_no flag s = do {
     let fd_i = get_free_slot_in_global s;
     if fd_i = - 1 then Some (- 1, s)
     else do {
       (a, s) \<leftarrow> inode_open inode_no s;
       let s = set_slot fd_i \<lparr>fd_pos = 0, fd_flag = ucast flag, fd_inode = a\<rparr> s;
       if (ucast flag :: u32) AND O_WRONLY \<noteq> 0 \<or> (ucast flag :: u32) AND O_RDWR \<noteq> 0 then
         (if \<not> write_deny (inodes s a)
          then Some (pcb_fd_install fd_i (upd_inode a (write_deny_update (\<lambda>_. True)) s))
          else Some (- 1, s))
       else Some (pcb_fd_install fd_i s)
     }
   }"

definition file_close :: "u32 \<Rightarrow> 'a fstate_scheme \<Rightarrow> u32 \<times> 'a fstate_scheme" where
  "file_close fd s =
     (let a = fd_inode (file_table s ! unat fd);
          s = upd_inode a (write_deny_update (\<lambda>_. False)) s;
          s = inode_close a s
      in (0, upd_slot fd (fd_inode_update (\<lambda>_. NULL)) s))"

section \<open>Writing\<close>

text \<open>The allocation loop, the same in its three places; a result without pointers is the early return.\<close>

primrec alloc_blocks :: "nat \<Rightarrow> addr \<Rightarrow> nat \<Rightarrow> u32 list \<Rightarrow> 'a fstate_scheme \<Rightarrow> (u32 list option \<times> 'a fstate_scheme) option" where
  "alloc_blocks 0 a blk_i all_blocks s = Some (Some all_blocks, s)"
| "alloc_blocks (Suc n) a blk_i all_blocks s = do {
     (block_lba, s) \<leftarrow> block_bitmap_alloc s;
     if block_lba = - 1 then Some (None, s)
     else do {
       s \<leftarrow> (if blk_i < DIRECT_PTRS then do {
               ASSERT (i_sectors (inodes s a) ! blk_i = 0);
               Some (set_sector a blk_i block_lba s)
             } else Some s);
       s \<leftarrow> bitmap_sync (block_lba - data_start_lba (sb (cur_part s))) BLOCK_BITMAP s;
       alloc_blocks n a (blk_i + 1) (all_blocks[blk_i := block_lba]) s
     }
   }"

definition collect_blocks :: "addr \<Rightarrow> nat \<Rightarrow> nat \<Rightarrow> 'a fstate_scheme \<Rightarrow> (u32 list option \<times> 'a fstate_scheme) option" where
  "collect_blocks a has_used will_use s =
     (let i = inodes s a;
          zero = replicate FLATTEN_PTRS 0;
          last = zero[has_used - 1 := i_sectors i ! (has_used - 1)]
      in if will_use = has_used then
           (if has_used \<le> 12 then Some (Some last, s)
            else do {
              ASSERT (i_sectors i ! 12 \<noteq> 0);
              t \<leftarrow> ide_read (i_sectors i ! 12) 1 s;
              Some (Some (take 12 zero @ words_of t), s)
            })
         else if will_use \<le> 12 then do {
           ASSERT (i_sectors i ! (has_used - 1) \<noteq> 0);
           alloc_blocks (will_use - has_used) a has_used last s
         }
         else if has_used \<le> 12 then do {
           (block_lba, s) \<leftarrow> block_bitmap_alloc s;
           if block_lba = - 1 then Some (None, s)
           else do {
             ASSERT (i_sectors (inodes s a) ! 12 = 0);
             let s = set_sector a 12 block_lba s;
             (r, s) \<leftarrow> alloc_blocks (will_use - has_used) a has_used last s;
             case r of None \<Rightarrow> Some (None, s)
             | Some all_blocks \<Rightarrow> do {
                 s \<leftarrow> ide_write block_lba (bytes_of (drop 12 all_blocks)) 1 s;
                 Some (Some all_blocks, s)
               }
           }
         }
         else do {
           ASSERT (i_sectors i ! 12 \<noteq> 0);
           t \<leftarrow> ide_read (i_sectors i ! 12) 1 s;
           (r, s) \<leftarrow> alloc_blocks (will_use - has_used) a has_used (take 12 zero @ words_of t) s;
           case r of None \<Rightarrow> Some (None, s)
           | Some all_blocks \<Rightarrow> do {
               s \<leftarrow> ide_write (i_sectors i ! 12) (bytes_of (drop 12 all_blocks)) 1 s;
               Some (Some all_blocks, s)
             }
         })"

function write_loop :: "u32 \<Rightarrow> addr \<Rightarrow> u32 list \<Rightarrow> bool \<Rightarrow> u8 list \<Rightarrow> 'a fstate_scheme \<Rightarrow> 'a fstate_scheme option" where
  "write_loop fd a all_blocks first src s =
     (if src = [] then Some s
      else do {
        let size = unat (i_size (inodes s a));
        let lba = all_blocks ! (size div 512);
        let sec_off_bytes = size mod 512;
        let chunk_size = min (length src) (512 - sec_off_bytes);
        io_buf \<leftarrow> (if first then ide_read lba 1 s else Some (replicate SECTOR_SIZE 0));
        s \<leftarrow> ide_write lba (put sec_off_bytes (take chunk_size src) io_buf) 1 s;
        let s = grow_inode a (of_nat chunk_size) s;
        let s = upd_slot fd (\<lambda>f. f\<lparr>fd_pos := fd_pos f + of_nat chunk_size\<rparr>) s;
        write_loop fd a all_blocks False (drop chunk_size src) s
      })"
  by pat_completeness auto
termination
  by (relation "measure (\<lambda>(_, _, _, _, src, _). length src)") auto

declare write_loop.simps [simp del]

text \<open>An empty file gets its first block before anything else; False is the early return.\<close>

definition first_block_alloc :: "addr \<Rightarrow> 'a fstate_scheme \<Rightarrow> (bool \<times> 'a fstate_scheme) option" where
  "first_block_alloc a s =
     (if i_sectors (inodes s a) ! 0 = 0 then do {
        (block_lba, s) \<leftarrow> block_bitmap_alloc s;
        if block_lba = - 1 then Some (False, s)
        else do {
          let s = set_sector a 0 block_lba s;
          let idx = block_lba - data_start_lba (sb (cur_part s));
          ASSERT (idx \<noteq> 0);
          s \<leftarrow> bitmap_sync idx BLOCK_BITMAP s;
          Some (True, s)
        }
      } else Some (True, s))"

definition file_write :: "u32 \<Rightarrow> u8 list \<Rightarrow> 'a fstate_scheme \<Rightarrow> (u32 \<times> 'a fstate_scheme) option" where
  "file_write fd buf s = do {
     let a = fd_inode (file_table s ! unat fd);
     let count = (of_nat (length buf) :: u32);
     if of_nat (512 * FLATTEN_PTRS) < i_size (inodes s a) + count then Some (- 1, s)
     else do {
       let (io_buf, s) = kmalloc s;
       if io_buf = NULL then Some (- 1, s)
       else do {
         let (blocks_buf, s) = kmalloc s;
         if blocks_buf = NULL then Some (- 1, s)
         else do {
           (ok, s) \<leftarrow> first_block_alloc a s;
           if \<not> ok then Some (- 1, s)
           else do {
             let has_used = unat (i_size (inodes s a) div BLOCK_SIZE + 1);
             let will_use = unat ((i_size (inodes s a) + count) div BLOCK_SIZE + 1);
             ASSERT (will_use \<le> 140);
             (r, s) \<leftarrow> collect_blocks a has_used will_use s;
             case r of None \<Rightarrow> Some (- 1, s)
             | Some all_blocks \<Rightarrow> do {
                 let s = upd_slot fd (fd_pos_update (\<lambda>_. i_size (inodes s a) - 1)) s;
                 s \<leftarrow> write_loop fd a all_blocks True buf s;
                 s \<leftarrow> inode_sync (inodes s a) SECTOR_SIZE s;
                 Some (count, s)
               }
           }
         }
       }
     }
   }"

section \<open>Reading\<close>

definition read_ptrs :: "inode \<Rightarrow> nat \<Rightarrow> nat \<Rightarrow> 'a fstate_scheme \<Rightarrow> u32 list option" where
  "read_ptrs i start_idx end_idx s =
     (let direct = (\<lambda>lo hi. map (\<lambda>k. if lo \<le> k \<and> k < hi then i_sectors i ! k else 0) [0..<12])
      in if start_idx = end_idx then
           (if end_idx < 12 then Some (direct end_idx (end_idx + 1) @ replicate 128 0)
            else do { t \<leftarrow> ide_read (i_sectors i ! 12) 1 s; Some (replicate 12 0 @ words_of t) })
         else if end_idx < 12 then Some (direct start_idx (end_idx + 1) @ replicate 128 0)
         else if start_idx < 12 then do {
           ASSERT (i_sectors i ! 12 \<noteq> 0);
           t \<leftarrow> ide_read (i_sectors i ! 12) 1 s;
           Some (direct start_idx 12 @ words_of t)
         }
         else do {
           ASSERT (i_sectors i ! 12 \<noteq> 0);
           t \<leftarrow> ide_read (i_sectors i ! 12) 1 s;
           Some (replicate 12 0 @ words_of t)
         })"

function read_file_loop :: "u32 \<Rightarrow> u32 list \<Rightarrow> nat \<Rightarrow> 'a fstate_scheme \<Rightarrow> (u8 list \<times> 'a fstate_scheme) option" where
  "read_file_loop fd all_blocks size_left s =
     (if size_left = 0 then Some ([], s)
      else do {
        let pos = unat (fd_pos (file_table s ! unat fd));
        let lba = all_blocks ! (pos div 512);
        let sec_off_bytes = pos mod 512;
        let chunk_size = min size_left (512 - sec_off_bytes);
        io_buf \<leftarrow> ide_read lba 1 s;
        let s = upd_slot fd (\<lambda>f. f\<lparr>fd_pos := fd_pos f + of_nat chunk_size\<rparr>) s;
        (rest, s) \<leftarrow> read_file_loop fd all_blocks (size_left - chunk_size) s;
        Some (take chunk_size (drop sec_off_bytes io_buf) @ rest, s)
      })"
  by pat_completeness auto
termination
  by (relation "measure (\<lambda>(_, _, n, _). n)") auto

declare read_file_loop.simps [simp del]

definition file_read :: "u32 \<Rightarrow> u32 \<Rightarrow> 'a fstate_scheme \<Rightarrow> (u32 \<times> u8 list \<times> 'a fstate_scheme) option" where
  "file_read fd count s = do {
     let f = file_table s ! unat fd;
     let i = inodes s (fd_inode f);
     let beyond = i_size i < fd_pos f + count;
     let size = (if beyond then i_size i - fd_pos f else count);
     if beyond \<and> size = 0 then Some (- 1, [], s)
     else do {
       let (io_buf, s) = kmalloc s;
       let (blocks_buf, s) = kmalloc s;
       if blocks_buf = NULL then Some (- 1, [], s)
       else do {
         let start_idx = unat (fd_pos f div BLOCK_SIZE);
         let end_idx = unat ((fd_pos f + size) div BLOCK_SIZE);
         ASSERT (start_idx < 139 \<and> end_idx < 139);
         all_blocks \<leftarrow> read_ptrs i start_idx end_idx s;
         ASSERT (io_buf \<noteq> NULL);
         (bytes, s) \<leftarrow> read_file_loop fd all_blocks (unat size) s;
         Some (size, bytes, s)
       }
     }
   }"

end
