(* ===== verification/File_content.thy ===== *)
theory File_content
  imports File
begin

text \<open>
  The contents of files. A file is a sequence of bytes spread over the blocks that its inode names.
  The loops of \<^verbatim>\<open>file_write\<close> and \<^verbatim>\<open>file_read\<close> are specified over that sequence, block allocation keeps
  pointers distinct, and the two main results say that writing appends and reading returns the bytes.
\<close>

section \<open>The loops over sectors\<close>

lemma upd_slot_fields [simp]:
  "disk (upd_slot fd f s) = disk s" "inodes (upd_slot fd f s) = inodes s" "cur_part (upd_slot fd f s) = cur_part s"
  "heap_next (upd_slot fd f s) = heap_next s" "length (file_table (upd_slot fd f s)) = length (file_table s)"
  by (simp_all add: upd_slot_def set_slot_def)

text \<open>One round of the loop, in terms of the bytes of the file.\<close>

definition spans :: "nat \<Rightarrow> nat \<Rightarrow> nat set" where
  "spans pos len = {k. pos div 512 \<le> k \<and> k * 512 < pos + len}"

lemma spans_next:
  assumes "c = 512 - pos mod 512" and "c < len"
  shows "(pos + c) mod 512 = 0" and "(pos + c) div 512 = Suc (pos div 512)"
    and "spans pos len = insert (pos div 512) (spans (pos + c) (len - c))" and "pos div 512 \<notin> spans (pos + c) (len - c)"
proof -
  have "pos = pos div 512 * 512 + pos mod 512" "pos mod 512 < 512" by simp_all
  then have q: "pos + c = Suc (pos div 512) * 512" using assms(1) by (simp only: mult_Suc)
  then show "(pos + c) mod 512 = 0" and d: "(pos + c) div 512 = Suc (pos div 512)" by simp_all
  have "pos div 512 * 512 \<le> pos" by simp
  then show "spans pos len = insert (pos div 512) (spans (pos + c) (len - c))" "pos div 512 \<notin> spans (pos + c) (len - c)"
    using assms(2) unfolding spans_def d by (auto simp: le_Suc_eq)
qed

lemma spans_one:
  assumes "len \<le> 512 - pos mod 512" and "0 < len"
  shows "spans pos len = {pos div 512}"
proof -
  define q r where "q = pos div 512" and "r = pos mod 512"
  have p: "pos = q * 512 + r" "r < 512" by (simp_all add: q_def r_def)
  have a: "len + r \<le> 512" using assms(1) p(2) by (simp add: r_def)
  have "k = q" if "q \<le> k" "k * 512 < pos + len" for k
  proof (rule ccontr)
    assume "k \<noteq> q"
    with that(1) have "q + 1 \<le> k" by simp
    then show False using that(2) p a by linarith
  qed
  moreover have "q * 512 < pos + len" using assms(2) p by linarith
  ultimately show ?thesis unfolding spans_def q_def [symmetric] by auto
qed

lemma within_sector:
  fixes pos j c :: nat
  assumes "pos \<le> j" and "j < pos + c" and "pos mod 512 + c \<le> 512"
  shows "j div 512 = pos div 512" and "j mod 512 = pos mod 512 + (j - pos)"
proof -
  define q x where "q = pos div 512" and "x = pos mod 512 + (j - pos)"
  have "pos = q * 512 + pos mod 512" by (simp add: q_def)
  then have "j = x + q * 512" using assms(1) unfolding x_def by linarith
  moreover have "x < 512" using assms unfolding x_def by linarith
  ultimately have "j div 512 = q" "j mod 512 = x" by simp_all
  then show "j div 512 = pos div 512" "j mod 512 = pos mod 512 + (j - pos)" by (simp_all only: q_def x_def)
qed

lemma unat_plus_nat: "unat (x :: u32) + n < 2 ^ 32 \<Longrightarrow> unat (x + of_nat n) = unat x + n"
  by (simp add: unat_word_ariths unat_of_nat_u32 del: unsigned_of_nat)

lemma grow_inode_fields [simp]:
  "disk (grow_inode a n s) = disk s" "cur_part (grow_inode a n s) = cur_part s" "heap_next (grow_inode a n s) = heap_next s"
  "file_table (grow_inode a n s) = file_table s" "i_size (inodes (grow_inode a n s) a) = i_size (inodes s a) + n"
  by (simp_all add: grow_inode_def upd_inode_def)

definition advance :: "u32 \<Rightarrow> addr \<Rightarrow> nat \<Rightarrow> (u32 \<Rightarrow> sector) \<Rightarrow> 'a fstate_scheme \<Rightarrow> 'a fstate_scheme" where
  "advance fd a n d s = upd_slot fd (\<lambda>f. f\<lparr>fd_pos := fd_pos f + of_nat n\<rparr>) (grow_inode a (of_nat n) (s\<lparr>disk := d\<rparr>))"

lemma advance_fields [simp]:
  "disk (advance fd a n d s) = d" "cur_part (advance fd a n d s) = cur_part s" "heap_next (advance fd a n d s) = heap_next s" "fds (advance fd a n d s) = fds s"
  "inodes (advance fd a n d s) = (inodes s)(a := (inodes s a)\<lparr>i_size := i_size (inodes s a) + of_nat n\<rparr>)"
  "file_table (advance fd a n d s) = (file_table s)[unat fd := (file_table s ! unat fd)\<lparr>fd_pos := fd_pos (file_table s ! unat fd) + of_nat n\<rparr>]"
  by (simp_all add: advance_def) (simp_all add: upd_slot_def set_slot_def grow_inode_def upd_inode_def)

lemma advance_advance: "advance fd a m d' (advance fd a n d s) = advance fd a (n + m) d' s"
  by (cases "unat fd < length (file_table s)")
    (simp_all add: advance_def upd_slot_def set_slot_def grow_inode_def upd_inode_def add.assoc list_update_beyond)

lemma advance_0: "advance fd a 0 (disk s) s = s"
  by (simp add: advance_def upd_slot_def set_slot_def grow_inode_def upd_inode_def)

lemma write_loop_spec:
  assumes "sz = unat (i_size (inodes s a))" and "sz + length src < 2 ^ 32" and "first \<or> sz mod 512 = 0"
    and "\<forall>k\<in>spans sz (length src). B ! k \<le> max_lba" and "inj_on ((!) B) (spans sz (length src))"
    and "\<forall>lba. length (disk s lba) = SECTOR_SIZE"
  shows "\<exists>d. write_loop fd a B first src s = Some (advance fd a (length src) d s)
    \<and> (\<forall>lba. lba \<notin> (!) B ` spans sz (length src) \<longrightarrow> d lba = disk s lba)
    \<and> (\<forall>lba. length (d lba) = SECTOR_SIZE)
    \<and> (\<forall>j. sz \<le> j \<and> j < sz + length src \<longrightarrow> d (B ! (j div 512)) ! (j mod 512) = src ! (j - sz))
    \<and> (first \<longrightarrow> (\<forall>j < sz mod 512. d (B ! (sz div 512)) ! j = disk s (B ! (sz div 512)) ! j))"
  using assms
proof (induction src arbitrary: sz first s rule: length_induct)
  case (1 src)
  show ?case
  proof (cases "src = []")
    case True
    then have w: "write_loop fd a B first src s = Some s" by (simp add: write_loop.simps)
    then show ?thesis using True "1.prems"(6) by (intro exI [of _ "disk s"]) (auto simp: advance_0)
  next
    case False
    define c where "c = min (length src) (512 - sz mod 512)"
    let ?L = "B ! (sz div 512)"
    define io where "io = (if first then disk s ?L else replicate SECTOR_SIZE 0)"
    define sec where "sec = put (sz mod 512) (take c src) io"
    define d0 where "d0 = (disk s)(?L := sec)"
    define s1 where "s1 = advance fd a c d0 s"
    have c: "0 < c" "c \<le> length src" "sz mod 512 + c \<le> 512" using False by (auto simp: c_def)
    have io: "length io = 512" using "1.prems"(6) by (simp add: io_def SECTOR_SIZE_def)
    have sec: "length sec = 512" using io c by (simp add: sec_def length_put)
    have "sz div 512 * 512 \<le> sz" by simp
    then have "sz div 512 \<in> spans sz (length src)" unfolding spans_def using c by auto
    then have lba: "?L \<le> max_lba" using "1.prems"(4) by blast
    have step: "write_loop fd a B first src s = write_loop fd a B False (drop c src) s1"
    proof -
      have tk: "take SECTOR_SIZE (put (sz mod 512) (take c src) io) = sec" using sec by (simp add: sec_def SECTOR_SIZE_def)
      have rd: "(if first then ide_read ?L 1 s else Some (replicate SECTOR_SIZE 0)) = Some io" using lba by (simp add: io_def)
      show ?thesis
        unfolding write_loop.simps [of fd a B first src s] Let_def "1.prems"(1) [symmetric] c_def [symmetric] rd
        using False lba by (simp add: tk s1_def advance_def d0_def)
    qed
    have wrote: "sec ! (sz mod 512 + j) = src ! j" if "j < c" for j
      using that c io put_nth [of j "take c src" "sz mod 512" io] by (simp add: sec_def)
    have kept: "first \<longrightarrow> (\<forall>j < sz mod 512. sec ! j = disk s ?L ! j)"
      using c io by (simp add: sec_def put_nth_other) (simp add: io_def)
    have wb: "j div 512 = sz div 512 \<and> sec ! (j mod 512) = src ! (j - sz)" if "sz \<le> j" "j < sz + c" for j
      unfolding within_sector(2) [OF that c(3)] using within_sector(1) [OF that c(3)] wrote [of "j - sz"] that by linarith
    have d0: "d0 ?L = sec" "\<And>lba. lba \<noteq> ?L \<Longrightarrow> d0 lba = disk s lba" "\<forall>lba. length (d0 lba) = SECTOR_SIZE"
      using sec "1.prems"(6) by (auto simp: d0_def SECTOR_SIZE_def)
    show ?thesis
    proof (cases "c = length src")
      case True
      then have sp: "spans sz (length src) = {sz div 512}" using c by (intro spans_one) auto
      have "write_loop fd a B first src s = Some (advance fd a (length src) d0 s)"
        unfolding step using True by (simp add: write_loop.simps s1_def d0_def)
      then show ?thesis using d0 kept wb True by (intro exI [of _ d0]) (auto simp: sp)
    next
      case more: False
      then have c': "c = 512 - sz mod 512" "c < length src" using c by (auto simp: c_def)
      note nx = spans_next [OF c']
      have l': "length (drop c src) = length src - c" by simp
      have sz': "sz + c = unat (i_size (inodes s1 a))"
        using "1.prems"(1,2) c(2) by (simp add: s1_def unat_plus_nat)
      have p4: "\<forall>k\<in>spans (sz + c) (length (drop c src)). B ! k \<le> max_lba" and p5: "inj_on ((!) B) (spans (sz + c) (length (drop c src)))"
        using "1.prems"(4,5) unfolding nx(3) l' by auto
      have pl: "length (drop c src) < length src" and p2: "sz + c + length (drop c src) < 2 ^ 32" and p3: "False \<or> (sz + c) mod 512 = 0"
        and p6: "\<forall>lba. length (disk s1 lba) = SECTOR_SIZE"
        using c "1.prems"(2) nx(1) d0(3) by (auto simp: s1_def)
      have Lnot: "?L \<notin> (!) B ` spans (sz + c) (length src - c)" using "1.prems"(5) nx(4) unfolding nx(3) by auto
      obtain d where d: "write_loop fd a B False (drop c src) s1 = Some (advance fd a (length src - c) d s1)"
        "\<forall>lba. lba \<notin> (!) B ` spans (sz + c) (length src - c) \<longrightarrow> d lba = disk s1 lba" "\<forall>lba. length (d lba) = SECTOR_SIZE"
        "\<forall>j. sz + c \<le> j \<and> j < sz + c + (length src - c) \<longrightarrow> d (B ! (j div 512)) ! (j mod 512) = drop c src ! (j - (sz + c))"
        using "1.IH" [rule_format, OF pl sz' p2 p3 bspec [OF p4] p5 spec [OF p6]] unfolding l' by blast
      have dL: "d ?L = sec" using d(2) Lnot d0(1) by (simp add: s1_def)
      have "write_loop fd a B first src s = Some (advance fd a (length src) d s)"
        unfolding step d(1) using c(2) by (simp add: s1_def advance_advance)
      moreover have "d (B ! (j div 512)) ! (j mod 512) = src ! (j - sz)" if "sz \<le> j" "j < sz + length src" for j
      proof (cases "j < sz + c")
        case True
        then show ?thesis using wb [OF that(1) True] dL by simp
      next
        case False
        then show ?thesis using d(4) that c(2) by (simp add: le_diff_conv2)
      qed
      moreover have "d lba = disk s lba" if "lba \<notin> (!) B ` spans sz (length src)" for lba
        using d(2) d0(2) that unfolding nx(3) by (auto simp: s1_def)
      ultimately show ?thesis using d(3) kept dL by (intro exI [of _ d]) auto
    qed
  qed
qed

lemma sector_slice:
  assumes "length sec = 512" and "pos mod 512 + c \<le> 512" and "\<forall>j. pos \<le> j \<and> j < pos + c \<longrightarrow> f j = sec ! (j mod 512)"
  shows "take c (drop (pos mod 512) sec) = map f [pos..<pos + c]"
proof (rule nth_equalityI)
  show "length (take c (drop (pos mod 512) sec)) = length (map f [pos..<pos + c])" using assms by simp
  fix j assume "j < length (take c (drop (pos mod 512) sec))"
  then have j: "j < c" by simp
  have "(pos + j) mod 512 = pos mod 512 + j" using within_sector(2) [of pos "pos + j" c] j assms(2) by simp
  then show "take c (drop (pos mod 512) sec) ! j = map f [pos..<pos + c] ! j" using j assms by (simp add: nth_drop)
qed

lemma upd_slot_upd_slot: "upd_slot fd g (upd_slot fd f s) = upd_slot fd (\<lambda>x. g (f x)) s"
  by (cases "unat fd < length (file_table s)") (simp_all add: upd_slot_def set_slot_def list_update_beyond)

lemma read_file_loop_spec:
  assumes "pos = unat (fd_pos (file_table s ! unat fd))" and "unat fd < length (file_table s)" and "pos + n < 2 ^ 32"
    and "\<forall>k\<in>spans pos n. B ! k \<le> max_lba" and "\<forall>lba. length (disk s lba) = SECTOR_SIZE"
  shows "read_file_loop fd B n s = Some (map (\<lambda>j. disk s (B ! (j div 512)) ! (j mod 512)) [pos..<pos + n],
      upd_slot fd (\<lambda>f. f\<lparr>fd_pos := fd_pos f + of_nat n\<rparr>) s)"
  using assms
proof (induction n arbitrary: pos s rule: less_induct)
  case (less n)
  show ?case
  proof (cases "n = 0")
    case True
    then show ?thesis by (simp add: read_file_loop.simps upd_slot_def set_slot_def)
  next
    case False
    define c where "c = min n (512 - pos mod 512)"
    have c: "0 < c" "c \<le> n" "pos mod 512 + c \<le> 512" using False by (auto simp: c_def)
    define s1 where "s1 = upd_slot fd (\<lambda>f. f\<lparr>fd_pos := fd_pos f + of_nat c\<rparr>) s"
    let ?f = "\<lambda>j. disk s (B ! (j div 512)) ! (j mod 512)"
    have "pos div 512 * 512 \<le> pos" by simp
    then have "pos div 512 \<in> spans pos n" unfolding spans_def using False by auto
    then have lba: "B ! (pos div 512) \<le> max_lba" using less.prems(4) by blast
    have "?f j = disk s (B ! (pos div 512)) ! (j mod 512)" if "pos \<le> j" "j < pos + c" for j
      unfolding within_sector(1) [OF that c(3)] by (rule refl)
    then have sl: "take c (drop (pos mod 512) (disk s (B ! (pos div 512)))) = map ?f [pos..<pos + c]"
      using less.prems(5) c(3) unfolding SECTOR_SIZE_def by (intro sector_slice) blast+
    have step: "read_file_loop fd B n s = do { (r, s) \<leftarrow> read_file_loop fd B (n - c) s1; Some (map ?f [pos..<pos + c] @ r, s) }"
      unfolding read_file_loop.simps [of fd B n s] Let_def less.prems(1) [symmetric] c_def [symmetric]
      by (simp add: False lba s1_def sl)
    have n': "n - c < n" using c by simp
    have pos': "pos + c = unat (fd_pos (file_table s1 ! unat fd))"
      using less.prems(1-3) c by (simp add: s1_def upd_slot_def set_slot_def unat_plus_nat)
    have fd': "unat fd < length (file_table s1)" and d': "disk s1 = disk s" using less.prems(2) by (simp_all add: s1_def)
    have "spans (pos + c) (n - c) \<subseteq> spans pos n"
    proof (cases "c = n")
      case True
      have "(pos + c) div 512 * 512 + (pos + c) mod 512 = pos + c" by simp
      moreover have "(pos + c) div 512 \<le> k \<Longrightarrow> k * 512 < pos + c \<Longrightarrow> pos div 512 \<le> k" for k
        using div_le_mono [of pos "pos + c" 512] by linarith
      ultimately show ?thesis using True by (auto simp: spans_def)
    next
      case False
      then have "c = 512 - pos mod 512" "c < n" using c by (auto simp: c_def)
      from spans_next(3) [OF this] show ?thesis by blast
    qed
    then have p4: "\<forall>k\<in>spans (pos + c) (n - c). B ! k \<le> max_lba" using less.prems(4) by blast
    have p3: "pos + c + (n - c) < 2 ^ 32" using less.prems(3) c by simp
    have p5: "\<forall>lba. length (disk s1 lba) = SECTOR_SIZE" using less.prems(5) d' by simp
    have "[pos..<pos + c] @ [pos + c..<pos + n] = [pos..<pos + n]" using upt_add_eq_append [of pos "pos + c" "n - c"] c(2) by simp
    then have "map ?f [pos..<pos + c] @ map ?f [pos + c..<pos + n] = map ?f [pos..<pos + n]" by (metis map_append)
    moreover have "(of_nat c :: u32) + of_nat (n - c) = of_nat n" using c(2) by (metis le_add_diff_inverse of_nat_add)
    ultimately show ?thesis
      unfolding step less.IH [OF n' pos' fd' p3 p4 p5] d'
      using c(2) by (simp add: s1_def upd_slot_upd_slot add.assoc)
  qed
qed

section \<open>The contents of a file\<close>

definition file_ptr :: "inode \<Rightarrow> 'a fstate_scheme \<Rightarrow> nat \<Rightarrow> u32" where
  "file_ptr i s k = (if k < 12 then i_sectors i ! k else words_of (disk s (i_sectors i ! 12)) ! (k - 12))"

definition file_byte :: "inode \<Rightarrow> 'a fstate_scheme \<Rightarrow> nat \<Rightarrow> u8" where
  "file_byte i s j = disk s (file_ptr i s (j div 512)) ! (j mod 512)"

definition file_bytes :: "inode \<Rightarrow> 'a fstate_scheme \<Rightarrow> u8 list" where
  "file_bytes i s = map (file_byte i s) [0..<unat (i_size i)]"

text \<open>All block pointers up to the end of the file are usable.\<close>

definition readable :: "inode \<Rightarrow> 'a fstate_scheme \<Rightarrow> bool" where
  "readable i s = (length (i_sectors i) = TOTAL_PTRS \<and> unat (i_size i) < 139 * 512
     \<and> (\<forall>k. k * 512 < unat (i_size i) \<longrightarrow> file_ptr i s k \<le> max_lba)
     \<and> (12 * 512 \<le> unat (i_size i) \<longrightarrow> i_sectors i ! 12 \<noteq> 0 \<and> i_sectors i ! 12 \<le> max_lba)
     \<and> (\<forall>lba. length (disk s lba) = SECTOR_SIZE))"

lemma read_ptrs_spec:
  assumes "length (i_sectors i) = TOTAL_PTRS" and "lo \<le> hi" and "12 \<le> hi \<Longrightarrow> i_sectors i ! 12 \<noteq> 0 \<and> i_sectors i ! 12 \<le> max_lba"
  shows "\<exists>B. read_ptrs i lo hi s = Some B \<and> (\<forall>k. lo \<le> k \<and> k \<le> hi \<longrightarrow> B ! k = file_ptr i s k)"
proof (cases "hi < 12")
  case True
  then show ?thesis by (auto simp: read_ptrs_def Let_def file_ptr_def nth_append)
next
  case False
  then have t: "ide_read (i_sectors i ! 12) 1 s = Some (disk s (i_sectors i ! 12))" "i_sectors i ! 12 \<noteq> 0" using assms(3) by simp_all
  show ?thesis
  proof (cases "lo < 12")
    case True
    with False t show ?thesis by (auto simp: read_ptrs_def Let_def file_ptr_def nth_append)
  next
    case lo: False
    with False t show ?thesis by (auto simp: read_ptrs_def Let_def file_ptr_def nth_append)
  qed
qed

lemma file_read_spec:
  assumes "i = inodes s (fd_inode (file_table s ! unat fd))" and "readable i s" and "unat fd < length (file_table s)"
    and "pos = unat (fd_pos (file_table s ! unat fd))" and "pos \<le> unat (i_size i)" and "pos + unat count < 2 ^ 32"
    and "heap_next s = p # q # rest" and "p \<noteq> NULL" and "q \<noteq> NULL"
  shows "(if pos = unat (i_size i) \<and> count \<noteq> 0 then file_read fd count s = Some (- 1, [], s)
    else \<exists>s'. file_read fd count s = Some (of_nat (length (take (unat count) (drop pos (file_bytes i s)))),
              take (unat count) (drop pos (file_bytes i s)), s')
       \<and> disk s' = disk s \<and> inodes s' = inodes s
       \<and> unat (fd_pos (file_table s' ! unat fd)) = pos + length (take (unat count) (drop pos (file_bytes i s))))"
proof -
  let ?f = "file_table s ! unat fd" and ?sz = "unat (i_size i)"
  define n where "n = min (unat count) (?sz - pos)"
  have lt: "?sz < 139 * 512" using assms(2) by (simp add: readable_def)
  have uadd: "unat (fd_pos ?f + count) = pos + unat count" using assms(4,6) by (simp add: unat_word_ariths)
  define beyond where "beyond = (i_size i < fd_pos ?f + count)"
  have bey: "beyond = (?sz < pos + unat count)" by (simp add: beyond_def word_less_nat_alt uadd)
  define sz where "sz = (if beyond then i_size i - fd_pos ?f else count)"
  have "fd_pos ?f \<le> i_size i" using assms(4,5) by (simp add: word_le_nat_alt)
  then have szn: "unat sz = n" using bey assms(4) by (auto simp: sz_def n_def unat_sub)
  have tk: "take (unat count) (drop pos (file_bytes i s)) = map (file_byte i s) [pos..<pos + n]"
    using assms(5) by (simp add: file_bytes_def take_map drop_map n_def min_def take_upt)
  show ?thesis
  proof (cases "pos = ?sz \<and> count \<noteq> 0")
    case True
    then have "beyond" "n = 0" using bey unat_gt_0 [of count] by (simp_all add: n_def)
    moreover from this have "sz = 0" using szn by (simp add: unat_eq_0)
    ultimately have "file_read fd count s = Some (- 1, [], s)"
      unfolding file_read_def Let_def beyond_def [symmetric] assms(1) [symmetric] sz_def [symmetric] by simp
    then show ?thesis using True by simp
  next
    case False
    have nb: "\<not> (beyond \<and> sz = 0)"
    proof
      assume b: "beyond \<and> sz = 0"
      then have "n = 0" using szn by simp
      with b bey False assms(5) show False by (auto simp: n_def min_def split: if_splits)
    qed
    define s2 where "s2 = s\<lparr>heap_next := rest\<rparr>"
    define lo hi where "lo = unat (fd_pos ?f div BLOCK_SIZE)" and "hi = unat ((fd_pos ?f + sz) div BLOCK_SIZE)"
    have us: "unat (fd_pos ?f + sz) = pos + n" using assms(4,6) szn by (simp add: unat_word_ariths n_def)
    have lohi: "lo = pos div 512" "hi = (pos + n) div 512" using assms(4) us by (simp_all add: lo_def hi_def BLOCK_SIZE_def unat_div)
    have pn: "pos + n \<le> ?sz" using assms(5) by (simp add: n_def)
    then have "hi \<le> ?sz div 512" unfolding lohi by (rule div_le_mono)
    then have hi: "hi < 139" using lt by (simp add: less_mult_imp_div_less le_less_trans)
    have le: "lo \<le> hi" unfolding lohi by (simp add: div_le_mono)
    have tab: "12 \<le> hi \<Longrightarrow> i_sectors i ! 12 \<noteq> 0 \<and> i_sectors i ! 12 \<le> max_lba"
    proof -
      assume "12 \<le> hi"
      then have "12 * 512 \<le> pos + n" unfolding lohi by (simp add: le_div_geq less_eq_div_iff_mult_less_eq)
      then show ?thesis using assms(2) pn by (simp add: readable_def)
    qed
    obtain B where B: "read_ptrs i lo hi s2 = Some B" "\<forall>k. lo \<le> k \<and> k \<le> hi \<longrightarrow> B ! k = file_ptr i s2 k"
      using read_ptrs_spec [OF _ le tab, of s2] assms(2) by (auto simp: readable_def)
    have fp: "file_ptr i s2 k = file_ptr i s k" for k by (simp add: file_ptr_def s2_def)
    have sp: "k \<in> spans pos n \<Longrightarrow> lo \<le> k \<and> k \<le> hi \<and> k * 512 < ?sz" for k
      using pn unfolding spans_def lohi by (auto simp: less_eq_div_iff_mult_less_eq)
    have "read_file_loop fd B n s2 = Some (map (\<lambda>j. disk s2 (B ! (j div 512)) ! (j mod 512)) [pos..<pos + n],
      upd_slot fd (\<lambda>f. f\<lparr>fd_pos := fd_pos f + of_nat n\<rparr>) s2)"
      using assms(2-6) sp B(2) fp pn lt by (intro read_file_loop_spec) (auto simp: s2_def readable_def)
    moreover have "map (\<lambda>j. disk s2 (B ! (j div 512)) ! (j mod 512)) [pos..<pos + n] = map (file_byte i s) [pos..<pos + n]"
    proof (rule map_cong [OF refl])
      fix j assume "j \<in> set [pos..<pos + n]"
      then have "lo \<le> j div 512 \<and> j div 512 \<le> hi" unfolding lohi by (auto intro: div_le_mono)
      then show "disk s2 (B ! (j div 512)) ! (j mod 512) = file_byte i s j" using B(2) fp by (simp add: file_byte_def s2_def)
    qed
    ultimately have "file_read fd count s = Some (sz, map (file_byte i s) [pos..<pos + n], upd_slot fd (\<lambda>f. f\<lparr>fd_pos := fd_pos f + of_nat n\<rparr>) s2)"
      using nb assms(7-9) hi le B(1) szn
      unfolding file_read_def Let_def beyond_def [symmetric] assms(1) [symmetric] sz_def [symmetric]
      by (simp add: kmalloc_def lo_def [symmetric] hi_def [symmetric] s2_def [symmetric])
    moreover have "sz = of_nat n" using szn by auto
    moreover have "unat (fd_pos ?f + of_nat n) = pos + n" using us \<open>sz = of_nat n\<close> by simp
    ultimately have R: "file_read fd count s = Some (of_nat n, map (file_byte i s) [pos..<pos + n], upd_slot fd (\<lambda>f. f\<lparr>fd_pos := fd_pos f + of_nat n\<rparr>) s2)"
      and P: "unat (fd_pos ?f + of_nat n) = pos + n" by simp_all
    have D: "disk (upd_slot fd g s2) = disk s" "inodes (upd_slot fd g s2) = inodes s" for g by (simp_all add: s2_def upd_slot_def set_slot_def)
    have F: "fd_pos (file_table (upd_slot fd (\<lambda>f. f\<lparr>fd_pos := fd_pos f + of_nat n\<rparr>) s2) ! unat fd) = fd_pos ?f + of_nat n"
      using assms(3) by (simp add: s2_def upd_slot_def set_slot_def)
    show ?thesis unfolding if_not_P [OF False] tk
      by (rule exI [of _ "upd_slot fd (\<lambda>f. f\<lparr>fd_pos := fd_pos f + of_nat n\<rparr>) s2"]) (simp only: R F P D length_map length_upt add_diff_cancel_left' simp_thms)
  qed
qed

text \<open>Witness states: an open empty file, and an open file of four bytes.\<close>

text \<open>
  C9: \<^verbatim>\<open>file_read\<close> returns the bytes of the file. For a file whose pointers up to its end are usable and a
  position inside it, the call returns the bytes from the position on, as many as asked for or as the
  file still has, advances the position by that number and changes neither disk nor inodes; at the end
  of the file it returns -1.
\<close>

theorem file_read_correct:
  assumes "i = inodes s (fd_inode (file_table s ! unat fd))" and "readable i s" and "unat fd < length (file_table s)"
    and "pos = unat (fd_pos (file_table s ! unat fd))" and "pos \<le> unat (i_size i)" and "pos + unat count < 2 ^ 32"
    and "heap_next s = p # q # rest" and "p \<noteq> NULL" and "q \<noteq> NULL"
  shows "(if pos = unat (i_size i) \<and> count \<noteq> 0 then file_read fd count s = Some (- 1, [], s)
    else \<exists>s'. file_read fd count s = Some (of_nat (length (take (unat count) (drop pos (file_bytes i s)))),
              take (unat count) (drop pos (file_bytes i s)), s')
       \<and> disk s' = disk s \<and> inodes s' = inodes s
       \<and> unat (fd_pos (file_table s' ! unat fd)) = pos + length (take (unat count) (drop pos (file_bytes i s))))"
  by (rule file_read_spec [OF assms])

definition demo_open :: fstate where
  "demo_open = demo_fs\<lparr>file_table := replicate 32 \<lparr>fd_pos = 0, fd_flag = 2, fd_inode = 0x9000\<rparr>\<rparr>"

definition demo_four :: fstate where
  "demo_four = demo_open\<lparr>disk := (\<lambda>lba. if lba = 700 then [10, 20, 30, 40] @ replicate 508 0 else replicate 512 0),
     inodes := (\<lambda>_. demo_inode\<lparr>i_size := 4, i_sectors := 700 # replicate 12 0\<rparr>),
     file_table := replicate 32 \<lparr>fd_pos = 1, fd_flag = 2, fd_inode = 0x9000\<rparr>\<rparr>"

lemma demo_four_readable: "readable (inodes demo_four 0x9000) demo_four"
proof -
  have z: "k = 0" if "k * 512 < 4" for k :: nat using that by (cases k) simp_all
  show ?thesis
    by (auto simp: readable_def demo_four_def TOTAL_PTRS_def SECTOR_SIZE_def file_ptr_def word_le_nat_alt dest: z)
qed

theorem file_read_correct_witness:
  "\<exists>s'. file_read 0 3 demo_four = Some (3, [20, 30, 40], s') \<and> unat (fd_pos (file_table s' ! 0)) = 4"
proof -
  have b: "take (unat (3 :: u32)) (drop 1 (file_bytes (inodes demo_four 0x9000) demo_four)) = [20, 30, 40]"
    by (simp add: file_bytes_def file_byte_def file_ptr_def demo_four_def upt_rec)
  have "fd_inode (file_table demo_four ! unat 0) = 0x9000" "fd_pos (file_table demo_four ! unat 0) = 1" "length (file_table demo_four) = 32"
    "i_size (inodes demo_four 0x9000) = 4" "heap_next demo_four = 0x1000 # 0x2000 # [0x3000, 0x4000]"
    by (simp_all add: demo_four_def demo_open_def demo_fs_def)
  then show ?thesis
    using file_read_correct [of "inodes demo_four 0x9000" demo_four 0 1 3 "0x1000" "0x2000" "[0x3000, 0x4000]", unfolded b] demo_four_readable by auto
qed

section \<open>Giving blocks to a file\<close>

definition block_used :: "'a fstate_scheme \<Rightarrow> nat \<Rightarrow> bool" where
  "block_used s j = bm_used (block_bitmap (cur_part s)) j"

definition blocks :: "'a fstate_scheme \<Rightarrow> nat" where
  "blocks s = bm_cap (block_bitmap (cur_part s))"

definition free_blocks :: "'a fstate_scheme \<Rightarrow> nat" where
  "free_blocks s = card {j. j < blocks s \<and> \<not> block_used s j}"

text \<open>The direct pointers of an inode that are set name different used blocks.\<close>

definition owns_blocks :: "inode \<Rightarrow> 'a fstate_scheme \<Rightarrow> bool" where
  "owns_blocks i s = (length (i_sectors i) = TOTAL_PTRS
     \<and> (\<forall>k<12. i_sectors i ! k \<noteq> 0 \<longrightarrow> (\<exists>j. 0 < j \<and> j < blocks s \<and> block_used s j \<and> i_sectors i ! k = data_lba s j))
     \<and> inj_on ((!) (i_sectors i)) {k. k < 12 \<and> i_sectors i ! k \<noteq> 0})"

definition alloc_ok :: "addr \<Rightarrow> 'a fstate_scheme \<Rightarrow> bool" where
  "alloc_ok a s = (fs_layout s \<and> 0 < blocks s \<and> block_used s 0 \<and> owns_blocks (inodes s a) s)"

text \<open>A state reached by giving the file free blocks: set pointers stay, new ones name blocks that were free.\<close>

definition grown :: "addr \<Rightarrow> 'a fstate_scheme \<Rightarrow> 'a fstate_scheme \<Rightarrow> bool" where
  "grown a s s' = (\<exists>d b sec. s' = remap d b (s\<lparr>inodes := (inodes s)(a := (inodes s a)\<lparr>i_sectors := sec\<rparr>)\<rparr>)
     \<and> meta_only s d b \<and> (\<forall>j. block_used s j \<longrightarrow> bm_used b j)
     \<and> (\<forall>k<12. i_sectors (inodes s a) ! k \<noteq> 0 \<longrightarrow> sec ! k = i_sectors (inodes s a) ! k)
     \<and> (\<forall>k<12. i_sectors (inodes s a) ! k = 0 \<longrightarrow> (\<forall>j. j < blocks s \<and> block_used s j \<longrightarrow> sec ! k \<noteq> data_lba s j)))"

lemma remap_fds [simp]: "fds (remap d b s) = fds s"
  by (simp add: remap_def)

lemma grown_fields:
  assumes "grown a s s'"
  shows "heap_next s' = heap_next s" "file_table s' = file_table s" "sb (cur_part s') = sb (cur_part s)" "blocks s' = blocks s"
    "data_lba s' j = data_lba s j" "i_size (inodes s' a) = i_size (inodes s a)" "i_no (inodes s' a) = i_no (inodes s a)"
    "data_start_lba (sb (cur_part s)) \<le> lba \<Longrightarrow> disk s' lba = disk s lba" "block_used s j \<Longrightarrow> block_used s' j"
    "b \<noteq> a \<Longrightarrow> inodes s' b = inodes s b" "fds s' = fds s"
  using assms by (auto simp: grown_def blocks_def meta_only_def data_lba_def block_used_def)

lemma grown_sectors:
  assumes "grown a s s'" and "k < 12"
  shows "i_sectors (inodes s a) ! k \<noteq> 0 \<Longrightarrow> i_sectors (inodes s' a) ! k = i_sectors (inodes s a) ! k"
    and "i_sectors (inodes s a) ! k = 0 \<Longrightarrow> j < blocks s \<Longrightarrow> block_used s j \<Longrightarrow> i_sectors (inodes s' a) ! k \<noteq> data_lba s j"
  using assms by (auto simp: grown_def)

lemma data_lba_pos:
  assumes "fs_layout s" and "j < blocks s" shows "data_lba s j \<noteq> 0" and "data_start_lba (sb (cur_part s)) \<le> data_lba s j"
proof -
  have "unat (data_lba s j) = unat (data_start_lba (sb (cur_part s))) + j" using assms layout_data(1) by (simp add: blocks_def)
  moreover have "608 \<le> unat (data_start_lba (sb (cur_part s)))" using assms(1) by (simp add: fs_layout_def Let_def)
  ultimately show "data_lba s j \<noteq> 0" "data_start_lba (sb (cur_part s)) \<le> data_lba s j" by (auto simp: word_le_nat_alt)
qed

lemma grown_refl:
  assumes "alloc_ok a s"
  shows "grown a s s"
  unfolding grown_def
  by (rule exI [of _ "disk s"], rule exI [of _ "block_bitmap (cur_part s)"], rule exI [of _ "i_sectors (inodes s a)"])
    (use assms data_lba_pos(1) in \<open>auto simp: alloc_ok_def meta_only_refl block_used_def\<close>)

lemma grown_trans:
  assumes "grown a s t" and "grown a t u" and "alloc_ok a s"
  shows "grown a s u"
proof -
  note f = grown_fields [OF assms(1)] and g = grown_fields [OF assms(2)]
  obtain d b sec where t: "t = remap d b (s\<lparr>inodes := (inodes s)(a := (inodes s a)\<lparr>i_sectors := sec\<rparr>)\<rparr>)" "meta_only s d b"
    using assms(1) unfolding grown_def by blast
  obtain d' b' sec' where u: "u = remap d' b' (t\<lparr>inodes := (inodes t)(a := (inodes t a)\<lparr>i_sectors := sec'\<rparr>)\<rparr>)" "meta_only t d' b'"
    using assms(2) unfolding grown_def by blast
  have "u = remap d' b' (s\<lparr>inodes := (inodes s)(a := (inodes s a)\<lparr>i_sectors := sec'\<rparr>)\<rparr>)" unfolding u(1) t(1) by (simp add: remap_def)
  moreover have "meta_only s d' b'" using t(2) u(2) unfolding t(1) by (simp add: meta_only_def)
  moreover have "bm_used b' j" if "block_used s j" for j using g(9) [OF f(9) [OF that]] unfolding u(1) by (simp add: block_used_def)
  moreover have "sec' ! k = i_sectors (inodes s a) ! k" if "k < 12" "i_sectors (inodes s a) ! k \<noteq> 0" for k
    using grown_sectors(1) [OF assms(1) that] grown_sectors(1) [OF assms(2) that(1)] that(2) by (simp add: u(1))
  moreover have "sec' ! k \<noteq> data_lba s j" if "k < 12" "i_sectors (inodes s a) ! k = 0" "j < blocks s" "block_used s j" for k j
  proof (cases "i_sectors (inodes t a) ! k = 0")
    case True
    show ?thesis using grown_sectors(2) [OF assms(2) that(1) True, of j] f(4,5,9) that(3,4) by (simp add: u(1))
  next
    case False
    show ?thesis using grown_sectors(1) [OF assms(2) that(1) False] grown_sectors(2) [OF assms(1) that] by (simp add: u(1))
  qed
  ultimately show ?thesis unfolding grown_def by blast
qed

lemma owns_more:
  assumes "owns_blocks (inodes s a) s" and "fs_layout s" and "j < blocks s" and "0 < j" and "\<not> block_used s j" and "k < 12"
    and "i_sectors (inodes s a) ! k = 0" and "blocks s' = blocks s" and "\<And>x. data_lba s' x = data_lba s x"
    and "\<And>x. block_used s' x = (x = j \<or> block_used s x)" and "i_sectors i = (i_sectors (inodes s a))[k := data_lba s j]"
  shows "owns_blocks i s'"
proof -
  let ?S = "i_sectors (inodes s a)" and ?S' = "i_sectors i"
  have len: "length ?S = 13" using assms(1) by (simp add: owns_blocks_def TOTAL_PTRS_def)
  have at: "?S' ! x = (if x = k then data_lba s j else ?S ! x)" if "x < 12" for x
    using that len assms(6,11) by (simp add: nth_list_update)
  have new: "?S ! x \<noteq> data_lba s j" if x12: "x < 12" for x
  proof
    assume e: "?S ! x = data_lba s j"
    then have "?S ! x \<noteq> 0" using data_lba_pos(1) [OF assms(2,3)] by simp
    then obtain y where "y < blocks s" "block_used s y" "?S ! x = data_lba s y" using assms(1) x12 by (auto simp: owns_blocks_def)
    then show False using e data_lba_inj [OF assms(2), of y j] assms(3,5) by (simp add: blocks_def)
  qed
  have inj: "inj_on ((!) ?S) {x. x < 12 \<and> ?S ! x \<noteq> 0}" using assms(1) by (simp add: owns_blocks_def)
  have "x = y" if "x < 12" "?S' ! x \<noteq> 0" "y < 12" "?S' ! y \<noteq> 0" "?S' ! x = ?S' ! y" for x y
  proof (cases "x = k \<or> y = k")
    case True
    with that at new show ?thesis by (metis (no_types))
  next
    case False
    then show ?thesis using inj_onD [OF inj, of x y] that at by simp
  qed
  then have "inj_on ((!) ?S') {x. x < 12 \<and> ?S' ! x \<noteq> 0}" by (auto intro!: inj_onI)
  moreover have "\<exists>y. 0 < y \<and> y < blocks s' \<and> block_used s' y \<and> ?S' ! x = data_lba s' y" if "x < 12" "?S' ! x \<noteq> 0" for x
    using that assms(1,3,4,8-10) at [OF that(1)] by (cases "x = k") (auto simp: owns_blocks_def)
  ultimately show ?thesis using len assms(11) by (simp add: owns_blocks_def TOTAL_PTRS_def)
qed

lemma grow_step:
  assumes "alloc_ok a s" and "k < 12" and "i_sectors (inodes s a) ! k = 0" and "0 < free_blocks s"
  shows "\<exists>L s1 s'. block_bitmap_alloc s = Some (L, s1) \<and> L \<noteq> - 1 \<and> L \<noteq> 0 \<and> L - data_start_lba (sb (cur_part s1)) \<noteq> 0
    \<and> inodes s1 = inodes s \<and> sb (cur_part s1) = sb (cur_part s) \<and> bitmap_sync (L - data_start_lba (sb (cur_part s))) BLOCK_BITMAP (set_sector a k L s1) = Some s'
    \<and> grown a s s' \<and> alloc_ok a s' \<and> i_sectors (inodes s' a) = (i_sectors (inodes s a))[k := L]
    \<and> free_blocks s = Suc (free_blocks s')"
proof -
  have lay: "fs_layout s" and u0: "block_used s 0" and own: "owns_blocks (inodes s a) s" and b0: "0 < blocks s"
    using assms(1) by (simp_all add: alloc_ok_def)
  show ?thesis
    using lay
  proof (cases rule: block_alloc_cases)
    case full
    then have "{j. j < blocks s \<and> \<not> block_used s j} = {}" by (auto simp: blocks_def block_used_def)
    then have "free_blocks s = 0" unfolding free_blocks_def by (simp only: card.empty)
    then show ?thesis using assms(4) by simp
  next
    case (block j b)
    have j: "0 < j" "j < blocks s" "\<not> block_used s j" using block(3,4) u0 by (auto simp: block_used_def blocks_def intro: gr0I)
    let ?L = "data_lba s j" and ?S = "i_sectors (inodes s a)"
    let ?s2 = "set_sector a k ?L (remap (disk s) b s)"
    have cap: "bm_cap b = bm_cap (block_bitmap (cur_part s))" using block(5) by (simp add: meta_only_def)
    have lay2: "fs_layout ?s2" using remap_layout [OF lay block(5)] by (simp add: set_sector_def upd_inode_def fs_layout_def Let_def)
    have cap2: "j < bm_cap (block_bitmap (cur_part ?s2))" using j(2) cap by (simp add: set_sector_def upd_inode_def blocks_def)
    obtain d where d: "bitmap_sync (of_nat j) BLOCK_BITMAP ?s2 = Some (?s2\<lparr>disk := d\<rparr>)"
      "\<forall>lba. data_start_lba (sb (cur_part s)) \<le> lba \<longrightarrow> d lba = disk s lba" "\<forall>lba. length (d lba) = SECTOR_SIZE"
      using bitmap_sync_block [OF lay2 cap2] by (auto simp: set_sector_def upd_inode_def)
    let ?s' = "?s2\<lparr>disk := d\<rparr>"
    have m: "meta_only s d b" using d(2,3) cap by (simp add: meta_only_def)
    have e: "?s' = remap d b (s\<lparr>inodes := (inodes s)(a := (inodes s a)\<lparr>i_sectors := ?S[k := ?L]\<rparr>)\<rparr>)"
      by (simp add: remap_def set_sector_def upd_inode_def)
    have f: "blocks ?s' = blocks s" "\<And>x. data_lba ?s' x = data_lba s x" "\<And>x. block_used ?s' x = (x = j \<or> block_used s x)"
      "i_sectors (inodes ?s' a) = ?S[k := ?L]"
      using cap block(6) by (simp_all add: blocks_def data_lba_def block_used_def set_sector_def upd_inode_def)
    have own': "owns_blocks (inodes ?s' a) ?s'" by (rule owns_more [OF own lay j(2,1,3) assms(2,3) f])
    have "fs_layout ?s'" using lay2 d(3) by (simp add: fs_layout_def Let_def)
    then have ok: "alloc_ok a ?s'" using own' b0 u0 f unfolding alloc_ok_def by simp
    have len: "length ?S = 13" using own by (simp add: owns_blocks_def TOTAL_PTRS_def)
    have "?S[k := ?L] ! x \<noteq> data_lba s y" if "x < 12" "?S ! x = 0" "y < blocks s" "block_used s y" for x y
      using that len data_lba_pos(1) [OF lay that(3)] data_lba_inj [OF lay, of j y] j by (cases "x = k") (auto simp: blocks_def)
    moreover have "?S[k := ?L] ! x = ?S ! x" if "?S ! x \<noteq> 0" for x using that assms(3) by (cases "x = k") auto
    ultimately have gr: "grown a s ?s'" unfolding grown_def e using m block(6)
      by (intro exI [of _ d] exI [of _ b] exI [of _ "?S[k := ?L]"]) (auto simp: block_used_def)
    have "{x. x < blocks s \<and> \<not> block_used s x} = insert j {x. x < blocks ?s' \<and> \<not> block_used ?s' x}" using j unfolding f by auto
    moreover have "j \<notin> {x. x < blocks ?s' \<and> \<not> block_used ?s' x}" unfolding f by simp
    ultimately have fr: "free_blocks s = Suc (free_blocks ?s')" by (simp add: free_blocks_def)
    have idx: "?L - data_start_lba (sb (cur_part s)) = of_nat j" and "j < 2 ^ 32" using layout_data [OF lay block(3)] by simp_all
    moreover have "(of_nat j :: u32) \<noteq> 0" using j(1) \<open>j < 2 ^ 32\<close> of_nat_u32_eq [of j 0] by simp
    ultimately show ?thesis
      using block(1,2) data_lba_pos(1) [OF lay j(2)] gr ok fr d(1) f(4)
      by (intro exI [of _ ?L] exI [of _ "remap (disk s) b s"] exI [of _ ?s']) simp
  qed
qed

lemma alloc_blocks_spec:
  assumes "alloc_ok a s" and "m + n \<le> 12" and "\<forall>k. m \<le> k \<and> k < m + n \<longrightarrow> i_sectors (inodes s a) ! k = 0" and "n \<le> free_blocks s"
    and "length B = 140"
  shows "\<exists>B' s'. alloc_blocks n a m B s = Some (Some B', s') \<and> grown a s s' \<and> alloc_ok a s'
    \<and> (\<forall>k. m \<le> k \<and> k < m + n \<longrightarrow> B' ! k = i_sectors (inodes s' a) ! k \<and> B' ! k \<noteq> 0)
    \<and> (\<forall>k. k < m \<or> m + n \<le> k \<longrightarrow> B' ! k = B ! k \<and> i_sectors (inodes s' a) ! k = i_sectors (inodes s a) ! k)"
  using assms
proof (induction n arbitrary: m B s)
  case 0
  then show ?case using grown_refl [of a s] by auto
next
  case (Suc n)
  have len: "length (i_sectors (inodes s a)) = 13" using Suc.prems(1) by (simp add: alloc_ok_def owns_blocks_def TOTAL_PTRS_def)
  have z: "i_sectors (inodes s a) ! m = 0" "m < 12" "0 < free_blocks s" using Suc.prems(2-4) by auto
  obtain L s1 s2 where st: "block_bitmap_alloc s = Some (L, s1)" "L \<noteq> - 1" "L \<noteq> 0" "inodes s1 = inodes s" "sb (cur_part s1) = sb (cur_part s)"
    "bitmap_sync (L - data_start_lba (sb (cur_part s))) BLOCK_BITMAP (set_sector a m L s1) = Some s2" "grown a s s2" "alloc_ok a s2"
    "i_sectors (inodes s2 a) = (i_sectors (inodes s a))[m := L]" "free_blocks s = Suc (free_blocks s2)"
    using grow_step [OF Suc.prems(1) z(2,1,3)] by blast
  have sbk: "sb (cur_part (set_sector a m L s1)) = sb (cur_part s)" using st(5) by (simp add: set_sector_def upd_inode_def)
  have step: "alloc_blocks (Suc n) a m B s = alloc_blocks n a (m + 1) (B[m := L]) s2"
    using st(1-6) z(1,2) sbk by (simp add: DIRECT_PTRS_def)
  have p: "\<forall>k. m + 1 \<le> k \<and> k < m + 1 + n \<longrightarrow> i_sectors (inodes s2 a) ! k = 0" using Suc.prems(3) unfolding st(9) by auto
  have q: "m + 1 + n \<le> 12" "n \<le> free_blocks s2" "length (B[m := L]) = 140" using Suc.prems(2,4,5) st(10) by auto
  obtain B' s' where r: "alloc_blocks n a (m + 1) (B[m := L]) s2 = Some (Some B', s')" "grown a s2 s'" "alloc_ok a s'"
    "\<forall>k. m + 1 \<le> k \<and> k < m + 1 + n \<longrightarrow> B' ! k = i_sectors (inodes s' a) ! k \<and> B' ! k \<noteq> 0"
    "\<forall>k. k < m + 1 \<or> m + 1 + n \<le> k \<longrightarrow> B' ! k = B[m := L] ! k \<and> i_sectors (inodes s' a) ! k = i_sectors (inodes s2 a) ! k"
    using Suc.IH [OF st(8) q(1) p q(2,3)] by blast
  have "B' ! m = L" "i_sectors (inodes s' a) ! m = L" using r(5) st(9) Suc.prems(5) z(2) len by simp_all
  then have "\<forall>k. m \<le> k \<and> k < m + Suc n \<longrightarrow> B' ! k = i_sectors (inodes s' a) ! k \<and> B' ! k \<noteq> 0"
    using r(4) st(3) by (metis Suc_eq_plus1 add_Suc_right add_Suc Suc_leI le_neq_implies_less)
  moreover have "\<forall>k. k < m \<or> m + Suc n \<le> k \<longrightarrow> B' ! k = B ! k \<and> i_sectors (inodes s' a) ! k = i_sectors (inodes s a) ! k"
    using r(5) unfolding st(9) by auto
  ultimately show ?case using step r(1,3) grown_trans [OF st(7) r(2) Suc.prems(1)] by auto
qed

text \<open>A file of direct blocks: its blocks are set exactly up to the one that holds its end, unless nothing was ever written.\<close>

definition set_upto :: "inode \<Rightarrow> nat \<Rightarrow> bool" where
  "set_upto i m = (\<forall>k<12. (i_sectors i ! k \<noteq> 0) = (k < m))"

lemma collect_direct:
  assumes "alloc_ok a s" and "set_upto (inodes s a) m" and "0 < m" and "m + n \<le> 12" and "n \<le> free_blocks s"
  shows "\<exists>B s'. collect_blocks a m (m + n) s = Some (Some B, s') \<and> grown a s s' \<and> alloc_ok a s' \<and> set_upto (inodes s' a) (m + n)
    \<and> (\<forall>k. m - 1 \<le> k \<and> k < m + n \<longrightarrow> B ! k = i_sectors (inodes s' a) ! k)"
proof (cases "n = 0")
  case True
  let ?B = "(replicate 140 0)[m - 1 := i_sectors (inodes s a) ! (m - 1)]"
  have "?B ! k = i_sectors (inodes s a) ! k" if "m - 1 \<le> k" "k < m" for k
  proof -
    have "k = m - 1" using that by simp
    then show ?thesis using assms(4) by simp
  qed
  then show ?thesis using True assms grown_refl by (intro exI [of _ ?B] exI [of _ s]) (simp add: collect_blocks_def Let_def FLATTEN_PTRS_def)
next
  case False
  let ?S = "i_sectors (inodes s a)"
  define B where "B = (replicate 140 0)[m - 1 := ?S ! (m - 1)]"
  have z: "\<forall>k. m \<le> k \<and> k < m + n \<longrightarrow> ?S ! k = 0"
    using assms(2,4) unfolding set_upto_def by (meson le_trans linorder_not_less not_less_eq_eq order_less_le_trans)
  obtain B' s' where r: "alloc_blocks n a m B s = Some (Some B', s')" "grown a s s'" "alloc_ok a s'"
    "\<forall>k. m \<le> k \<and> k < m + n \<longrightarrow> B' ! k = i_sectors (inodes s' a) ! k \<and> B' ! k \<noteq> 0"
    "\<forall>k. k < m \<or> m + n \<le> k \<longrightarrow> B' ! k = B ! k \<and> i_sectors (inodes s' a) ! k = ?S ! k"
    using alloc_blocks_spec [OF assms(1,4) z assms(5), of B] by (auto simp: B_def)
  have "?S ! (m - 1) \<noteq> 0" using assms(2-4) by (simp add: set_upto_def)
  then have "collect_blocks a m (m + n) s = Some (Some B', s')"
    using False assms(4) r(1) by (simp add: collect_blocks_def Let_def FLATTEN_PTRS_def B_def)
  moreover have "B' ! k = i_sectors (inodes s' a) ! k" if "m - 1 \<le> k" "k < m + n" for k
  proof (cases "k < m")
    case True
    then have "k = m - 1" using that by simp
    then show ?thesis using r(5) True assms(4) by (simp add: B_def)
  qed (use r(4) that in simp)
  moreover have "set_upto (inodes s' a) (m + n)" unfolding set_upto_def
  proof (intro allI impI)
    fix k :: nat assume "k < 12"
    then show "(i_sectors (inodes s' a) ! k \<noteq> 0) = (k < m + n)"
      using r(4,5) assms(2) unfolding set_upto_def by (metis le_less_trans linorder_not_less trans_less_add1)
  qed
  ultimately show ?thesis using r(2,3) by blast
qed

definition block_count :: "inode \<Rightarrow> nat" where
  "block_count i = (if i_sectors i ! 0 = 0 then 0 else unat (i_size i) div 512 + 1)"

definition direct_file :: "inode \<Rightarrow> bool" where
  "direct_file i = (set_upto i (block_count i) \<and> (i_sectors i ! 0 = 0 \<longrightarrow> i_size i = 0) \<and> unat (i_size i) < 12 * 512)"

lemma first_block:
  assumes "alloc_ok a s" and "direct_file (inodes s a)" and "block_count (inodes s a) = 0 \<Longrightarrow> 0 < free_blocks s"
  shows "\<exists>s'. first_block_alloc a s = Some (True, s')
    \<and> grown a s s' \<and> alloc_ok a s' \<and> set_upto (inodes s' a) (unat (i_size (inodes s a)) div 512 + 1)
    \<and> free_blocks s + block_count (inodes s a) = free_blocks s' + unat (i_size (inodes s a)) div 512 + 1"
proof (cases "i_sectors (inodes s a) ! 0 = 0")
  case False
  then show ?thesis using assms grown_refl by (auto simp: direct_file_def block_count_def first_block_alloc_def)
next
  case True
  have len: "length (i_sectors (inodes s a)) = 13" using assms(1) by (simp add: alloc_ok_def owns_blocks_def TOTAL_PTRS_def)
  from True obtain L s1 s2 where st: "block_bitmap_alloc s = Some (L, s1)" "L \<noteq> - 1" "L \<noteq> 0" "L - data_start_lba (sb (cur_part s1)) \<noteq> 0" "sb (cur_part s1) = sb (cur_part s)"
    "bitmap_sync (L - data_start_lba (sb (cur_part s))) BLOCK_BITMAP (set_sector a 0 L s1) = Some s2" "grown a s s2" "alloc_ok a s2"
    "i_sectors (inodes s2 a) = (i_sectors (inodes s a))[0 := L]" "free_blocks s = Suc (free_blocks s2)"
    using grow_step [OF assms(1), of 0] assms(3) by (auto simp: block_count_def)
  have sbk: "sb (cur_part (set_sector a 0 L s1)) = sb (cur_part s)" using st(5) by (simp add: set_sector_def upd_inode_def)
  have sz: "i_size (inodes s a) = 0" "set_upto (inodes s a) 0" using assms(2) True by (simp_all add: direct_file_def block_count_def)
  then have "set_upto (inodes s2 a) 1" using len st(3) unfolding set_upto_def st(9) by (auto simp: nth_list_update)
  then show ?thesis using True st sbk sz by (simp add: block_count_def first_block_alloc_def)
qed

lemma file_bytes_cong:
  assumes "i_size i = i_size i'" and "\<And>k. k * 512 < unat (i_size i) \<Longrightarrow> file_ptr i s k = file_ptr i' s' k \<and> disk s (file_ptr i s k) = disk s' (file_ptr i' s' k)"
  shows "file_bytes i s = file_bytes i' s'"
  unfolding file_bytes_def assms(1) [symmetric]
proof (rule map_cong [OF refl])
  fix j assume "j \<in> set [0..<unat (i_size i)]"
  then have "j div 512 * 512 < unat (i_size i)" using div_times_less_eq_dividend [of j 512] by (simp only: set_upt atLeastLessThan_iff) linarith
  from assms(2) [OF this] show "file_byte i s j = file_byte i' s' j" unfolding file_byte_def by (elim conjE) simp
qed

lemma file_bytes_disk: "disk s = disk s' \<Longrightarrow> file_bytes i s = file_bytes i s'"
  by (rule file_bytes_cong) (simp_all add: file_ptr_def)

lemma direct_ptr:
  assumes "k < 12" shows "file_ptr i s k = i_sectors i ! k"
  using assms by (simp add: file_ptr_def)

lemma owned_sector:
  assumes "alloc_ok a s" and "k < 12" and "i_sectors (inodes s a) ! k \<noteq> 0"
  shows "data_start_lba (sb (cur_part s)) \<le> i_sectors (inodes s a) ! k" and "i_sectors (inodes s a) ! k \<le> max_lba"
proof -
  obtain j where j: "j < blocks s" "i_sectors (inodes s a) ! k = data_lba s j" using assms by (auto simp: alloc_ok_def owns_blocks_def)
  have "fs_layout s" using assms(1) by (simp add: alloc_ok_def)
  then show "data_start_lba (sb (cur_part s)) \<le> i_sectors (inodes s a) ! k" "i_sectors (inodes s a) ! k \<le> max_lba"
    using data_lba_pos(2) [OF _ j(1)] layout_data(2) j by (simp_all add: blocks_def)
qed

lemma owned_distinct:
  assumes "alloc_ok a s" and "set_upto (inodes s a) w" and "k < w" and "l < w" and "w \<le> 12"
  shows "(i_sectors (inodes s a) ! k = i_sectors (inodes s a) ! l) = (k = l)"
proof -
  have "inj_on ((!) (i_sectors (inodes s a))) {k. k < 12 \<and> i_sectors (inodes s a) ! k \<noteq> 0}" using assms(1) by (simp add: alloc_ok_def owns_blocks_def)
  moreover have "{k, l} \<subseteq> {k. k < 12 \<and> i_sectors (inodes s a) ! k \<noteq> 0}" using assms(2-5) by (auto simp: set_upto_def)
  ultimately show ?thesis by (auto dest: inj_onD)
qed

lemma grown_file_bytes:
  assumes "grown a s s'" and "alloc_ok a s" and "direct_file (inodes s a)"
  shows "file_bytes (inodes s' a) s' = file_bytes (inodes s a) s"
proof (rule file_bytes_cong)
  note f = grown_fields [OF assms(1)]
  show "i_size (inodes s' a) = i_size (inodes s a)" by (rule f(6))
  fix k assume k: "k * 512 < unat (i_size (inodes s' a))"
  have d: "set_upto (inodes s a) (block_count (inodes s a))" "i_sectors (inodes s a) ! 0 = 0 \<longrightarrow> i_size (inodes s a) = 0" "unat (i_size (inodes s a)) < 12 * 512"
    using assms(3) by (simp_all add: direct_file_def)
  have k12: "k < 12" using k f(6) d(3) by simp
  have "i_sectors (inodes s a) ! 0 \<noteq> 0" using k f(6) d(2) by auto
  moreover have "k \<le> unat (i_size (inodes s a)) div 512" using k f(6) by (simp add: less_eq_div_iff_mult_less_eq)
  ultimately have nz: "i_sectors (inodes s a) ! k \<noteq> 0" using d(1) k12 by (simp add: set_upto_def block_count_def)
  show "file_ptr (inodes s' a) s' k = file_ptr (inodes s a) s k \<and> disk s' (file_ptr (inodes s' a) s' k) = disk s (file_ptr (inodes s a) s k)"
    unfolding direct_ptr [OF k12] grown_sectors(1) [OF assms(1) k12 nz] using f(8) owned_sector(1) [OF assms(2) k12 nz] by simp
qed

lemma div_less_twelve: "n < 12 * 512 \<Longrightarrow> n div 512 < (12 :: nat)"
  by (simp add: less_mult_imp_div_less)

lemma write_data:
  assumes "alloc_ok a s" and "sz = unat (i_size (inodes s a))" and "set_upto (inodes s a) w" and "(sz + length buf) div 512 < w" and "w \<le> 12"
    and "\<forall>k. sz div 512 \<le> k \<and> k < w \<longrightarrow> B ! k = i_sectors (inodes s a) ! k"
  shows "\<exists>d. write_loop fd a B True buf s = Some (advance fd a (length buf) d s) \<and> (\<forall>lba. length (d lba) = SECTOR_SIZE)
    \<and> (\<forall>lba. lba \<notin> set (take w (i_sectors (inodes s a))) \<longrightarrow> d lba = disk s lba)
    \<and> (\<forall>j < sz + length buf. d (i_sectors (inodes s a) ! (j div 512)) ! (j mod 512) = (file_bytes (inodes s a) s @ buf) ! j)"
proof -
  let ?S = "i_sectors (inodes s a)"
  have len: "length ?S = 13" using assms(1) by (simp add: alloc_ok_def owns_blocks_def TOTAL_PTRS_def)
  have lay: "\<forall>lba. length (disk s lba) = SECTOR_SIZE" using assms(1) by (simp add: alloc_ok_def fs_layout_def Let_def)
  have lt: "sz + length buf < w * 512" using assms(4) by (simp add: div_less_iff_less_mult)
  have sp: "sz div 512 \<le> k \<and> k < w" if "k \<in> spans sz (length buf)" for k
  proof -
    have "k * 512 < w * 512" using that lt unfolding spans_def by (simp only: mem_Collect_eq) linarith
    then show ?thesis using that by (simp add: spans_def)
  qed
  have nz: "?S ! k \<noteq> 0" if "k < w" for k using assms(3,5) that by (simp add: set_upto_def)
  have B: "B ! k = ?S ! k" if "k \<in> spans sz (length buf)" for k using sp [OF that] assms(6) by simp
  have "B ! k \<le> max_lba" if k: "k \<in> spans sz (length buf)" for k
    using sp [OF k] assms(5) nz unfolding B [OF k] by (intro owned_sector(2) [OF assms(1)]) auto
  then have p4: "\<forall>k\<in>spans sz (length buf). B ! k \<le> max_lba" by blast
  have p5: "inj_on ((!) B) (spans sz (length buf))"
    using B sp owned_distinct [OF assms(1,3) _ _ assms(5)] by (auto intro!: inj_onI)
  have p2: "sz + length buf < 2 ^ 32" using lt assms(5) by simp
  obtain d where d: "write_loop fd a B True buf s = Some (advance fd a (length buf) d s)"
    "\<And>lba. lba \<notin> (!) B ` spans sz (length buf) \<Longrightarrow> d lba = disk s lba" "\<forall>lba. length (d lba) = SECTOR_SIZE"
    "\<And>j. sz \<le> j \<and> j < sz + length buf \<Longrightarrow> d (B ! (j div 512)) ! (j mod 512) = buf ! (j - sz)"
    "\<And>j. j < sz mod 512 \<Longrightarrow> d (B ! (sz div 512)) ! j = disk s (B ! (sz div 512)) ! j"
    using write_loop_spec [OF assms(2) p2 _ p4 p5 lay, of True fd] by auto
  have dw: "j div 512 < w" if "j < sz + length buf" for j using that lt by (simp add: div_less_iff_less_mult)
  have "B ! k \<in> set (take w ?S)" if k: "k \<in> spans sz (length buf)" for k
    using sp [OF k] nth_mem [of k "take w ?S"] assms(5) len unfolding B [OF k] by simp
  then have img: "(!) B ` spans sz (length buf) \<subseteq> set (take w ?S)" by blast
  have new: "d (?S ! (j div 512)) ! (j mod 512) = buf ! (j - sz)" if "sz \<le> j" "j < sz + length buf" for j
  proof -
    have "j div 512 \<in> spans sz (length buf)"
      using that div_times_less_eq_dividend [of j 512] div_le_mono [OF that(1), of 512] unfolding spans_def by (simp only: mem_Collect_eq simp_thms)
    then show ?thesis using d(4) [of j] B that by simp
  qed
  have old: "d (?S ! (j div 512)) ! (j mod 512) = file_byte (inodes s a) s j" if "j < sz" for j
  proof (cases "j div 512 = sz div 512")
    case True
    then have "j mod 512 < sz mod 512" using that by (metis div_mult_mod_eq add_less_cancel_left)
    moreover have "B ! (sz div 512) = ?S ! (sz div 512)" using assms(6) dw [of j] that True by simp
    moreover have "j div 512 < 12" using dw [of j] that assms(5) by simp
    ultimately show ?thesis using d(5) True by (simp add: file_byte_def direct_ptr)
  next
    case False
    have lt': "j div 512 < w" using dw [of j] that by simp
    have "?S ! (j div 512) \<noteq> B ! k" if k: "k \<in> spans sz (length buf)" for k
      using owned_distinct [OF assms(1,3) lt' _ assms(5), of k] sp [OF k] B [OF k] False div_le_mono [of j sz 512] \<open>j < sz\<close> by auto
    then have "d (?S ! (j div 512)) = disk s (?S ! (j div 512))" using d(2) by (metis imageE)
    then show ?thesis using lt' assms(5) by (simp add: file_byte_def direct_ptr)
  qed
  have lenf: "length (file_bytes (inodes s a) s) = sz" by (simp add: file_bytes_def assms(2))
  have all: "d (?S ! (j div 512)) ! (j mod 512) = (file_bytes (inodes s a) s @ buf) ! j" if "j < sz + length buf" for j
    using old new that lenf by (cases "j < sz") (simp_all add: nth_append, simp add: file_bytes_def assms(2))
  have oth: "\<forall>lba. lba \<notin> set (take w ?S) \<longrightarrow> d lba = disk s lba" using d(2) img by blast
  show ?thesis by (intro exI [of _ d] conjI d(1) d(3) oth allI impI all)
qed

text \<open>What the file system and the heap provide for one call.\<close>

definition write_ready :: "u32 \<Rightarrow> nat \<Rightarrow> 'a fstate_scheme \<Rightarrow> bool" where
  "write_ready fd n s = (let a = fd_inode (file_table s ! unat fd); i = inodes s a in
     alloc_ok a s \<and> direct_file i \<and> unat (i_no i) < 256 \<and> \<not> crosses (i_no i)
     \<and> unat (i_size i) + n < 12 * 512 \<and> (unat (i_size i) + n) div 512 + 1 \<le> free_blocks s + block_count i
     \<and> unat fd < length (file_table s))"

lemma owns_size: "owns_blocks i s \<Longrightarrow> i_sectors i' = i_sectors i \<Longrightarrow> blocks s' = blocks s
   \<Longrightarrow> (\<And>j. data_lba s' j = data_lba s j) \<Longrightarrow> (\<And>j. block_used s' j = block_used s j) \<Longrightarrow> owns_blocks i' s'"
  by (simp add: owns_blocks_def)

lemma heap_irrelevant [simp]:
  "alloc_ok a (s\<lparr>heap_next := h\<rparr>) = alloc_ok a s" "free_blocks (s\<lparr>heap_next := h\<rparr>) = free_blocks s"
  "file_bytes i (s\<lparr>heap_next := h\<rparr>) = file_bytes i s" "data_lba (s\<lparr>heap_next := h\<rparr>) = data_lba s"
  "block_used (s\<lparr>heap_next := h\<rparr>) = block_used s" "blocks (s\<lparr>heap_next := h\<rparr>) = blocks s"
  by (simp_all add: alloc_ok_def free_blocks_def fs_layout_def Let_def owns_blocks_def blocks_def block_used_def data_lba_def
      file_bytes_def file_byte_def file_ptr_def fun_eq_iff)

lemma sync_data:
  assumes "alloc_ok a s" and "unat (i_no (inodes s a)) < 256" and "\<not> crosses (i_no (inodes s a))"
  shows "\<exists>d. inode_sync (inodes s a) SECTOR_SIZE s = Some (s\<lparr>disk := d\<rparr>) \<and> stored_inode (i_no (inodes s a)) (s\<lparr>disk := d\<rparr>) = clean_inode (inodes s a)
    \<and> (\<forall>lba. data_start_lba (sb (cur_part s)) \<le> lba \<longrightarrow> d lba = disk s lba) \<and> (\<forall>lba. length (d lba) = SECTOR_SIZE)"
proof -
  let ?i = "inodes s a" and ?n = "i_no (inodes s a)"
  have lay: "fs_layout s" and len: "length (i_sectors ?i) = TOTAL_PTRS" using assms(1) by (simp_all add: alloc_ok_def owns_blocks_def)
  have n: "?n < MAX_FILES_PER_PART" using assms(2) by (simp add: MAX_FILES_PER_PART_def word_less_nat_alt)
  note li = layout_inode [OF lay n]
  let ?L = "inode_sec ?n s" and ?e = "encode_inode (clean_inode ?i)"
  have fit: "inode_off ?n + length ?e \<le> length (disk s ?L)"
    using assms(3) li(2) len length_encode_inode [of "clean_inode ?i"] by (simp add: crosses_def inode_ready_def clean_inode_def)
  have w: "take SECTOR_SIZE (put (inode_off ?n) ?e (disk s ?L)) = put (inode_off ?n) ?e (disk s ?L)"
    using length_put [OF fit] li(2) by (simp add: inode_ready_def)
  let ?d = "(disk s)(?L := put (inode_off ?n) ?e (disk s ?L))"
  have "decode_inode (put (inode_off ?n) ?e (disk s ?L)) (inode_off ?n) = clean_inode ?i"
    using fit len length_encode_inode [of "clean_inode ?i"] by (intro encode_sync_inode) (simp_all add: clean_inode_def)
  then have "stored_inode ?n (s\<lparr>disk := ?d\<rparr>) = clean_inode ?i" by (simp add: stored_inode_def)
  moreover have "inode_sync ?i SECTOR_SIZE s = Some (s\<lparr>disk := ?d\<rparr>)" using inode_sync_whole [OF assms(2) li(2) assms(3) order_refl] unfolding w .
  moreover have "\<forall>lba. data_start_lba (sb (cur_part s)) \<le> lba \<longrightarrow> ?d lba = disk s lba" using li(1) by auto
  moreover have "\<forall>lba. length (?d lba) = SECTOR_SIZE" using lay length_put [OF fit] by (simp add: fs_layout_def Let_def)
  ultimately show ?thesis by blast
qed

lemma alloc_ok_advance:
  assumes "alloc_ok a s" and "\<forall>lba. length (d lba) = SECTOR_SIZE"
  shows "alloc_ok a (advance fd a n d s)"
proof -
  have "owns_blocks (inodes (advance fd a n d s) a) (advance fd a n d s)"
    by (rule owns_size [of "inodes s a" s]) (use assms in \<open>auto simp: alloc_ok_def blocks_def data_lba_def block_used_def\<close>)
  then show ?thesis using assms by (simp add: alloc_ok_def fs_layout_def Let_def blocks_def block_used_def)
qed

lemma alloc_phase:
  assumes "alloc_ok a s" and "direct_file (inodes s a)" and "sz = unat (i_size (inodes s a))" and "sz + n < 12 * 512"
    and "w = (sz + n) div 512 + 1" and "w \<le> free_blocks s + block_count (inodes s a)"
  shows "\<exists>s1 B s2. first_block_alloc a s = Some (True, s1)
    \<and> i_size (inodes s1 a) = i_size (inodes s a) \<and> collect_blocks a (sz div 512 + 1) w s1 = Some (Some B, s2)
    \<and> grown a s s2 \<and> alloc_ok a s2 \<and> set_upto (inodes s2 a) w \<and> w \<le> 12
    \<and> (\<forall>k. sz div 512 \<le> k \<and> k < w \<longrightarrow> B ! k = i_sectors (inodes s2 a) ! k)"
proof -
  obtain s1 where s1: "first_block_alloc a s = Some (True, s1)" "grown a s s1" "alloc_ok a s1"
    "set_upto (inodes s1 a) (sz div 512 + 1)" "free_blocks s + block_count (inodes s a) = free_blocks s1 + sz div 512 + 1"
    using first_block [OF assms(1,2)] assms(3,5,6) by auto
  define m where "m = sz div 512 + 1"
  have w: "w \<le> 12" "m \<le> w" "w - m \<le> free_blocks s1" "0 < m"
    using div_less_twelve [OF assms(4)] div_le_mono [of sz "sz + n" 512] s1(5) assms(5,6) unfolding m_def by linarith+
  obtain B s2 where s2: "collect_blocks a m w s1 = Some (Some B, s2)" "grown a s1 s2" "alloc_ok a s2" "set_upto (inodes s2 a) w"
    "\<forall>k. m - 1 \<le> k \<and> k < w \<longrightarrow> B ! k = i_sectors (inodes s2 a) ! k"
    using collect_direct [OF s1(3) s1(4) [folded m_def] w(4) _ w(3)] w(1,2) by auto
  have gr: "grown a s s2" by (rule grown_trans [OF s1(2) s2(2) assms(1)])
  show ?thesis
    by (rule exI [of _ s1], rule exI [of _ B], rule exI [of _ s2], intro conjI s1(1) grown_fields(6) [OF s1(2)] gr w(1) s2(3,4))
      (use s2(1,5) in \<open>simp_all add: m_def\<close>)
qed

text \<open>Descriptors and open files are as before, but for the positions.\<close>

definition slots_kept :: "'a fstate_scheme \<Rightarrow> 'a fstate_scheme \<Rightarrow> bool" where
  "slots_kept s s' = (fds s' = fds s \<and> length (file_table s') = length (file_table s) \<and> (\<forall>k<length (file_table s).
     fd_inode (file_table s' ! k) = fd_inode (file_table s ! k) \<and> fd_flag (file_table s' ! k) = fd_flag (file_table s ! k)))"

lemma slots_kept_trans: "slots_kept s s' \<Longrightarrow> slots_kept s' s'' \<Longrightarrow> slots_kept s s''"
  by (simp add: slots_kept_def)

lemma slots_kept_pos:
  "fds s' = fds s \<Longrightarrow> file_table s' = (file_table s)[k := (file_table s ! k)\<lparr>fd_pos := p\<rparr>] \<Longrightarrow> slots_kept s s'"
  by (cases "k < length (file_table s)") (auto simp: slots_kept_def nth_list_update list_update_beyond)

lemma store_phase:
  assumes "alloc_ok a s" and "sz = unat (i_size (inodes s a))" and "set_upto (inodes s a) w" and "w = (sz + length buf) div 512 + 1"
    and "w \<le> 12" and "\<forall>k. sz div 512 \<le> k \<and> k < w \<longrightarrow> B ! k = i_sectors (inodes s a) ! k" and "sz + length buf < 12 * 512"
    and "unat (i_no (inodes s a)) < 256" and "\<not> crosses (i_no (inodes s a))"
  shows "\<exists>s1 s'. write_loop fd a B True buf s = Some s1 \<and> inode_sync (inodes s1 a) SECTOR_SIZE s1 = Some s'
    \<and> file_bytes (inodes s' a) s' = file_bytes (inodes s a) s @ buf \<and> alloc_ok a s' \<and> direct_file (inodes s' a)
    \<and> stored_inode (i_no (inodes s a)) s' = clean_inode (inodes s' a) \<and> cur_part s' = cur_part s
    \<and> (\<forall>lba. data_start_lba (sb (cur_part s)) \<le> lba \<and> lba \<notin> set (take w (i_sectors (inodes s a))) \<longrightarrow> disk s' lba = disk s lba)
    \<and> slots_kept s s' \<and> heap_next s' = heap_next s"
proof -
  let ?i = "inodes s a" and ?n = "length buf" and ?S = "i_sectors (inodes s a)"
  have p4: "(sz + ?n) div 512 < w" using assms(4) by simp
  obtain d where d: "write_loop fd a B True buf s = Some (advance fd a ?n d s)" "\<forall>lba. length (d lba) = SECTOR_SIZE"
    "\<And>lba. lba \<notin> set (take w ?S) \<Longrightarrow> d lba = disk s lba"
    "\<And>j. j < sz + ?n \<Longrightarrow> d (?S ! (j div 512)) ! (j mod 512) = (file_bytes ?i s @ buf) ! j"
    using write_data [OF assms(1-3) p4 assms(5,6), of fd] by blast
  define s1 where "s1 = advance fd a ?n d s"
  have ok1: "alloc_ok a s1" unfolding s1_def by (rule alloc_ok_advance [OF assms(1) d(2)])
  have s1: "inodes s1 a = ?i\<lparr>i_size := i_size ?i + of_nat ?n\<rparr>" "disk s1 = d" "cur_part s1 = cur_part s" by (simp_all add: s1_def)
  obtain d' where d': "inode_sync (inodes s1 a) SECTOR_SIZE s1 = Some (s1\<lparr>disk := d'\<rparr>)"
    "stored_inode (i_no (inodes s1 a)) (s1\<lparr>disk := d'\<rparr>) = clean_inode (inodes s1 a)"
    "\<And>lba. data_start_lba (sb (cur_part s)) \<le> lba \<Longrightarrow> d' lba = d lba" "\<forall>lba. length (d' lba) = SECTOR_SIZE"
    using sync_data [OF ok1] assms(8,9) by (auto simp: s1)
  let ?s' = "s1\<lparr>disk := d'\<rparr>"
  have usz: "unat (i_size ?i + of_nat ?n) = sz + ?n" using assms(2,7) unat_plus_nat [of "i_size ?i" ?n] by simp
  have ow: "data_start_lba (sb (cur_part s)) \<le> ?S ! k" if "k < w" for k
    using owned_sector(1) [OF assms(1), of k] that assms(3,5) by (simp add: set_upto_def)
  have fb: "file_bytes (inodes ?s' a) ?s' = file_bytes ?i s @ buf"
  proof (rule nth_equalityI)
    show "length (file_bytes (inodes ?s' a) ?s') = length (file_bytes ?i s @ buf)" by (simp add: file_bytes_def s1 usz assms(2))
    fix j assume "j < length (file_bytes (inodes ?s' a) ?s')"
    then have j: "j < sz + ?n" by (simp add: file_bytes_def s1 usz)
    then have k: "j div 512 < w" "j div 512 < 12" using div_le_mono [of j "sz + ?n" 512] assms(4,5) by simp_all
    have "file_bytes (inodes ?s' a) ?s' ! j = d' (?S ! (j div 512)) ! (j mod 512)"
      using j k(2) by (simp add: file_bytes_def file_byte_def file_ptr_def s1 usz)
    then show "file_bytes (inodes ?s' a) ?s' ! j = (file_bytes ?i s @ buf) ! j" using d(4) [OF j] d'(3) [OF ow [OF k(1)]] by simp
  qed
  have ok': "alloc_ok a ?s'" using ok1 d'(4) by (simp add: alloc_ok_def fs_layout_def Let_def owns_blocks_def blocks_def block_used_def data_lba_def)
  have "?S ! 0 \<noteq> 0" using assms(3,4) by (simp add: set_upto_def)
  then have bc: "block_count (inodes ?s' a) = w" and nz: "i_sectors (inodes ?s' a) ! 0 \<noteq> 0" using usz by (simp_all add: block_count_def s1 assms(4))
  have "set_upto (inodes ?s' a) w" using assms(3) by (simp add: set_upto_def s1)
  then have df: "direct_file (inodes ?s' a)" unfolding direct_file_def bc using nz assms(7) usz by (simp add: s1)
  have fr: "\<forall>lba. data_start_lba (sb (cur_part s)) \<le> lba \<and> lba \<notin> set (take w ?S) \<longrightarrow> disk ?s' lba = disk s lba" using d'(3) d(3) by simp
  have sl: "slots_kept s ?s'" by (rule slots_kept_pos) (simp_all add: s1_def)
  show ?thesis by (rule exI [of _ s1], rule exI [of _ ?s'], intro conjI d'(1) fb ok' df fr sl) (use d(1) d'(2) s1 in \<open>simp_all add: s1_def\<close>)
qed

lemma grown_keeps_out:
  assumes "grown a s s'" and "alloc_ok a s" and "w \<le> 12" and "j < blocks s" and "block_used s j"
    and "data_lba s j \<notin> set (take 12 (i_sectors (inodes s a)))"
  shows "data_lba s j \<notin> set (take w (i_sectors (inodes s' a)))"
proof -
  let ?S = "i_sectors (inodes s a)"
  have "i_sectors (inodes s' a) ! k \<noteq> data_lba s j" if k: "k < w" for k
  proof (cases "?S ! k = 0")
    case True
    then show ?thesis using grown_sectors(2) [OF assms(1), of k j] k assms(3-5) by simp
  next
    case False
    have "?S ! k \<in> set (take 12 ?S)"
      using nth_mem [of k "take 12 ?S"] k assms(2,3) by (simp add: alloc_ok_def owns_blocks_def TOTAL_PTRS_def)
    then show ?thesis using grown_sectors(1) [OF assms(1), of k] False k assms(3,6) by auto
  qed
  then show ?thesis by (auto simp: in_set_conv_nth)
qed

lemma file_write_spec:
  assumes "write_ready fd (length buf) s" and "a = fd_inode (file_table s ! unat fd)"
    and "heap_next s = p # q # rest" and "p \<noteq> NULL" and "q \<noteq> NULL"
  shows "\<exists>s'. file_write fd buf s = Some (of_nat (length buf), s')
    \<and> file_bytes (inodes s' a) s' = file_bytes (inodes s a) s @ buf
    \<and> alloc_ok a s' \<and> direct_file (inodes s' a)
    \<and> stored_inode (i_no (inodes s a)) s' = clean_inode (inodes s' a)
    \<and> (\<forall>j<blocks s. block_used s j \<and> data_lba s j \<notin> set (take 12 (i_sectors (inodes s a)))
         \<longrightarrow> block_used s' j \<and> disk s' (data_lba s j) = disk s (data_lba s j))
    \<and> slots_kept s s' \<and> heap_next s' = rest"
proof -
  let ?i = "inodes s a" and ?n = "length buf"
  define sz where "sz = unat (i_size ?i)"
  define s0 where "s0 = s\<lparr>heap_next := rest\<rparr>"
  define w where "w = (sz + ?n) div 512 + 1"
  have ok: "alloc_ok a s0" "direct_file (inodes s0 a)" "unat (i_no ?i) < 256" "\<not> crosses (i_no ?i)" "sz + ?n < 12 * 512"
    "w \<le> free_blocks s0 + block_count (inodes s0 a)" "inodes s0 = inodes s" "sz = unat (i_size (inodes s0 a))"
    using assms(1) unfolding write_ready_def Let_def assms(2) [symmetric] sz_def w_def by (simp_all add: s0_def)
  obtain s1 B s2 where al: "first_block_alloc a s0 = Some (True, s1)"
    "i_size (inodes s1 a) = i_size ?i" "collect_blocks a (sz div 512 + 1) w s1 = Some (Some B, s2)"
    and gr: "grown a s0 s2" and s2: "alloc_ok a s2" "set_upto (inodes s2 a) w" "w \<le> 12"
    "\<forall>k. sz div 512 \<le> k \<and> k < w \<longrightarrow> B ! k = i_sectors (inodes s2 a) ! k"
    using alloc_phase [OF ok(1,2,8,5) w_def ok(6)] unfolding ok(7) by blast
  note f = grown_fields [OF gr, unfolded ok(7)]
  define s3 where "s3 = upd_slot fd (fd_pos_update (\<lambda>_. i_size (inodes s2 a) - 1)) s2"
  have s3: "inodes s3 = inodes s2" "disk s3 = disk s2" "cur_part s3 = cur_part s2" by (simp_all add: s3_def)
  have ok3: "alloc_ok a s3" using s2(1) s3 by (simp add: alloc_ok_def fs_layout_def Let_def blocks_def block_used_def owns_blocks_def data_lba_def)
  obtain s4 s' where st: "write_loop fd a B True buf s3 = Some s4" "inode_sync (inodes s4 a) SECTOR_SIZE s4 = Some s'"
    "file_bytes (inodes s' a) s' = file_bytes (inodes s2 a) s3 @ buf" "alloc_ok a s'" "direct_file (inodes s' a)"
    "stored_inode (i_no ?i) s' = clean_inode (inodes s' a)" "cur_part s' = cur_part s2"
    "\<And>lba. data_start_lba (sb (cur_part s2)) \<le> lba \<Longrightarrow> lba \<notin> set (take w (i_sectors (inodes s2 a))) \<Longrightarrow> disk s' lba = disk s2 lba"
    "slots_kept s3 s'" "heap_next s' = rest"
    using store_phase [OF ok3, of sz w buf B fd] s2(2-4) ok(3-5) f(1,6,7) w_def sz_def unfolding s3 by (auto simp: s3_def s0_def)
  have fb: "file_bytes (inodes s2 a) s3 = file_bytes ?i s"
    using grown_file_bytes [OF gr ok(1,2)] ok(7) file_bytes_disk [OF s3(2)] by (simp add: s0_def)
  have usz: "unat (i_size ?i + of_nat ?n) = sz + ?n" using ok(5) unat_plus_nat [of "i_size ?i" ?n] by (simp add: sz_def)
  have lim: "\<not> of_nat (512 * FLATTEN_PTRS) < i_size ?i + of_nat ?n" using ok(5) usz by (simp add: word_less_nat_alt FLATTEN_PTRS_def)
  have mw: "unat (i_size ?i div BLOCK_SIZE + 1) = sz div 512 + 1" "unat ((i_size ?i + of_nat ?n) div BLOCK_SIZE + 1) = w"
    using div_less_twelve [OF ok(5)] div_less_twelve [of sz] ok(5) usz by (simp_all add: w_def sz_def BLOCK_SIZE_def unat_word_ariths unat_div)
  have run: "file_write fd buf s = Some (of_nat ?n, s')"
    unfolding file_write_def Let_def assms(2) [symmetric]
    using lim assms(3-5) al st(1,2) s2(3) mw by (simp add: kmalloc_def s0_def [symmetric] s3_def [symmetric])
  have "block_used s' j \<and> disk s' (data_lba s j) = disk s (data_lba s j)"
    if j: "j < blocks s" "block_used s j" "data_lba s j \<notin> set (take 12 (i_sectors ?i))" for j
  proof -
    have "data_lba s j \<notin> set (take w (i_sectors (inodes s2 a)))"
      using grown_keeps_out [OF gr ok(1) s2(3), of j] j ok(7) by (simp add: s0_def)
    moreover have "data_start_lba (sb (cur_part s2)) \<le> data_lba s j"
      using ok(1) j(1) data_lba_pos(2) [of s0 j] f(3) by (simp add: alloc_ok_def s0_def)
    ultimately show ?thesis using st(7,8) f(3,8,9) j(2) by (simp add: s0_def block_used_def)
  qed
  moreover have "slots_kept s s'"
  proof (rule slots_kept_trans [OF _ st(9)])
    show "slots_kept s s3" using f(2,11) by (intro slots_kept_pos) (simp_all add: s3_def s0_def upd_slot_def set_slot_def)
  qed
  ultimately show ?thesis using run st(3-6,10) fb by (intro exI [of _ s']) simp
qed

text \<open>
  C5: \<^verbatim>\<open>file_write\<close> appends. For a file within its twelve direct blocks, with enough free blocks, the call
  returns the number of bytes, the contents of the file become the old contents followed by the buffer,
  the file keeps distinct used blocks and matches its size, the inode on disk agrees with the one in
  memory, and no block that was used by anything else changes its contents or becomes free.
\<close>

theorem file_write_appends:
  assumes "write_ready fd (length buf) s" and "a = fd_inode (file_table s ! unat fd)"
    and "heap_next s = p # q # rest" and "p \<noteq> NULL" and "q \<noteq> NULL"
  shows "\<exists>s'. file_write fd buf s = Some (of_nat (length buf), s')
    \<and> file_bytes (inodes s' a) s' = file_bytes (inodes s a) s @ buf
    \<and> alloc_ok a s' \<and> direct_file (inodes s' a)
    \<and> stored_inode (i_no (inodes s a)) s' = clean_inode (inodes s' a)
    \<and> (\<forall>j<blocks s. block_used s j \<and> data_lba s j \<notin> set (take 12 (i_sectors (inodes s a)))
         \<longrightarrow> block_used s' j \<and> disk s' (data_lba s j) = disk s (data_lba s j))"
  using file_write_spec [OF assms] by blast

lemma demo_open_ready: "write_ready 0 3 demo_open"
proof -
  have al: "alloc_ok 0x9000 demo_open"
    using demo_fs_layout by (auto simp add: alloc_ok_def demo_open_def fs_layout_def Let_def blocks_def block_used_def owns_blocks_def
        demo_fs_def demo_part_def demo_inode_def bm_cap_def bm_used_def TOTAL_PTRS_def inj_on_def)
  have "5 \<in> {j. j < blocks demo_open \<and> \<not> block_used demo_open j}"
    by (simp add: demo_open_def blocks_def block_used_def demo_fs_def demo_part_def bm_cap_def bm_used_def)
  then have "0 < free_blocks demo_open" unfolding free_blocks_def by (subst card_gt_0_iff) auto
  moreover have "fd_inode (file_table demo_open ! unat 0) = 0x9000" "length (file_table demo_open) = 32" by (simp_all add: demo_open_def)
  moreover have i: "inodes demo_open 0x9000 = demo_inode" by (simp add: demo_open_def demo_fs_def)
  ultimately show ?thesis using al
    by (simp add: write_ready_def Let_def direct_file_def block_count_def set_upto_def demo_inode_def crosses_def inode_off_def inode_bytes_def SECTOR_SIZE_def)
qed

theorem file_write_appends_witness:
  "\<exists>s'. file_write 0 [7, 8, 9] demo_open = Some (3, s') \<and> file_bytes (inodes s' 0x9000) s' = [7, 8, 9]"
proof -
  have "fd_inode (file_table demo_open ! unat 0) = 0x9000" "heap_next demo_open = 0x1000 # 0x2000 # [0x3000, 0x4000]"
    "file_bytes (inodes demo_open 0x9000) demo_open = []"
    by (simp_all add: demo_open_def demo_fs_def file_bytes_def demo_inode_def)
  then show ?thesis
    using file_write_appends [of 0 "[7, 8, 9]" demo_open "0x9000" "0x1000" "0x2000" "[0x3000, 0x4000]"] demo_open_ready by (auto simp: numeral_3_eq_3)
qed

end
