(* ===== verification/Fs.thy ===== *)
theory Fs
  imports File Ioqueue
begin

unbundle bit_operations_syntax

text \<open>
  The system calls of the file system, \<^verbatim>\<open>fs/fs.c\<close>, with the pipes of \<^verbatim>\<open>shell/pipe.c\<close> they share descriptors
  with. Paths and names are lists of bytes without terminator.

  The state adds the queues behind pipes and keyboard and the text written to the console.
  \<open>junk_ino\<close> and \<open>junk_char\<close> stand for what the code reads from two local variables it has not
  initialised: the inode number of \<^verbatim>\<open>dir_e\<close> in \<^verbatim>\<open>search_file\<close> and the first character of \<^verbatim>\<open>name\<close> in
  \<^verbatim>\<open>path_depth_cnt\<close>. A name longer than its 16-byte buffer is \<open>None\<close>: the code writes past the array.
\<close>

section \<open>The state\<close>

record sysstate = fstate +
  pipes :: "addr \<Rightarrow> ioqueue"
  kbd_queue :: ioqueue
  console_out :: "u8 list"
  junk_ino :: u32
  junk_char :: u8

definition slash :: u8 where "slash = 0x2f"

section \<open>Paths\<close>

text \<open>The first name of a path, and the rest of the path, \<open>None\<close> when the path ends there.\<close>

definition path_parse :: "u8 list \<Rightarrow> u8 list \<times> u8 list option" where
  "path_parse pathname =
     (let p = dropWhile (\<lambda>c. c = slash) pathname;
          rest = dropWhile (\<lambda>c. c \<noteq> slash) p
      in (takeWhile (\<lambda>c. c \<noteq> slash) p, if rest = [] then None else Some rest))"

lemma dropWhile_neq_less: "xs \<noteq> [] \<Longrightarrow> P (hd xs) \<Longrightarrow> length (dropWhile P xs) < length xs"
  using length_dropWhile_le [of P "tl xs"] by (cases xs) (auto simp: less_Suc_eq_le)

lemma path_parse_shrinks:
  assumes "path_parse p = (n, Some r)"
  shows "length r < length p"
proof -
  let ?d = "dropWhile (\<lambda>c. c = slash) p"
  have r: "r = dropWhile (\<lambda>c. c \<noteq> slash) ?d" "r \<noteq> []"
    using arg_cong [OF assms, of snd] unfolding path_parse_def Let_def snd_conv
    by (metis option.distinct(1) option.inject)+
  then have ne: "?d \<noteq> []" by (metis dropWhile.simps(1))
  then have "hd ?d \<noteq> slash" using hd_dropWhile by blast
  then have "length r < length ?d" unfolding r(1) by (rule dropWhile_neq_less [OF ne])
  also have "\<dots> \<le> length p" by (rule length_dropWhile_le)
  finally show ?thesis .
qed

definition parse_next :: "u8 list option \<Rightarrow> u8 list \<times> u8 list option" where
  "parse_next p = (case p of None \<Rightarrow> ([], None) | Some q \<Rightarrow> path_parse q)"

definition path_size :: "u8 list option \<Rightarrow> nat" where
  "path_size p = (case p of None \<Rightarrow> 0 | Some q \<Rightarrow> Suc (length q))"

lemma parse_next_shrinks:
  assumes "parse_next p = (n, r)" and "name \<noteq> []"
  shows "path_size r + (if n = [] then 0 else 1) < path_size p + (if name = [] then 0 else 1)"
proof (cases p)
  case None
  then show ?thesis using assms by (simp add: parse_next_def path_size_def)
next
  case (Some q)
  then show ?thesis
    using assms path_parse_shrinks [of q n] by (cases r) (auto simp: parse_next_def path_size_def)
qed

function depth_loop :: "u8 list \<Rightarrow> u8 list option \<Rightarrow> u32 option" where
  "depth_loop name p =
     (if name = [] then Some 0
      else do {
        ASSERT (length name \<le> MAX_FILE_NAME_LEN);
        d \<leftarrow> depth_loop (fst (parse_next p)) (snd (parse_next p));
        Some (d + 1)
      })"
  by pat_completeness auto
termination
proof (relation "measure (\<lambda>(name, p). path_size p + (if name = [] then 0 else 1))")
  fix name :: "u8 list" and p :: "u8 list option"
  assume "name \<noteq> []"
  from parse_next_shrinks [OF prod.collapse [symmetric] this, of p]
  show "((fst (parse_next p), snd (parse_next p)), name, p) \<in> measure (\<lambda>(name, p). path_size p + (if name = [] then 0 else 1))"
    by (simp only: in_measure split_conv)
qed simp

declare depth_loop.simps [simp del]

definition path_depth_cnt :: "u8 \<Rightarrow> u8 list \<Rightarrow> u32 option" where
  "path_depth_cnt junk pathname =
     (let (name, p) = path_parse pathname
      in depth_loop (if name = [] \<and> junk \<noteq> 0 then [junk] else name) p)"

record path_search_record =
  searched_path :: "u8 list"
  parent_dir :: addr
  file_type :: u32

text \<open>The name buffer holds 16 bytes including the terminator it needs as a string.\<close>

function search_loop :: "u8 list \<Rightarrow> u8 list option \<Rightarrow> u32 \<Rightarrow> u32 \<Rightarrow> path_search_record \<Rightarrow> 'a sysstate_scheme
    \<Rightarrow> (u32 \<times> path_search_record \<times> 'a sysstate_scheme) option" where
  "search_loop name sub_path dir_e_ino parent_inode_no rec s =
     (if name = [] then do {
        let s = dir_close (parent_dir rec) s;
        (d, s) \<leftarrow> dir_open parent_inode_no s;
        Some (dir_e_ino, rec\<lparr>parent_dir := d, file_type := FT_DIRECTORY\<rparr>, s)
      } else do {
        ASSERT (length name < MAX_FILE_NAME_LEN);
        ASSERT (length (searched_path rec) < MAX_PATH_LEN);
        let rec = rec\<lparr>searched_path := searched_path rec @ slash # name\<rparr>;
        (r, s) \<leftarrow> search_dir_entry (parent_dir rec) name s;
        case r of
          None \<Rightarrow> Some (- 1, rec, s)
        | Some dir_e \<Rightarrow> do {
            let (name', sub') = parse_next sub_path;
            ASSERT (length name' \<le> MAX_FILE_NAME_LEN);
            if f_type dir_e = FT_DIRECTORY then do {
              let parent_inode_no = i_no (inodes s (dir_inode (dirs s (parent_dir rec))));
              let s = dir_close (parent_dir rec) s;
              (d, s) \<leftarrow> dir_open (de_i_no dir_e) s;
              search_loop name' sub' (de_i_no dir_e) parent_inode_no (rec\<lparr>parent_dir := d\<rparr>) s
            }
            else if f_type dir_e = FT_REGULAR then Some (de_i_no dir_e, rec\<lparr>file_type := FT_REGULAR\<rparr>, s)
            else search_loop name' sub' (de_i_no dir_e) parent_inode_no rec s
          }
      })"
  by pat_completeness auto
termination
  by (relation "measure (\<lambda>(name, p, _). path_size p + (if name = [] then 0 else 1))")
    (auto dest: parse_next_shrinks [OF sym])

declare search_loop.simps [simp del]

definition search_file :: "u8 list \<Rightarrow> 'a sysstate_scheme \<Rightarrow> (u32 \<times> path_search_record \<times> 'a sysstate_scheme) option" where
  "search_file pathname s =
     (if pathname \<in> {[slash], slash # dot, slash # dotdot}
      then Some (0, \<lparr>searched_path = [], parent_dir = root_dir s, file_type = FT_DIRECTORY\<rparr>, s)
      else do {
        ASSERT (hd pathname = slash \<and> 1 < length pathname \<and> length pathname < MAX_PATH_LEN);
        let (name, sub_path) = path_parse pathname;
        search_loop name sub_path (junk_ino s) 0 \<lparr>searched_path = [], parent_dir = root_dir s, file_type = FT_UNKNOWN\<rparr> s
      })"

text \<open>What follows the last slash: \<^verbatim>\<open>strrchr(path, '/') + 1\<close>.\<close>

definition after_last_slash :: "u8 list \<Rightarrow> u8 list" where
  "after_last_slash p = rev (takeWhile (\<lambda>c. c \<noteq> slash) (rev p))"

section \<open>Descriptors and pipes\<close>

definition fd_local2global :: "u32 \<Rightarrow> 'a fstate_scheme \<Rightarrow> u32 option" where
  "fd_local2global local_fd s = do {
     ASSERT (unat local_fd < length (fds s));
     let global_fd = fds s ! unat local_fd;
     ASSERT (0 \<le> sint global_fd \<and> sint global_fd < int MAX_FILE_OPEN);
     Some global_fd
   }"

definition PIPE_FLAG :: u32 where "PIPE_FLAG = 0xffff"

definition is_pipe :: "u32 \<Rightarrow> 'a fstate_scheme \<Rightarrow> bool option" where
  "is_pipe local_fd s = do {
     global_fd \<leftarrow> fd_local2global local_fd s;
     Some (fd_flag (file_table s ! unat global_fd) = PIPE_FLAG)
   }"

text \<open>The page for the queue comes from \<^verbatim>\<open>get_kernel_pages\<close>; without a free slot the code writes before the table.\<close>

definition sys_pipe :: "'a sysstate_scheme \<Rightarrow> (u32 \<times> u32 \<times> u32 \<times> 'a sysstate_scheme) option" where
  "sys_pipe s = do {
     let global_fd = get_free_slot_in_global s;
     ASSERT (global_fd \<noteq> - 1);
     let (page, s) = kmalloc s;
     let s = upd_slot global_fd (fd_inode_update (\<lambda>_. page)) s;
     ASSERT (page \<noteq> NULL);
     let s = s\<lparr>pipes := (pipes s)(page := ioqueue_init (pipes s page))\<rparr>;
     let s = upd_slot global_fd (\<lambda>f. f\<lparr>fd_flag := PIPE_FLAG, fd_pos := 2\<rparr>) s;
     let (fd0, s) = pcb_fd_install global_fd s;
     let (fd1, s) = pcb_fd_install global_fd s;
     Some (0, fd0, fd1, s)
   }"

primrec get_chars :: "nat \<Rightarrow> ioqueue \<Rightarrow> (u8 list \<times> ioqueue) option" where
  "get_chars 0 q = Some ([], q)"
| "get_chars (Suc n) q = do { (x, q, _) \<leftarrow> ioq_getchar q; (xs, q) \<leftarrow> get_chars n q; Some (x # xs, q) }"

primrec put_chars :: "u8 list \<Rightarrow> ioqueue \<Rightarrow> ioqueue option" where
  "put_chars [] q = Some q"
| "put_chars (x # xs) q = do { (q, _) \<leftarrow> ioq_putchar x q; put_chars xs q }"

definition pipe_read :: "u32 \<Rightarrow> u32 \<Rightarrow> 'a sysstate_scheme \<Rightarrow> (u32 \<times> u8 list \<times> 'a sysstate_scheme) option" where
  "pipe_read fd count s = do {
     global_fd \<leftarrow> fd_local2global fd s;
     let page = fd_inode (file_table s ! unat global_fd);
     let size = min (ioq_length (pipes s page)) (unat count);
     (bytes, q) \<leftarrow> get_chars size (pipes s page);
     Some (of_nat size, bytes, s\<lparr>pipes := (pipes s)(page := q)\<rparr>)
   }"

definition pipe_write :: "u32 \<Rightarrow> u8 list \<Rightarrow> 'a sysstate_scheme \<Rightarrow> (u32 \<times> 'a sysstate_scheme) option" where
  "pipe_write fd buffer s = do {
     global_fd \<leftarrow> fd_local2global fd s;
     let page = fd_inode (file_table s ! unat global_fd);
     let size = min (length buffer) (bufsize - ioq_length (pipes s page));
     q \<leftarrow> put_chars (take size buffer) (pipes s page);
     Some (of_nat size, s\<lparr>pipes := (pipes s)(page := q)\<rparr>)
   }"

definition sys_dup2 :: "u32 \<Rightarrow> u32 \<Rightarrow> 'a fstate_scheme \<Rightarrow> 'a fstate_scheme option" where
  "sys_dup2 new_local_fd old_local_fd s = do {
     ASSERT (unat old_local_fd < length (fds s) \<and> (3 \<le> new_local_fd \<longrightarrow> unat new_local_fd < length (fds s)));
     Some (s\<lparr>fds := (fds s)[unat old_local_fd := (if new_local_fd < 3 then new_local_fd else fds s ! unat new_local_fd)]\<rparr>)
   }"

section \<open>Open, close, read, write, seek\<close>

definition sys_open :: "u8 list \<Rightarrow> u8 \<Rightarrow> 'a sysstate_scheme \<Rightarrow> (u32 \<times> 'a sysstate_scheme) option" where
  "sys_open pathname flags s = do {
     ASSERT (pathname \<noteq> []);
     if last pathname = slash then Some (- 1, s)
     else do {
       ASSERT (flags \<le> 7);
       pathname_depth \<leftarrow> path_depth_cnt (junk_char s) pathname;
       (inode_no, rec, s) \<leftarrow> search_file pathname s;
       let found = inode_no \<noteq> - 1;
       if file_type rec = FT_DIRECTORY then Some (- 1, dir_close (parent_dir rec) s)
       else do {
         path_searched_depth \<leftarrow> path_depth_cnt (junk_char s) (searched_path rec);
         if pathname_depth \<noteq> path_searched_depth then Some (- 1, dir_close (parent_dir rec) s)
         else if \<not> found \<and> (ucast flags :: u32) AND O_CREAT = 0 then Some (- 1, dir_close (parent_dir rec) s)
         else if found \<and> (ucast flags :: u32) AND O_CREAT \<noteq> 0 then Some (- 1, dir_close (parent_dir rec) s)
         else if (ucast flags :: u32) AND O_CREAT \<noteq> 0 then do {
           (fd, s) \<leftarrow> file_create (parent_dir rec) (after_last_slash pathname) flags s;
           Some (fd, dir_close (parent_dir rec) s)
         } else file_open inode_no flags s
       }
     }
   }"

definition sys_close :: "u32 \<Rightarrow> 'a fstate_scheme \<Rightarrow> (u32 \<times> 'a fstate_scheme) option" where
  "sys_close fd s =
     (if sint fd \<le> 2 then Some (- 1, s)
      else do {
        global_fd \<leftarrow> fd_local2global fd s;
        pipe \<leftarrow> is_pipe fd s;
        let (ret, s) = (if pipe then
           (let s = upd_slot global_fd (\<lambda>f. f\<lparr>fd_pos := fd_pos f - 1\<rparr>) s
            in (0, if fd_pos (file_table s ! unat global_fd) = 0 then upd_slot global_fd (fd_inode_update (\<lambda>_. NULL)) s else s))
         else file_close global_fd s);
        Some (ret, s\<lparr>fds := (fds s)[unat fd := - 1]\<rparr>)
      })"

definition sys_write :: "u32 \<Rightarrow> u8 list \<Rightarrow> 'a sysstate_scheme \<Rightarrow> (u32 \<times> 'a sysstate_scheme) option" where
  "sys_write fd buffer s =
     (if sint fd < 0 then Some (- 1, s)
      else do {
        pipe \<leftarrow> is_pipe fd s;
        if pipe then pipe_write fd buffer s
        else if fd = 1 then do {
          ASSERT (length buffer < 1024);
          Some (of_nat (length buffer), s\<lparr>console_out := console_out s @ takeWhile (\<lambda>b. b \<noteq> 0) buffer\<rparr>)
        }
        else do {
          global_fd \<leftarrow> fd_local2global fd s;
          let flag = fd_flag (file_table s ! unat global_fd);
          if flag AND O_WRONLY \<noteq> 0 \<or> flag AND O_RDWR \<noteq> 0 then file_write global_fd buffer s
          else Some (- 1, s)
        }
      })"

definition sys_read :: "u32 \<Rightarrow> u32 \<Rightarrow> 'a sysstate_scheme \<Rightarrow> (u32 \<times> u8 list \<times> 'a sysstate_scheme) option" where
  "sys_read fd count s =
     (if sint fd < 0 \<or> fd = 1 \<or> fd = 2 then Some (- 1, [], s)
      else do {
        pipe \<leftarrow> is_pipe fd s;
        if pipe then pipe_read fd count s
        else if fd = 0 then do {
          (bytes, q) \<leftarrow> get_chars (unat count) (kbd_queue s);
          Some (if count = 0 then - 1 else count, bytes, s\<lparr>kbd_queue := q\<rparr>)
        }
        else do {
          global_fd \<leftarrow> fd_local2global fd s;
          file_read global_fd count s
        }
      })"

definition sys_lseek :: "u32 \<Rightarrow> u32 \<Rightarrow> u8 \<Rightarrow> 'a fstate_scheme \<Rightarrow> (u32 \<times> 'a fstate_scheme) option" where
  "sys_lseek fd offset whence s =
     (if sint fd < 0 then Some (- 1, s)
      else do {
        ASSERT (0 < whence \<and> whence < 4);
        global_fd \<leftarrow> fd_local2global fd s;
        let pf = file_table s ! unat global_fd;
        let file_size = i_size (inodes s (fd_inode pf));
        let new_pos = (if whence = 1 then offset else if whence = 2 then fd_pos pf + offset else file_size + offset);
        if sint new_pos < 0 \<or> sint (file_size - 1) < sint new_pos then Some (- 1, s)
        else Some (new_pos, upd_slot global_fd (fd_pos_update (\<lambda>_. new_pos)) s)
      })"

end
