(* ===== verification/Fs_tree.thy ===== *)
theory Fs_tree
  imports Fs
begin

unbundle bit_operations_syntax

text \<open>
  The rest of \<^verbatim>\<open>fs/fs.c\<close>: the system calls on the directory tree, and formatting and mounting a
  partition. \<^verbatim>\<open>fs_init\<close> takes the value of its uninitialised loop counter, the twelve partition slots
  of the second disk and the list of partitions that \<^verbatim>\<open>ide_init\<close> collected.
\<close>

section \<open>Removing and creating\<close>

primrec slot_in_use :: "nat \<Rightarrow> nat \<Rightarrow> u32 \<Rightarrow> 'a fstate_scheme \<Rightarrow> nat" where
  "slot_in_use 0 file_i inode_no s = file_i"
| "slot_in_use (Suc n) file_i inode_no s =
     (let f = file_table s ! file_i
      in if fd_inode f \<noteq> NULL \<and> inode_no = i_no (inodes s (fd_inode f)) then file_i
         else slot_in_use n (file_i + 1) inode_no s)"

definition sys_unlink :: "u8 list \<Rightarrow> 'a sysstate_scheme \<Rightarrow> (u32 \<times> 'a sysstate_scheme) option" where
  "sys_unlink pathname s = do {
     ASSERT (length pathname < MAX_PATH_LEN);
     (inode_no, rec, s) \<leftarrow> search_file pathname s;
     ASSERT (inode_no \<noteq> 0);
     if inode_no = - 1 then Some (- 1, dir_close (parent_dir rec) s)
     else if file_type rec = FT_DIRECTORY then Some (- 1, dir_close (parent_dir rec) s)
     else if slot_in_use MAX_FILE_OPEN 0 inode_no s < MAX_FILE_OPEN then Some (- 1, dir_close (parent_dir rec) s)
     else do {
       let (io_buf, s) = kmalloc s;
       if io_buf = NULL then Some (- 1, dir_close (parent_dir rec) s)
       else do {
         (_, s) \<leftarrow> delete_dir_entry (parent_dir rec) inode_no (2 * SECTOR_SIZE) s;
         s \<leftarrow> inode_release inode_no s;
         Some (0, dir_close (parent_dir rec) s)
       }
     }
   }"

text \<open>The first sector of a directory: the entries for itself and for its parent.\<close>

definition dot_entries :: "u32 \<Rightarrow> u32 \<Rightarrow> sector" where
  "dot_entries self parent =
     put dir_entry_bytes (encode_dir_entry \<lparr>filename = dotdot @ replicate 14 0, de_i_no = parent, f_type = FT_DIRECTORY\<rparr>)
       (put 0 (encode_dir_entry \<lparr>filename = dot @ replicate 15 0, de_i_no = self, f_type = FT_DIRECTORY\<rparr>)
         (replicate SECTOR_SIZE 0))"

definition sys_mkdir :: "u8 list \<Rightarrow> 'a sysstate_scheme \<Rightarrow> (u32 \<times> 'a sysstate_scheme) option" where
  "sys_mkdir pathname s = do {
     let (io_buf, s) = kmalloc s;
     if io_buf = NULL then Some (- 1, s)
     else do {
       (inode_no, rec, s) \<leftarrow> search_file pathname s;
       if inode_no \<noteq> - 1 then Some (- 1, dir_close (parent_dir rec) s)
       else do {
         pathname_depth \<leftarrow> path_depth_cnt (junk_char s) pathname;
         path_searched_depth \<leftarrow> path_depth_cnt (junk_char s) (searched_path rec);
         if pathname_depth \<noteq> path_searched_depth then Some (- 1, dir_close (parent_dir rec) s)
         else do {
           (inode_no, s) \<leftarrow> inode_bitmap_alloc s;
           if inode_no = - 1 then Some (- 1, dir_close (parent_dir rec) s)
           else do {
             (block_lba, s) \<leftarrow> block_bitmap_alloc s;
             if block_lba = - 1 then do {
               s \<leftarrow> inode_bit_clear inode_no s;
               Some (- 1, dir_close (parent_dir rec) s)
             } else do {
               let new_dir_inode = (inode_init inode_no)\<lparr>i_sectors := (i_sectors (inode_init inode_no))[0 := block_lba]\<rparr>;
               let block_bitmap_idx = block_lba - data_start_lba (sb (cur_part s));
               ASSERT (block_bitmap_idx \<noteq> 0);
               s \<leftarrow> bitmap_sync block_bitmap_idx BLOCK_BITMAP s;
               let parent_ino = i_no (inodes s (dir_inode (dirs s (parent_dir rec))));
               s \<leftarrow> ide_write block_lba (dot_entries inode_no parent_ino) 1 s;
               let new_dir_inode = new_dir_inode\<lparr>i_size := 2 * dir_entry_size (sb (cur_part s))\<rparr>;
               new_dir_entry \<leftarrow> create_dir_entry (after_last_slash (searched_path rec)) inode_no FT_DIRECTORY;
               (ok, s) \<leftarrow> sync_dir_entry (parent_dir rec) new_dir_entry s;
               if \<not> ok then do {
                 s \<leftarrow> inode_bit_clear inode_no s;
                 Some (- 1, dir_close (parent_dir rec) s)
               } else do {
                 s \<leftarrow> inode_sync (inodes s (dir_inode (dirs s (parent_dir rec)))) (2 * SECTOR_SIZE) s;
                 s \<leftarrow> inode_sync new_dir_inode (2 * SECTOR_SIZE) s;
                 s \<leftarrow> bitmap_sync inode_no INODE_BITMAP s;
                 Some (0, dir_close (parent_dir rec) s)
               }
             }
           }
         }
       }
     }
   }"

section \<open>Directories as streams\<close>

definition sys_opendir :: "u8 list \<Rightarrow> 'a sysstate_scheme \<Rightarrow> (addr \<times> 'a sysstate_scheme) option" where
  "sys_opendir name s = do {
     ASSERT (length name < MAX_PATH_LEN);
     if name \<noteq> [] \<and> hd name = slash \<and> (length name = 1 \<or> hd name = 0x2e) then Some (root_dir s, s)
     else do {
       (inode_no, rec, s) \<leftarrow> search_file name s;
       (ret, s) \<leftarrow> (if inode_no = - 1 then Some (NULL, s)
                    else if file_type rec = FT_REGULAR then Some (NULL, s)
                    else if file_type rec = FT_DIRECTORY then dir_open inode_no s
                    else Some (NULL, s));
       Some (ret, dir_close (parent_dir rec) s)
     }
   }"

definition sys_closedir :: "addr \<Rightarrow> 'a fstate_scheme \<Rightarrow> u32 \<times> 'a fstate_scheme" where
  "sys_closedir d s = (if d \<noteq> NULL then (0, dir_close d s) else (- 1, s))"

definition sys_readdir :: "addr \<Rightarrow> 'a fstate_scheme \<Rightarrow> (dir_entry option \<times> 'a fstate_scheme) option" where
  "sys_readdir d s = do { ASSERT (d \<noteq> NULL); dir_read d s }"

definition sys_rewinddir :: "addr \<Rightarrow> 'a fstate_scheme \<Rightarrow> 'a fstate_scheme" where
  "sys_rewinddir d s = s\<lparr>dirs := (dirs s)(d := (dirs s d)\<lparr>dir_pos := 0\<rparr>)\<rparr>"

definition sys_rmdir :: "u8 list \<Rightarrow> 'a sysstate_scheme \<Rightarrow> (u32 \<times> 'a sysstate_scheme) option" where
  "sys_rmdir pathname s = do {
     (inode_no, rec, s) \<leftarrow> search_file pathname s;
     ASSERT (inode_no \<noteq> 0);
     if inode_no = - 1 then Some (- 1, dir_close (parent_dir rec) s)
     else if file_type rec = FT_REGULAR then Some (- 1, dir_close (parent_dir rec) s)
     else do {
       (d, s) \<leftarrow> dir_open inode_no s;
       if \<not> dir_is_empty d s then Some (- 1, dir_close (parent_dir rec) (dir_close d s))
       else do {
         (r, s) \<leftarrow> dir_remove (parent_dir rec) d s;
         Some (if r = 0 then 0 else - 1, dir_close (parent_dir rec) (dir_close d s))
       }
     }
   }"

section \<open>The working directory\<close>

definition get_parent_dir_inode_nr :: "u32 \<Rightarrow> 'a fstate_scheme \<Rightarrow> (u32 \<times> 'a fstate_scheme) option" where
  "get_parent_dir_inode_nr child_inode_nr s = do {
     (a, s) \<leftarrow> inode_open child_inode_nr s;
     let block_lba = i_sectors (inodes s a) ! 0;
     ASSERT (data_start_lba (sb (cur_part s)) \<le> block_lba);
     let s = inode_close a s;
     io_buf \<leftarrow> ide_read block_lba 1 s;
     let dir_e = decode_dir_entry io_buf dir_entry_bytes;
     ASSERT (de_i_no dir_e < MAX_FILES_PER_PART \<and> f_type dir_e = FT_DIRECTORY);
     Some (de_i_no dir_e, s)
   }"

primrec find_inode_no :: "nat \<Rightarrow> nat \<Rightarrow> u32 \<Rightarrow> u8 list \<Rightarrow> nat option" where
  "find_inode_no 0 k c buf = None"
| "find_inode_no (Suc n) k c buf =
     (if de_i_no (decode_dir_entry buf (dir_entry_bytes * k)) = c then Some k else find_inode_no n (Suc k) c buf)"

primrec child_name_in :: "u32 list \<Rightarrow> nat \<Rightarrow> u32 \<Rightarrow> 'a fstate_scheme \<Rightarrow> u8 list option option" where
  "child_name_in [] n c s = Some None"
| "child_name_in (b # bs) n c s =
     (if b = 0 then child_name_in bs n c s
      else do {
        io_buf \<leftarrow> ide_read b 1 s;
        case find_inode_no n 0 c io_buf of
          Some k \<Rightarrow> do { name \<leftarrow> cstr_at io_buf (dir_entry_bytes * k); Some (Some name) }
        | None \<Rightarrow> child_name_in bs n c s
      })"

definition get_child_dir_name :: "u32 \<Rightarrow> u32 \<Rightarrow> u8 list \<Rightarrow> 'a fstate_scheme \<Rightarrow> (u8 list option \<times> 'a fstate_scheme) option" where
  "get_child_dir_name p_inode_nr c_inode_nr path s = do {
     (a, s) \<leftarrow> inode_open p_inode_nr s;
     all_blocks \<leftarrow> flatten_ptrs (inodes s a) s;
     let s = inode_close a s;
     n \<leftarrow> dir_entrys_per_sec s;
     r \<leftarrow> child_name_in all_blocks n c_inode_nr s;
     Some (map_option (\<lambda>name. path @ slash # name) r, s)
   }"

text \<open>The walk to the root; it need not end when the directory entries form a cycle.\<close>

partial_function (option) cwd_loop :: "u32 \<Rightarrow> u8 list \<Rightarrow> 'a fstate_scheme \<Rightarrow> (u8 list option \<times> 'a fstate_scheme) option" where
  "cwd_loop child full_path_reverse s =
     (if child = 0 then Some (Some full_path_reverse, s)
      else do {
        (parent, s) \<leftarrow> get_parent_dir_inode_nr child s;
        (r, s) \<leftarrow> get_child_dir_name parent child full_path_reverse s;
        case r of None \<Rightarrow> Some (None, s)
        | Some path \<Rightarrow> do { ASSERT (length path < MAX_PATH_LEN); cwd_loop parent path s }
      })"

text \<open>The names were collected from the leaf to the root; copy them in the opposite order.\<close>

function reverse_path :: "u8 list \<Rightarrow> u8 list" where
  "reverse_path full_path_reverse =
     (if slash \<in> set full_path_reverse then
        let last_name = after_last_slash full_path_reverse
        in slash # last_name @ reverse_path (take (length full_path_reverse - length last_name - 1) full_path_reverse)
      else [])"
  by pat_completeness auto
termination
  by (relation "measure length") (auto dest: length_pos_if_in_set)

declare reverse_path.simps [simp del]

definition sys_getcwd :: "u32 \<Rightarrow> 'a fstate_scheme \<Rightarrow> (u8 list option \<times> 'a fstate_scheme) option" where
  "sys_getcwd room s = do {
     let (io_buf, s) = kmalloc s;
     if io_buf = NULL then Some (None, s)
     else do {
       let child = cwd_inode s;
       ASSERT (child < MAX_FILES_PER_PART);
       if child = 0 then Some (Some [slash], s)
       else do {
         (r, s) \<leftarrow> cwd_loop child [] s;
         case r of None \<Rightarrow> Some (None, s)
         | Some path \<Rightarrow> do {
             ASSERT (length path \<le> unat room);
             Some (Some (reverse_path path), s)
           }
       }
     }
   }"

definition sys_chdir :: "u8 list \<Rightarrow> 'a sysstate_scheme \<Rightarrow> (u32 \<times> 'a sysstate_scheme) option" where
  "sys_chdir path s = do {
     (inode_no, rec, s) \<leftarrow> search_file path s;
     let (ret, s) = (if inode_no \<noteq> - 1 \<and> file_type rec = FT_DIRECTORY then (0, s\<lparr>cwd_inode := inode_no\<rparr>) else (- 1, s));
     Some (ret, dir_close (parent_dir rec) s)
   }"

record stat =
  st_ino :: u32
  st_size :: u32
  st_filetype :: u32

definition sys_stat :: "u8 list \<Rightarrow> 'a sysstate_scheme \<Rightarrow> (stat option \<times> 'a sysstate_scheme) option" where
  "sys_stat path s =
     (if path \<in> {[slash], slash # dot, slash # dotdot} then
        Some (Some \<lparr>st_ino = 0, st_size = i_size (inodes s (dir_inode (dirs s (root_dir s)))), st_filetype = FT_DIRECTORY\<rparr>, s)
      else do {
        (inode_no, rec, s) \<leftarrow> search_file path s;
        (r, s) \<leftarrow> (if inode_no \<noteq> - 1 then do {
             (a, s) \<leftarrow> inode_open inode_no s;
             let sz = i_size (inodes s a);
             Some (Some \<lparr>st_ino = inode_no, st_size = sz, st_filetype = file_type rec\<rparr>, inode_close a s)
           } else Some (None, s));
        Some (r, dir_close (parent_dir rec) s)
      })"

section \<open>Formatting and mounting\<close>

definition round_up :: "u32 \<Rightarrow> u32 \<Rightarrow> u32" where
  "round_up x step = (x + step - 1) div step"

definition FS_MAGIC :: u32 where "FS_MAGIC = 0x19491001"

text \<open>The layout of a partition, and the number of blocks its block bitmap has to describe.\<close>

definition format_layout :: "partition \<Rightarrow> super_block \<times> u32" where
  "format_layout part =
     (let inode_bitmap_sects' = round_up MAX_FILES_PER_PART BITS_PER_SECTOR;
          inode_table_sects' = round_up (of_nat inode_bytes * MAX_FILES_PER_PART) (of_nat SECTOR_SIZE);
          used_sects = 1 + 1 + inode_bitmap_sects' + inode_table_sects';
          free_sects = sec_cnt part - used_sects;
          bit_len = free_sects - round_up free_sects BITS_PER_SECTOR;
          block_bitmap_sects' = round_up bit_len BITS_PER_SECTOR;
          bb_lba = start_lba part + 2;
          ib_lba = bb_lba + block_bitmap_sects';
          it_lba = ib_lba + inode_bitmap_sects'
      in (\<lparr>magic = FS_MAGIC, sb_sec_cnt = sec_cnt part, inode_cnt = MAX_FILES_PER_PART, part_lba_base = start_lba part,
            block_bitmap_lba = bb_lba, block_bitmap_sects = block_bitmap_sects',
            inode_bitmap_lba = ib_lba, inode_bitmap_sects = inode_bitmap_sects',
            inode_table_lba = it_lba, inode_table_sects = inode_table_sects',
            data_start_lba = it_lba + inode_table_sects', root_inode_no = 0, dir_entry_size = of_nat dir_entry_bytes\<rparr>,
          bit_len))"

text \<open>The block bitmap: block 0 taken, the bits past the end of the partition taken.\<close>

definition format_bitmap :: "nat \<Rightarrow> u32 \<Rightarrow> u8 list" where
  "format_bitmap buf_size bit_len =
     (let last_byte = unat (bit_len div 8);
          last_bit = unat (bit_len mod 8);
          last_size = SECTOR_SIZE - last_byte mod SECTOR_SIZE;
          b = put 0 [1] (replicate buf_size 0);
          b = put last_byte (replicate last_size 0xff) b
      in b[last_byte := b ! last_byte AND NOT (push_bit (last_bit + 1) 1 - 1)])"

text \<open>The pad of the super block is uninitialised stack memory; it is written as zeros.\<close>

definition partition_format :: "partition \<Rightarrow> 'a fstate_scheme \<Rightarrow> 'a fstate_scheme option" where
  "partition_format part s = do {
     let (b, bit_len) = format_layout part;
     s \<leftarrow> ide_write (start_lba part + 1) (encode_super_block b @ replicate 460 0) 1 s;
     let buf_size = unat (max (max (block_bitmap_sects b) (inode_bitmap_sects b)) (inode_table_sects b) * of_nat SECTOR_SIZE);
     let (buf, s) = kmalloc s;
     ASSERT (buf \<noteq> NULL);
     s \<leftarrow> ide_write (block_bitmap_lba b) (format_bitmap buf_size bit_len) (unat (block_bitmap_sects b)) s;
     s \<leftarrow> ide_write (inode_bitmap_lba b) (put 0 [1] (replicate buf_size 0)) (unat (inode_bitmap_sects b)) s;
     let root = (inode_init 0)\<lparr>i_size := dir_entry_size b * 2, i_sectors := (i_sectors (inode_init 0))[0 := data_start_lba b]\<rparr>;
     s \<leftarrow> ide_write (inode_table_lba b) (put 0 (encode_inode root) (replicate buf_size 0)) (unat (inode_table_sects b)) s;
     ide_write (data_start_lba b) (dot_entries 0 0) 1 s
   }"

definition load_bitmap :: "u32 \<Rightarrow> u32 \<Rightarrow> bitmap \<Rightarrow> 'a fstate_scheme \<Rightarrow> (bitmap \<times> 'a fstate_scheme) option" where
  "load_bitmap lba sects old s = do {
     let (p, s) = kmalloc s;
     ASSERT (p \<noteq> NULL);
     l \<leftarrow> ide_read lba (unat sects) s;
     Some (\<lparr>btmp_bytes_len = unat (sects * of_nat SECTOR_SIZE), bits = (\<lambda>i. if i < length l then l ! i else bits old i)\<rparr>, s)
   }"

definition mount_partition :: "u8 list \<Rightarrow> partition \<Rightarrow> 'a fstate_scheme \<Rightarrow> (bool \<times> 'a fstate_scheme) option" where
  "mount_partition name part s =
     (if part_name part = name then do {
        let s = s\<lparr>cur_part := part\<rparr>;
        let (sb_buf, s) = kmalloc s;
        let (sb_mem, s) = kmalloc s;
        ASSERT (sb_mem \<noteq> NULL);
        ASSERT (sb_buf \<noteq> NULL);
        sec \<leftarrow> ide_read (start_lba part + 1) 1 s;
        let b = decode_super_block sec;
        let s = upd_part (sb_update (\<lambda>_. b)) s;
        (bb, s) \<leftarrow> load_bitmap (block_bitmap_lba b) (block_bitmap_sects b) (block_bitmap part) s;
        let s = upd_part (block_bitmap_update (\<lambda>_. bb)) s;
        (ib, s) \<leftarrow> load_bitmap (inode_bitmap_lba b) (inode_bitmap_sects b) (inode_bitmap part) s;
        Some (True, upd_part (\<lambda>p. p\<lparr>inode_bitmap := ib, open_inodes := []\<rparr>) s)
      } else Some (False, s))"

primrec scan_parts :: "partition list \<Rightarrow> 'a fstate_scheme \<Rightarrow> 'a fstate_scheme option" where
  "scan_parts [] s = Some s"
| "scan_parts (part # ps) s = do {
     s \<leftarrow> (if sec_cnt part \<noteq> 0 then do {
             sec \<leftarrow> ide_read (start_lba part + 1) 1 s;
             if magic (decode_super_block sec) = FS_MAGIC then Some s else partition_format part s
           } else Some s);
     scan_parts ps s
   }"

text \<open>\<^verbatim>\<open>list_traversal\<close> with \<^verbatim>\<open>mount_partition\<close>: stop at the first partition of that name.\<close>

primrec mount_first :: "u8 list \<Rightarrow> partition list \<Rightarrow> 'a fstate_scheme \<Rightarrow> 'a fstate_scheme option" where
  "mount_first name [] s = Some s"
| "mount_first name (p # ps) s = do {
     (stop, s) \<leftarrow> mount_partition name p s;
     if stop then Some s else mount_first name ps s
   }"

definition fs_init :: "u8 \<Rightarrow> partition list \<Rightarrow> partition list \<Rightarrow> 'a fstate_scheme \<Rightarrow> 'a fstate_scheme option" where
  "fs_init dev_no parts partition_list s = do {
     let (sb_buf, s) = kmalloc s;
     ASSERT (sb_buf \<noteq> NULL);
     s \<leftarrow> (if dev_no < 2 then scan_parts parts s else Some s);
     s \<leftarrow> mount_first [0x73, 0x64, 0x62, 0x31] partition_list s;
     s \<leftarrow> open_root_dir s;
     Some (s\<lparr>file_table := map (fd_inode_update (\<lambda>_. NULL)) (file_table s)\<rparr>)
   }"

end
