(* ===== verification/Fs_props.thy ===== *)
theory Fs_props
  imports Fs_tree
begin

text \<open>
  Properties of the file system calls that do not concern the contents of the disk: the names of a
  path, the order of the names that \<^verbatim>\<open>sys_getcwd\<close> returns, the range of positions that \<^verbatim>\<open>sys_lseek\<close>
  accepts, pipes as queues, and what \<^verbatim>\<open>partition_format\<close> leaves in the inode table.
\<close>

section \<open>The names of a path\<close>

text \<open>The names between slashes, by one pass over the characters; \<open>cur\<close> is the name read so far.\<close>

fun names :: "u8 list \<Rightarrow> u8 list \<Rightarrow> u8 list list" where
  "names cur [] = (if cur = [] then [] else [cur])"
| "names cur (c # cs) = (if c = slash then (if cur = [] then names [] cs else cur # names [] cs) else names (cur @ [c]) cs)"

lemma names_skip: "names [] (dropWhile (\<lambda>c. c = slash) p) = names [] p"
  by (induction p) auto

lemma names_take:
  "names cur p = (let n = cur @ takeWhile (\<lambda>c. c \<noteq> slash) p; r = dropWhile (\<lambda>c. c \<noteq> slash) p
     in (if n = [] then [] else [n]) @ names [] r)"
  by (induction p arbitrary: cur) (auto simp: Let_def)

lemma path_parse_parts:
  shows "fst (path_parse p) = takeWhile (\<lambda>c. c \<noteq> slash) (dropWhile (\<lambda>c. c = slash) p)"
    and "(case snd (path_parse p) of None \<Rightarrow> [] | Some q \<Rightarrow> names [] q) = names [] (dropWhile (\<lambda>c. c \<noteq> slash) (dropWhile (\<lambda>c. c = slash) p))"
    and "fst (path_parse p) = [] \<Longrightarrow> snd (path_parse p) = None"
proof -
  let ?d = "dropWhile (\<lambda>c. c = slash) p"
  show f: "fst (path_parse p) = takeWhile (\<lambda>c. c \<noteq> slash) ?d" by (simp add: path_parse_def Let_def)
  show "(case snd (path_parse p) of None \<Rightarrow> [] | Some q \<Rightarrow> names [] q) = names [] (dropWhile (\<lambda>c. c \<noteq> slash) ?d)"
    by (simp add: path_parse_def Let_def del: dropWhile_eq_Nil_conv)
  assume "fst (path_parse p) = []"
  then have "?d = []" using hd_dropWhile [of "\<lambda>c. c = slash" p] unfolding f takeWhile_eq_Nil_iff by blast
  then show "snd (path_parse p) = None" by (simp add: path_parse_def Let_def del: dropWhile_eq_Nil_conv)
qed

lemma names_parse:
  assumes "path_parse p = (n, r)"
  shows "names [] p = (if n = [] then [] else n # (case r of None \<Rightarrow> [] | Some q \<Rightarrow> names [] q))"
proof -
  let ?d = "dropWhile (\<lambda>c. c = slash) p"
  have n: "n = takeWhile (\<lambda>c. c \<noteq> slash) ?d" and r: "(case r of None \<Rightarrow> [] | Some q \<Rightarrow> names [] q) = names [] (dropWhile (\<lambda>c. c \<noteq> slash) ?d)"
    using path_parse_parts [of p] unfolding assms by simp_all
  have e: "n = [] \<Longrightarrow> r = None" using path_parse_parts(3) [of p] unfolding assms by simp
  have "names [] p = names [] ?d" by (rule names_skip [symmetric])
  also have "\<dots> = (if n = [] then [] else [n]) @ names [] (dropWhile (\<lambda>c. c \<noteq> slash) ?d)" unfolding n by (subst names_take) (simp add: Let_def)
  finally show ?thesis using e r by (cases "n = []") simp_all
qed

definition join :: "u8 list list \<Rightarrow> u8 list" where
  "join ns = concat (map (\<lambda>n. slash # n) ns)"

definition proper_names :: "u8 list list \<Rightarrow> bool" where
  "proper_names ns = (\<forall>n\<in>set ns. n \<noteq> [] \<and> slash \<notin> set n)"

lemma names_join: "proper_names ns \<Longrightarrow> names [] (join ns) = ns"
proof (induction ns)
  case (Cons n ns)
  then have n: "n \<noteq> []" "slash \<notin> set n" "proper_names ns" by (simp_all add: proper_names_def)
  have "takeWhile (\<lambda>c. c \<noteq> slash) (n @ join ns) = n \<and> dropWhile (\<lambda>c. c \<noteq> slash) (n @ join ns) = join ns"
    using n(2) by (cases ns) (auto simp: join_def takeWhile_append2 dropWhile_append2 takeWhile_append dropWhile_append)
  then have "names [] (n @ join ns) = n # names [] (join ns)" using n(1) by (subst names_take) (simp add: Let_def)
  then show ?case using Cons.IH [OF n(3)] by (simp add: join_def)
qed (simp add: join_def)

lemma depth_loop_names:
  assumes "name \<noteq> []" and "length name \<le> MAX_FILE_NAME_LEN"
    and "\<forall>n\<in>set (case p of None \<Rightarrow> [] | Some q \<Rightarrow> names [] q). length n \<le> MAX_FILE_NAME_LEN"
  shows "depth_loop name p = Some (of_nat (1 + length (case p of None \<Rightarrow> [] | Some q \<Rightarrow> names [] q)))"
  using assms
proof (induction name p rule: depth_loop.induct)
  case (1 name p)
  obtain n r where nr: "parse_next p = (n, r)" by fastforce
  have e: "depth_loop name p = do { d \<leftarrow> depth_loop n r; Some (d + 1) }"
    using "1.prems"(1,2) nr by (subst depth_loop.simps) simp
  have z: "depth_loop [] r = Some 0" by (subst depth_loop.simps) simp
  show ?case
  proof (cases p)
    case None
    then show ?thesis using e nr depth_loop.simps [of "[]" None] by (auto simp: parse_next_def)
  next
    case (Some q)
    then have np: "names [] q = (if n = [] then [] else n # (case r of None \<Rightarrow> [] | Some q \<Rightarrow> names [] q))"
      using nr names_parse by (simp add: parse_next_def)
    show ?thesis
    proof (cases "n = []")
      case True
      then show ?thesis using e z np Some by simp
    next
      case False
      then have "depth_loop n r = Some (of_nat (1 + length (case r of None \<Rightarrow> [] | Some q \<Rightarrow> names [] q)))"
        using "1.IH" "1.prems" nr np Some by simp
      then show ?thesis using e np Some False by simp
    qed
  qed
qed

text \<open>
  \<^verbatim>\<open>path_depth_cnt\<close> returns and counts the names of the path, for a path with at least one name whose
  names fit their buffer. A path of slashes only is counted as deep as the uninitialised buffer says:
  0 when its first byte is 0 and 1 otherwise.
\<close>

theorem path_depth_counts_names:
  assumes "\<forall>n\<in>set (names [] p). length n \<le> MAX_FILE_NAME_LEN"
  shows "path_depth_cnt junk p = Some (if names [] p = [] then (if junk = 0 then 0 else 1) else of_nat (length (names [] p)))"
proof -
  obtain n r where nr: "path_parse p = (n, r)" by fastforce
  note np = names_parse [OF nr]
  show ?thesis
  proof (cases "n = []")
    case True
    then have "r = None" using path_parse_parts(3) [of p] nr by simp
    then show ?thesis
      using True np nr depth_loop_names [of "[junk]" None] depth_loop.simps [of "[]" None] by (simp add: path_depth_cnt_def MAX_FILE_NAME_LEN_def)
  next
    case False
    then show ?thesis using np nr assms depth_loop_names [of n r] by (simp add: path_depth_cnt_def)
  qed
qed

theorem path_depth_counts_names_witness:
  "path_depth_cnt 0 [slash, 97, slash, slash, 98, 99] = Some 2 \<and> path_depth_cnt 5 [slash, slash] = Some 1"
  using path_depth_counts_names [of "[slash, 97, slash, slash, 98, 99]" 0] path_depth_counts_names [of "[slash, slash]" 5]
  by (simp add: slash_def MAX_FILE_NAME_LEN_def)

section \<open>The working directory\<close>

lemma after_last_join: "slash \<notin> set n \<Longrightarrow> after_last_slash (p @ slash # n) = n"
  unfolding after_last_slash_def by (simp add: takeWhile_tail, subst takeWhile_eq_all_conv [THEN iffD2]) auto

text \<open>
  \<^verbatim>\<open>sys_getcwd\<close> turns the names it collected from the leaf upwards around: copying back by
  \<^verbatim>\<open>strrchr\<close> gives the path from the root, and reading its names gives them in that order.
\<close>

theorem getcwd_reverses:
  assumes "proper_names ns"
  shows "reverse_path (join ns) = join (rev ns) \<and> names [] (reverse_path (join ns)) = rev ns"
proof -
  have "reverse_path (join ns) = join (rev ns)" using assms
  proof (induction ns rule: rev_induct)
    case (snoc n ns)
    then have n: "slash \<notin> set n" "proper_names ns" by (simp_all add: proper_names_def)
    have j: "join (ns @ [n]) = join ns @ slash # n" by (simp add: join_def)
    have "reverse_path (join (ns @ [n])) = slash # n @ reverse_path (join ns)"
      unfolding j by (subst reverse_path.simps) (simp add: after_last_join [OF n(1)] Let_def)
    then show ?case using snoc.IH [OF n(2)] by (simp add: join_def)
  qed (simp add: join_def reverse_path.simps)
  then show ?thesis using names_join [of "rev ns"] assms by (simp add: proper_names_def)
qed

theorem getcwd_reverses_witness: "reverse_path [slash, 98, slash, 97, 97] = [slash, 97, 97, slash, 98]"
  using getcwd_reverses [of "[[98], [97, 97]]"] by (simp add: join_def proper_names_def slash_def)

section \<open>Positions\<close>

lemma sint_of_int_u32:
  assumes "- (2 ^ 31) \<le> k" and "k < 2 ^ 32"
  shows "sint (of_int k :: u32) = (if k < 2 ^ 31 then k else k - 2 ^ 32)"
proof -
  have "sint (of_int k :: u32) = (k + 2 ^ 31) mod 2 ^ 32 - 2 ^ 31" using int_word_sint [where 'a = 32, of k] by simp
  moreover have "(k + 2 ^ 31) mod 2 ^ 32 = (if k < 2 ^ 31 then k + 2 ^ 31 else k + 2 ^ 31 - 2 ^ 32)"
    using assms mod_pos_pos_trivial [of "k + 2 ^ 31" "2 ^ 32"] mod_pos_pos_trivial [of "k + 2 ^ 31 - 2 ^ 32" "2 ^ 32"]
      mod_add_self2 [of "k + 2 ^ 31 - 2 ^ 32" "2 ^ 32"] by (auto simp: add.commute)
  ultimately show ?thesis by auto
qed

text \<open>
  C32: \<^verbatim>\<open>sys_lseek\<close> accepts exactly the positions inside the file. With \<open>base\<close> the start, the position or
  the end of the file as \<^verbatim>\<open>whence\<close> says, the call moves to the sum of base and signed offset when that
  number is not negative and less than the size of the file, and otherwise returns -1 and changes
  nothing; so no position of an empty file, nor the end of any file, can be reached.
\<close>

theorem sys_lseek_bounds:
  assumes "unat fd < 8" and "fd_local2global fd s = Some g" and "0 < whence" and "whence < 4"
    and "f = file_table s ! unat g" and "sz = i_size (inodes s (fd_inode f))" and "unat sz < 2 ^ 31" and "unat (fd_pos f) < 2 ^ 31"
    and "base = (if whence = 1 then 0 else if whence = 2 then int (unat (fd_pos f)) else int (unat sz))"
  shows "sys_lseek fd offset whence s = (if 0 \<le> base + sint offset \<and> base + sint offset < int (unat sz)
     then Some (of_int (base + sint offset), upd_slot g (fd_pos_update (\<lambda>_. of_int (base + sint offset))) s)
     else Some (- 1, s))"
proof -
  define t where "t = base + sint offset"
  have base: "0 \<le> base" "base < 2 ^ 31"
    using assms(7-9) nat_less_iff [of "uint sz" "2 ^ 31"] nat_less_iff [of "uint (fd_pos f)" "2 ^ 31"] by auto
  have "- (2 ^ 31) \<le> sint offset" "sint offset < 2 ^ 31" using sint_ge [of offset] sint_lt [of offset] by simp_all
  then have t: "- (2 ^ 31) \<le> t" "t < 2 ^ 32" using base by (simp_all add: t_def)
  have np: "(if whence = 1 then offset else if whence = 2 then fd_pos f + offset else sz + offset) = of_int t"
    by (simp add: t_def assms(9))
  have "sz - 1 = of_int (int (unat sz) - 1)" by simp
  moreover have us: "uint sz < 2 ^ 31" "0 \<le> uint sz" using assms(7) nat_less_iff [of "uint sz" "2 ^ 31"] by simp_all
  moreover from us have c: "- (2 ^ 31) \<le> uint sz - 1" "uint sz - 1 < 2 ^ 32" by (linarith, simp)
  ultimately have lim: "sint (sz - 1) = uint sz - 1" using sint_of_int_u32 [OF c] by simp
  have fd: "\<not> sint fd < 0"
  proof -
    have "uint fd < 8" "0 \<le> uint fd" using assms(1) nat_less_iff [of "uint fd" 8] by simp_all
    moreover have "- (2 ^ 31) \<le> uint fd" by (rule order_trans [OF _ calculation(2)]) simp
    ultimately show ?thesis using sint_of_int_u32 [of "uint fd"] by simp
  qed
  have "(sint (of_int t :: u32) < 0 \<or> sint (sz - 1) < sint (of_int t :: u32)) = (\<not> (0 \<le> t \<and> t < int (unat sz)))"
    unfolding lim sint_of_int_u32 [OF t] using us t by auto
  then show ?thesis
    unfolding sys_lseek_def t_def [symmetric] Let_def assms(2) Option.bind.bind_lunit assms(5) [symmetric] assms(6) [symmetric] np
    using assms(3,4) fd by simp
qed

theorem sys_lseek_bounds_witness:
  "sys_lseek 3 (- 2) 3 (demo_fs\<lparr>fds := replicate 8 4, inodes := (\<lambda>_. demo_inode\<lparr>i_size := 10\<rparr>)\<rparr>)
     = Some (8, upd_slot 4 (fd_pos_update (\<lambda>_. 8)) (demo_fs\<lparr>fds := replicate 8 4, inodes := (\<lambda>_. demo_inode\<lparr>i_size := 10\<rparr>)\<rparr>))"
proof -
  let ?s = "demo_fs\<lparr>fds := replicate 8 4, inodes := (\<lambda>_. demo_inode\<lparr>i_size := 10\<rparr>)\<rparr>"
  have g: "fd_local2global 3 ?s = Some 4" by (simp add: fd_local2global_def MAX_FILE_OPEN_def)
  from sys_lseek_bounds [OF _ g _ _ refl refl _ _ refl, of 3 "- 2"] show ?thesis by (simp add: demo_fs_def)
qed

section \<open>Pipes\<close>

lemma put_chars_ring: "put_chars xs q = ring.put_all xs q"
  by (induction xs arbitrary: q) (auto split: bind_splits)

lemma get_chars_ring: "get_chars n q = ring.get_all n q"
  by (induction n arbitrary: q) (auto split: bind_splits)

text \<open>
  C27: a pipe is a first-in first-out channel. While the bytes in it and the bytes written fit into the 63
  that the queue can hold, \<^verbatim>\<open>pipe_write\<close> returns their number and appends them; \<^verbatim>\<open>pipe_read\<close> always
  returns, with the oldest bytes, at most as many as asked for, and removes exactly those.
\<close>

theorem pipe_fifo:
  assumes "fd_local2global fd s = Some g" and "page = fd_inode (file_table s ! unat g)" and "ioq_wf (pipes s page)"
    and "length (ioq_list (pipes s page)) + length buf \<le> 63"
  shows "(\<exists>s'. pipe_write fd buf s = Some (of_nat (length buf), s') \<and> ioq_wf (pipes s' page)
       \<and> ioq_list (pipes s' page) = ioq_list (pipes s page) @ buf \<and> fd_local2global fd s' = Some g)
    \<and> (\<exists>s'. pipe_read fd count s = Some (of_nat (length (take (unat count) (ioq_list (pipes s page)))), take (unat count) (ioq_list (pipes s page)), s')
       \<and> ioq_wf (pipes s' page) \<and> ioq_list (pipes s' page) = drop (unat count) (ioq_list (pipes s page)))"
proof -
  let ?q = "pipes s page"
  have len: "ioq_length ?q = length (ioq_list ?q)" using bytes_of_ring(1) [OF assms(3)] by simp
  obtain q where q: "put_chars buf ?q = Some q" "ioq_wf q" "ioq_list q = ioq_list ?q @ buf"
    using ring.put_all_contents [OF assms(3), of buf] assms(4) by (auto simp: put_chars_ring bufsize_def)
  have "min (length buf) (bufsize - ioq_length ?q) = length buf" using assms(4) len by (simp add: bufsize_def)
  then have "pipe_write fd buf s = Some (of_nat (length buf), s\<lparr>pipes := (pipes s)(page := q)\<rparr>)"
    using assms(1,2) q(1) by (simp add: pipe_write_def)
  then have w: "\<exists>s'. pipe_write fd buf s = Some (of_nat (length buf), s') \<and> ioq_wf (pipes s' page)
       \<and> ioq_list (pipes s' page) = ioq_list ?q @ buf \<and> fd_local2global fd s' = Some g"
    using q(2,3) assms(1) by (intro exI [of _ "s\<lparr>pipes := (pipes s)(page := q)\<rparr>"]) (simp add: fd_local2global_def)
  define n where "n = min (length (ioq_list ?q)) (unat count)"
  obtain r where r: "get_chars n ?q = Some (take n (ioq_list ?q), r)" "ioq_wf r" "ioq_list r = drop n (ioq_list ?q)"
    using ring.get_all_contents [OF assms(3), of n] by (auto simp: get_chars_ring n_def)
  have n: "take n (ioq_list ?q) = take (unat count) (ioq_list ?q)" "drop n (ioq_list ?q) = drop (unat count) (ioq_list ?q)"
    "length (take (unat count) (ioq_list ?q)) = n"
    by (simp_all add: n_def min_def)
  have "pipe_read fd count s = Some (of_nat n, take (unat count) (ioq_list ?q), s\<lparr>pipes := (pipes s)(page := r)\<rparr>)"
    unfolding pipe_read_def Let_def assms(1) using r(1) n(1) by (simp add: assms(2) [symmetric] len n_def [symmetric])
  then have "\<exists>s'. pipe_read fd count s = Some (of_nat n, take (unat count) (ioq_list ?q), s')
      \<and> ioq_wf (pipes s' page) \<and> ioq_list (pipes s' page) = drop (unat count) (ioq_list ?q)"
    using r(2,3) unfolding n(2) by (intro exI [of _ "s\<lparr>pipes := (pipes s)(page := r)\<rparr>"]) simp
  then show ?thesis using w unfolding n(3) by blast
qed

theorem pipe_fifo_witness:
  "\<exists>s :: sysstate. \<exists>s'. pipe_write 3 [1, 2, 3] s = Some (3, s') \<and> ioq_list (pipes s' 0x5000) = [1, 2, 3]"
proof -
  let ?q = "ioqueue_init \<lparr>producer = NULL, consumer = NULL, ioq_buf = replicate 64 0, ioq_head = 0, ioq_tail = 0\<rparr>"
  let ?s = "fstate.extend (demo_fs\<lparr>fds := replicate 8 4, file_table := replicate 32 \<lparr>fd_pos = 2, fd_flag = 0xffff, fd_inode = 0x5000\<rparr>\<rparr>)
      (sysstate.fields (\<lambda>_. ?q) ?q [] 0 0) :: sysstate"
  have g: "fd_local2global 3 ?s = Some 4" by (simp add: fd_local2global_def MAX_FILE_OPEN_def fstate.defs)
  have p: "0x5000 = fd_inode (file_table ?s ! unat (4 :: u32))" by (simp add: fstate.defs)
  have q: "pipes ?s 0x5000 = ?q" by (simp add: fstate.defs sysstate.defs)
  have "ioq_wf ?q" "ioq_list ?q = []" by (simp_all add: ioqueue_init_def ioq_wf_def ioq_list_def ioq_length_def bufsize_def)
  then have "\<exists>s'. pipe_write 3 [1, 2, 3] ?s = Some (of_nat (length [1 :: u8, 2, 3]), s') \<and> ioq_list (pipes s' 0x5000) = [1, 2, 3]"
    using pipe_fifo [OF g p, of "[1, 2, 3]" 0] unfolding q by auto
  moreover have "of_nat (length [1 :: u8, 2, 3]) = (3 :: u32)" by simp
  ultimately show ?thesis by metis
qed

section \<open>Formatting\<close>

lemma ide_write_total:
  assumes "lba \<le> max_lba"
  shows "\<exists>d. ide_write lba buf n s = Some (s\<lparr>disk := d\<rparr>) \<and> (\<forall>l. l \<noteq> lba \<longrightarrow> d l = disk s l)"
proof (cases n)
  case 0
  then show ?thesis by (intro exI [of _ "disk s"]) simp
next
  case (Suc m)
  then show ?thesis using ide_write_many [OF assms, of buf m s] by auto
qed

lemma decode_zero:
  "i_size (decode_inode (replicate SECTOR_SIZE 0) 0) = 0" "i_sectors (decode_inode (replicate SECTOR_SIZE 0) 0) = replicate TOTAL_PTRS 0"
proof -
  have g: "get32 (replicate SECTOR_SIZE 0) j = 0" if "j < 500" for j using that by (simp add: get32_def SECTOR_SIZE_def)
  then show "i_size (decode_inode (replicate SECTOR_SIZE 0) 0) = 0" by (simp add: decode_inode_def)
  have "map (\<lambda>k. get32 (replicate SECTOR_SIZE 0) (0 + 16 + 4 * k)) [0..<TOTAL_PTRS] = map (\<lambda>_. 0) [0..<TOTAL_PTRS]"
    by (rule map_cong [OF refl]) (auto simp: TOTAL_PTRS_def intro!: g)
  then show "i_sectors (decode_inode (replicate SECTOR_SIZE 0) 0) = replicate TOTAL_PTRS 0"
    by (simp only: decode_inode_def inode.simps map_replicate_const length_upt diff_zero)
qed

lemma round_up_sectors:
  assumes "unat x + 4096 \<le> 2 ^ 32"
  shows "unat (round_up x BITS_PER_SECTOR) = (unat x + 4095) div 4096"
proof -
  have "x + BITS_PER_SECTOR - 1 = x + 4095" by (simp add: BITS_PER_SECTOR_def)
  moreover have "unat (4095 + x) = unat x + 4095" using assms by (simp add: unat_word_ariths)
  ultimately show ?thesis unfolding round_up_def by (simp add: BITS_PER_SECTOR_def unat_div)
qed

text \<open>The layout that \<^verbatim>\<open>partition_format\<close> computes, for a partition that has room for it.\<close>

lemma format_layout_spec:
  assumes "700 \<le> unat (sec_cnt part)" and "unat (start_lba part) + unat (sec_cnt part) \<le> 163839" and "format_layout part = (b, bit_len)"
  shows "\<exists>k. k \<le> 40 \<and> 1 \<le> k \<and> block_bitmap_sects b = of_nat k \<and> unat (block_bitmap_lba b) = unat (start_lba part) + 2
    \<and> unat (inode_bitmap_lba b) = unat (start_lba part) + 2 + k \<and> unat (inode_table_lba b) = unat (start_lba part) + 3 + k
    \<and> unat (data_start_lba b) = unat (start_lba part) + 611 + k \<and> 611 + k \<le> unat (sec_cnt part)
    \<and> inode_bitmap_sects b = 1 \<and> inode_table_sects b = 608 \<and> dir_entry_size b = 24"
proof -
  let ?S = "unat (sec_cnt part)" and ?L = "unat (start_lba part)"
  define free_sects where "free_sects = sec_cnt part - 611"
  have f: "unat free_sects = ?S - 611" using assms(1) by (simp add: free_sects_def unat_sub word_le_nat_alt)
  define r where "r = round_up free_sects BITS_PER_SECTOR"
  have r: "unat r = (?S - 611 + 4095) div 4096" unfolding r_def using f assms(2) by (simp add: round_up_sectors)
  then have rle: "unat r \<le> ?S - 611" using assms(1) by linarith
  have bl: "unat (free_sects - r) = ?S - 611 - unat r" using rle f by (simp add: unat_sub word_le_nat_alt)
  define k where "k = (?S - 611 - unat r + 4095) div 4096"
  have k: "unat (round_up (free_sects - r) BITS_PER_SECTOR) = k" unfolding k_def bl [symmetric]
    by (rule round_up_sectors, unfold bl, use assms(2) in simp)
  have kb: "k \<le> 40" "1 \<le> k" "611 + k \<le> ?S" using assms r unfolding k_def by linarith+
  have kw: "round_up (free_sects - r) BITS_PER_SECTOR = of_nat k" using k kb by (simp add: u32_eq_of_nat)
  have c: "round_up MAX_FILES_PER_PART BITS_PER_SECTOR = 1" "round_up (of_nat inode_bytes * MAX_FILES_PER_PART) (of_nat SECTOR_SIZE) = 608"
    by (simp_all add: round_up_def MAX_FILES_PER_PART_def BITS_PER_SECTOR_def inode_bytes_def SECTOR_SIZE_def)
  have "b = fst (format_layout part)" using assms(3) by simp
  then have b: "block_bitmap_sects b = of_nat k" "inode_bitmap_sects b = 1" "inode_table_sects b = 608" "dir_entry_size b = 24"
    "block_bitmap_lba b = start_lba part + 2" "inode_bitmap_lba b = start_lba part + 2 + of_nat k"
    "inode_table_lba b = start_lba part + 3 + of_nat k" "data_start_lba b = start_lba part + 611 + of_nat k"
    using kw by (simp_all add: format_layout_def Let_def c free_sects_def r_def dir_entry_bytes_def)
  have "unat (start_lba part + of_nat n) = ?L + n" if "n \<le> 700" for n
    using that assms by (simp add: unat_word_ariths unat_of_nat_u32 del: unsigned_of_nat)
  from this [of 2] this [of "2 + k"] this [of "3 + k"] this [of "611 + k"]
  have u: "unat (start_lba part + 2) = ?L + 2" "unat (start_lba part + 2 + of_nat k) = ?L + 2 + k"
    "unat (start_lba part + 3 + of_nat k) = ?L + 3 + k" "unat (start_lba part + 611 + of_nat k) = ?L + 611 + k"
    using kb(1) by (simp_all add: add.assoc)
  show ?thesis using kb u unfolding b by (intro exI [of _ k]) simp
qed

text \<open>
  C35: \<^verbatim>\<open>partition_format\<close> does not store the root inode. It builds the inode table with the root inode in
  front and hands all of it to one \<^verbatim>\<open>ide_write\<close>, which writes every sector of it to the first sector
  of the table; the last one is left there. For every partition of at least 700 sectors in the range
  of the disk the call returns, the first sector of the inode table is all zero, and the inode stored
  for the root directory has size 0 and no blocks.
\<close>

theorem partition_format_loses_root:
  assumes "700 \<le> unat (sec_cnt part)" and "unat (start_lba part) + unat (sec_cnt part) \<le> unat max_lba"
    and "heap_next s = p # rest" and "p \<noteq> NULL"
  shows "\<exists>s'. partition_format part s = Some s'
    \<and> disk s' (inode_table_lba (fst (format_layout part))) = replicate SECTOR_SIZE 0
    \<and> i_size (decode_inode (disk s' (inode_table_lba (fst (format_layout part)))) 0) = 0
    \<and> i_sectors (decode_inode (disk s' (inode_table_lba (fst (format_layout part)))) 0) = replicate TOTAL_PTRS 0"
proof -
  obtain b bit_len where bl: "format_layout part = (b, bit_len)" by fastforce
  obtain k where k: "k \<le> 40" "1 \<le> k" "block_bitmap_sects b = of_nat k" "inode_bitmap_sects b = 1" "inode_table_sects b = 608"
    and u: "unat (block_bitmap_lba b) = unat (start_lba part) + 2" "unat (inode_bitmap_lba b) = unat (start_lba part) + 2 + k"
    "unat (inode_table_lba b) = unat (start_lba part) + 3 + k" "unat (data_start_lba b) = unat (start_lba part) + 611 + k"
    "611 + k \<le> unat (sec_cnt part)"
    using format_layout_spec [OF assms(1) _ bl] assms(2) by auto
  have le: "start_lba part + 1 \<le> max_lba" "block_bitmap_lba b \<le> max_lba" "inode_bitmap_lba b \<le> max_lba" "inode_table_lba b \<le> max_lba" "data_start_lba b \<le> max_lba"
    using u assms(1,2) by (simp_all add: word_le_nat_alt unat_word_ariths)
  have ne: "inode_table_lba b \<noteq> data_start_lba b" using u by auto
  have "max (max (of_nat k) 1) 608 = (608 :: u32)" using k(1) by (simp add: max_def word_le_nat_alt unat_of_nat_u32 del: unsigned_of_nat)
  then have bs: "unat (max (max (block_bitmap_sects b) (inode_bitmap_sects b)) (inode_table_sects b) * of_nat SECTOR_SIZE) = 608 * 512"
    unfolding k(3-5) by (simp add: SECTOR_SIZE_def)
  let ?root = "(inode_init 0)\<lparr>i_size := dir_entry_size b * 2, i_sectors := (i_sectors (inode_init 0))[0 := data_start_lba b]\<rparr>"
  have "length (encode_inode ?root) = 76" using length_encode_inode [of ?root] by (simp add: inode_init_def inode_bytes_def)
  then have last: "take SECTOR_SIZE (drop (607 * SECTOR_SIZE) (put 0 (encode_inode ?root) (replicate (608 * 512) 0))) = replicate SECTOR_SIZE 0"
    by (simp add: put_def SECTOR_SIZE_def)
  obtain d1 where d1: "ide_write (start_lba part + 1) (encode_super_block b @ replicate 460 0) 1 s = Some (s\<lparr>disk := d1\<rparr>)"
    using ide_write_total [OF le(1)] by blast
  let ?s1 = "s\<lparr>disk := d1, heap_next := rest\<rparr>"
  obtain d2 where d2: "ide_write (block_bitmap_lba b) (format_bitmap (608 * 512) bit_len) (unat (block_bitmap_sects b)) ?s1 = Some (?s1\<lparr>disk := d2\<rparr>)"
    using ide_write_total [OF le(2)] by blast
  obtain d3 where d3: "ide_write (inode_bitmap_lba b) (put 0 [1] (replicate (608 * 512) 0)) (unat (inode_bitmap_sects b)) (?s1\<lparr>disk := d2\<rparr>) = Some (?s1\<lparr>disk := d3\<rparr>)"
    using ide_write_total [OF le(3), of "put 0 [1] (replicate (608 * 512) 0)" "unat (inode_bitmap_sects b)" "?s1\<lparr>disk := d2\<rparr>"] by auto
  define d4 where "d4 = d3(inode_table_lba b := replicate SECTOR_SIZE 0)"
  have d4: "ide_write (inode_table_lba b) (put 0 (encode_inode ?root) (replicate (608 * 512) 0)) (unat (inode_table_sects b)) (?s1\<lparr>disk := d3\<rparr>) = Some (?s1\<lparr>disk := d4\<rparr>)"
    using ide_write_many [OF le(4), of "put 0 (encode_inode ?root) (replicate (608 * 512) 0)" 607 "?s1\<lparr>disk := d3\<rparr>"] unfolding last k(5) by (simp add: d4_def)
  obtain d5 where d5: "ide_write (data_start_lba b) (dot_entries 0 0) 1 (?s1\<lparr>disk := d4\<rparr>) = Some (?s1\<lparr>disk := d5\<rparr>)"
    "\<forall>l. l \<noteq> data_start_lba b \<longrightarrow> d5 l = d4 l"
    using ide_write_total [OF le(5), of "dot_entries 0 0" 1 "?s1\<lparr>disk := d4\<rparr>"] by auto
  have h: "kmalloc (s\<lparr>disk := d1\<rparr>) = (p, s\<lparr>disk := d1, heap_next := rest\<rparr>)" using assms(3) by (simp add: kmalloc_def)
  have "partition_format part s = Some (?s1\<lparr>disk := d5\<rparr>)"
    unfolding partition_format_def bl Let_def prod.case d1 Option.bind.bind_lunit h bs d2 d3 d4 d5(1) using assms(4) by simp
  moreover have z: "d5 (inode_table_lba b) = replicate SECTOR_SIZE 0" using d5(2) ne by (simp add: d4_def)
  moreover note decode_zero
  ultimately show ?thesis unfolding bl fst_conv by (intro exI [of _ "?s1\<lparr>disk := d5\<rparr>"]) simp
qed

theorem partition_format_loses_root_witness:
  "\<exists>s'. partition_format demo_part demo_fs = Some s' \<and> i_size (decode_inode (disk s' (inode_table_lba (fst (format_layout demo_part)))) 0) = 0"
proof -
  have "700 \<le> unat (sec_cnt demo_part)" "unat (start_lba demo_part) + unat (sec_cnt demo_part) \<le> unat max_lba"
    "heap_next demo_fs = 0x1000 # [0x2000, 0x3000, 0x4000]"
    by (simp_all add: demo_part_def demo_fs_def)
  from partition_format_loses_root [OF this] show ?thesis by auto
qed

end
