(* ===== verification/File_session.thy ===== *)
theory File_session
  imports File_content Fs_props
begin

unbundle bit_operations_syntax

text \<open>
  A session on an open file through the system calls: what \<^verbatim>\<open>sys_write\<close> appends, \<^verbatim>\<open>sys_lseek\<close> and \<^verbatim>\<open>sys_read\<close>
  bring back. The proof puts the specifications of \<^verbatim>\<open>file_write\<close> and \<^verbatim>\<open>file_read\<close> together with the
  descriptor handling of \<^verbatim>\<open>fs/fs.c\<close>.
\<close>

lemma direct_readable:
  assumes "alloc_ok a s" and "direct_file (inodes s a)"
  shows "readable (inodes s a) s"
proof -
  let ?i = "inodes s a"
  have sz: "unat (i_size ?i) < 12 * 512" and up: "set_upto ?i (block_count ?i)" using assms(2) by (simp_all add: direct_file_def)
  have "file_ptr ?i s k \<le> max_lba" if k: "k * 512 < unat (i_size ?i)" for k
  proof -
    have k12: "k < 12" using k sz by linarith
    have "i_sectors ?i ! 0 \<noteq> 0" using k assms(2) by (auto simp: direct_file_def)
    then have "k < block_count ?i" using k by (simp add: block_count_def less_Suc_eq_le less_eq_div_iff_mult_less_eq)
    then have "i_sectors ?i ! k \<noteq> 0" using up k12 by (simp add: set_upto_def)
    then show ?thesis using owned_sector(2) [OF assms(1) k12] k12 by (simp add: file_ptr_def)
  qed
  moreover have "length (i_sectors ?i) = TOTAL_PTRS" "\<forall>lba. length (disk s lba) = SECTOR_SIZE"
    using assms(1) by (simp_all add: alloc_ok_def owns_blocks_def fs_layout_def Let_def)
  ultimately show ?thesis using sz by (simp add: readable_def)
qed

text \<open>A descriptor of the running task that is open for reading and writing on an ordinary file.\<close>

definition open_rw :: "u32 \<Rightarrow> u32 \<Rightarrow> 'a fstate_scheme \<Rightarrow> bool" where
  "open_rw fd g s = (3 \<le> unat fd \<and> unat fd < length (fds s) \<and> length (fds s) \<le> 8 \<and> fds s ! unat fd = g \<and> unat g < MAX_FILE_OPEN
     \<and> length (file_table s) = MAX_FILE_OPEN \<and> fd_flag (file_table s ! unat g) = O_RDWR)"

lemma open_rw_kept: "open_rw fd g s \<Longrightarrow> slots_kept s s' \<Longrightarrow> open_rw fd g s'"
  by (simp add: open_rw_def slots_kept_def)

lemma open_rw_facts:
  assumes "open_rw fd g s"
  shows "0 \<le> sint fd" "fd \<noteq> 0" "fd \<noteq> 1" "fd \<noteq> 2" "fd_local2global fd s = Some g" "is_pipe fd s = Some False"
proof -
  have f: "unat fd < 8" "3 \<le> unat fd" "unat g < 32" using assms by (simp_all add: open_rw_def MAX_FILE_OPEN_def)
  have sg: "sint w = int (unat w)" if "unat w < 32" for w :: u32
    using sint_of_nat_small [of "unat w"] that by simp
  show "0 \<le> sint fd" using sg [of fd] f by simp
  show "fd \<noteq> 0" "fd \<noteq> 1" "fd \<noteq> 2" using f by auto
  show g: "fd_local2global fd s = Some g" using assms sg [of g] f(3) nat_less_iff [of "uint g" 32] by (simp add: fd_local2global_def open_rw_def MAX_FILE_OPEN_def)
  show "is_pipe fd s = Some False" using assms g by (simp add: is_pipe_def open_rw_def PIPE_FLAG_def O_RDWR_def)
qed

text \<open>
  C4: what is written to a file comes back. On an open file within its direct blocks, with room for the data on
  the disk, \<^verbatim>\<open>sys_write\<close> of a buffer, \<^verbatim>\<open>sys_lseek\<close> to the start and \<^verbatim>\<open>sys_read\<close> of the whole length all succeed, and
  the bytes read are the old contents of the file followed by the buffer.
\<close>

theorem write_seek_read:
  assumes "open_rw fd g s" and "write_ready g (length buf) s" and "a = fd_inode (file_table s ! unat g)"
    and "old = file_bytes (inodes s a) s" and "old @ buf \<noteq> []"
    and "heap_next s = p # q # p' # q' # rest" and "NULL \<notin> {p, q, p', q'}"
  shows "\<exists>s1 s2 s3. sys_write fd buf s = Some (of_nat (length buf), s1) \<and> sys_lseek fd 0 1 s1 = Some (0, s2)
    \<and> sys_read fd (of_nat (length (old @ buf))) s2 = Some (of_nat (length (old @ buf)), old @ buf, s3)"
proof -
  note o = open_rw_facts [OF assms(1)]
  obtain s1 where s1: "file_write g buf s = Some (of_nat (length buf), s1)" "file_bytes (inodes s1 a) s1 = old @ buf"
    "alloc_ok a s1" "direct_file (inodes s1 a)" "slots_kept s s1" "heap_next s1 = p' # q' # rest"
    using file_write_spec [OF assms(2,3,6)] assms(4,7) by auto
  have "sys_write fd buf s = Some (of_nat (length buf), s1)"
    using assms(1) o s1(1) by (simp add: sys_write_def open_rw_def O_RDWR_def O_WRONLY_def)
  moreover note o1 = open_rw_facts [OF open_rw_kept [OF assms(1) s1(5)]]
  define m where "m = length (old @ buf)"
  let ?i = "inodes s1 a"
  have a1: "fd_inode (file_table s1 ! unat g) = a" "unat g < length (file_table s1)"
    using assms(1,3) s1(5) by (simp_all add: slots_kept_def open_rw_def MAX_FILE_OPEN_def)
  have sz: "unat (i_size ?i) = m" using arg_cong [OF s1(2), of length] by (simp add: file_bytes_def m_def)
  have n: "0 < m" "m < 12 * 512" using assms(5) sz s1(4) by (auto simp: direct_file_def m_def)
  have u: "i_size ?i = of_nat m" "unat (of_nat m :: u32) = m" using arg_cong [OF sz, of "of_nat :: nat \<Rightarrow> u32"] unat_of_nat_u32 [of m] n(2) by simp_all
  have lim: "sint (i_size ?i - 1) = int m - 1"
  proof -
    have "i_size ?i - 1 = of_nat (m - 1)" using n(1) by (simp add: u(1) of_nat_diff)
    then show ?thesis using sint_of_nat_small [of "m - 1"] n by (simp add: of_nat_diff)
  qed
  define s2 where "s2 = upd_slot g (fd_pos_update (\<lambda>_. 0)) s1"
  have s2: "inodes s2 = inodes s1" "disk s2 = disk s1" "heap_next s2 = p' # q' # rest" "fd_pos (file_table s2 ! unat g) = 0"
    "fd_inode (file_table s2 ! unat g) = a" "unat g < length (file_table s2)" "slots_kept s1 s2"
    using a1 s1(6) by (simp_all add: s2_def upd_slot_def set_slot_def slots_kept_def nth_list_update)
  have "sys_lseek fd 0 1 s1 = Some (0, s2)"
    using o1 a1 lim n(1) by (simp add: sys_lseek_def s2_def Let_def)
  moreover have "\<exists>s3. sys_read fd (of_nat m) s2 = Some (of_nat m, old @ buf, s3)"
  proof -
    note o2 = open_rw_facts [OF open_rw_kept [OF open_rw_kept [OF assms(1) s1(5)] s2(7)]]
    have fp: "file_ptr i s2 = file_ptr i s1" for i using s2(2) by (simp add: file_ptr_def fun_eq_iff)
    have rd: "readable (inodes s2 a) s2" using direct_readable [OF s1(3,4)] unfolding readable_def s2(1,2) fp .
    have fb: "file_bytes (inodes s2 a) s2 = old @ buf" using s1(2) s2(1,2) file_bytes_disk [OF s2(2)] by simp
    have "\<exists>s3. file_read g (of_nat m) s2 = Some (of_nat m, old @ buf, s3)"
      using file_read_spec [of "inodes s2 a" s2 g 0 "of_nat m" p' q' rest] rd s2 sz n u(2) assms(7) fb by (auto simp: m_def)
    then show ?thesis using o2 by (simp add: sys_read_def)
  qed
  ultimately show ?thesis unfolding m_def by blast
qed

definition demo_session :: sysstate where
  "demo_session = (fstate.extend demo_open (sysstate.fields (\<lambda>_. \<lparr>producer = NULL, consumer = NULL, ioq_buf = [], ioq_head = 0, ioq_tail = 0\<rparr>)
     \<lparr>producer = NULL, consumer = NULL, ioq_buf = [], ioq_head = 0, ioq_tail = 0\<rparr> [] 0 0))\<lparr>fds := [0, 1, 2, 0, - 1, - 1, - 1, - 1]\<rparr>"

lemma demo_session_fields:
  "disk demo_session = disk demo_open" "cur_part demo_session = cur_part demo_open" "inodes demo_session = inodes demo_open"
  "file_table demo_session = file_table demo_open" "heap_next demo_session = heap_next demo_open"
  "fds demo_session = [0, 1, 2, 0, - 1, - 1, - 1, - 1]"
  by (simp_all add: demo_session_def demo_open_def demo_fs_def fstate.defs sysstate.defs)

lemma write_ready_cong:
  assumes "disk s' = disk s" and "cur_part s' = cur_part s" and "inodes s' = inodes s" and "file_table s' = file_table s"
  shows "write_ready fd n s' = write_ready fd n s"
proof -
  have "fs_layout s' = fs_layout s" "blocks s' = blocks s" "block_used s' = block_used s" "data_lba s' = data_lba s" "free_blocks s' = free_blocks s"
    using assms by (simp_all add: fs_layout_def Let_def blocks_def block_used_def data_lba_def free_blocks_def fun_eq_iff)
  then show ?thesis using assms by (simp add: write_ready_def alloc_ok_def owns_blocks_def)
qed

theorem write_seek_read_witness:
  "\<exists>s1 s2 s3. sys_write 3 [7, 8, 9] demo_session = Some (3, s1) \<and> sys_lseek 3 0 1 s1 = Some (0, s2) \<and> sys_read 3 3 s2 = Some (3, [7, 8, 9], s3)"
proof -
  have "open_rw 3 0 demo_session"
    by (simp add: open_rw_def demo_session_fields MAX_FILE_OPEN_def, simp add: demo_open_def O_RDWR_def)
  moreover have "write_ready 0 (length [7, 8, 9 :: u8]) demo_session"
    using demo_open_ready write_ready_cong [OF demo_session_fields(1-4)] by (simp add: numeral_3_eq_3)
  moreover have "file_bytes (inodes demo_session 0x9000) demo_session = []" "fd_inode (file_table demo_session ! unat (0 :: u32)) = 0x9000"
    "heap_next demo_session = 0x1000 # 0x2000 # 0x3000 # 0x4000 # []"
    by (simp_all add: demo_session_fields demo_open_def demo_fs_def file_bytes_def demo_inode_def)
  ultimately show ?thesis
    using write_seek_read [of 3 0 demo_session "[7, 8, 9]" "0x9000" "[]" "0x1000" "0x2000" "0x3000" "0x4000" "[]"] by simp
qed

end
