(* ===== verification/Dir_content.thy ===== *)
theory Dir_content
  imports Dir
begin

text \<open>
  Directories as tables of names: an entry that \<^verbatim>\<open>sync_dir_entry\<close> adds is the one that
  \<^verbatim>\<open>search_dir_entry\<close> finds, and removing the last entry of an indirect block does not end.
\<close>

section \<open>Strings and entries in a block\<close>

lemma cstr_at_prefix: "cstr_at p off = Some x \<Longrightarrow> cstr_at (p @ r) off = Some x"
  by (cases "off \<le> length p") (auto simp: cstr_at_def Let_def takeWhile_append1 split: if_splits)

lemma find_name_skip:
  "find_name n j name p = Some None \<Longrightarrow> find_name (n + m) j name (p @ r) = find_name m (j + n) name (p @ r)"
proof (induction n arbitrary: j)
  case (Suc n)
  then obtain x where x: "cstr_at p (dir_entry_bytes * j) = Some x" "x \<noteq> name" "find_name n (Suc j) name p = Some None"
    by (auto split: bind_splits if_splits)
  then show ?case using Suc.IH [OF x(3)] cstr_at_prefix [OF x(1)] by simp
qed simp

lemma find_unused_found: "find_unused n j buf = Some k \<Longrightarrow> j \<le> k \<and> k < j + n"
  by (induction n arbitrary: j) (force split: if_splits)+

lemma entry_name:
  assumes "length name < MAX_FILE_NAME_LEN" and "0 \<notin> set name" and "create_dir_entry name ino ty = Some de"
  shows "length (filename de) = MAX_FILE_NAME_LEN" and "cstr_at (p @ encode_dir_entry de @ r) (length p) = Some name"
proof -
  have f: "filename de = name @ replicate (MAX_FILE_NAME_LEN - length name) 0" "length name \<le> MAX_FILE_NAME_LEN"
    using assms(3) by (auto simp: create_dir_entry_def split: if_splits)
  then show "length (filename de) = MAX_FILE_NAME_LEN" by simp
  obtain m where m: "MAX_FILE_NAME_LEN - length name = Suc m" using assms(1) by (metis Suc_diff_Suc)
  have "takeWhile (\<lambda>b. b \<noteq> 0) (name @ 0 # ys) = name" for ys :: "u8 list"
    using assms(2) by (subst takeWhile_append2) auto
  then show "cstr_at (p @ encode_dir_entry de @ r) (length p) = Some name"
    by (simp add: cstr_at_def Let_def encode_dir_entry_def f(1) m)
qed

lemma length_encode_dir_entry: "length (filename de) = MAX_FILE_NAME_LEN \<Longrightarrow> length (encode_dir_entry de) = dir_entry_bytes"
  by (simp add: encode_dir_entry_def MAX_FILE_NAME_LEN_def dir_entry_bytes_def)

text \<open>A block after an entry was put into its slot \<open>k\<close>.\<close>

lemma find_added:
  assumes "length buf = SECTOR_SIZE" and "k < n" and "n = SECTOR_SIZE div dir_entry_bytes"
    and "find_name k 0 name (take (dir_entry_bytes * k) buf) = Some None"
    and "length name < MAX_FILE_NAME_LEN" and "0 \<notin> set name" and "create_dir_entry name ino ty = Some de"
  shows "find_name n 0 name (put (dir_entry_bytes * k) (encode_dir_entry de) buf) = Some (Some de)"
    and "length (put (dir_entry_bytes * k) (encode_dir_entry de) buf) = SECTOR_SIZE"
proof -
  let ?p = "take (dir_entry_bytes * k) buf" and ?r = "drop (dir_entry_bytes * k + length (encode_dir_entry de)) buf"
  note f = entry_name [OF assms(5-7)]
  have fits: "dir_entry_bytes * k + length (encode_dir_entry de) \<le> length buf"
    using assms(1-3) length_encode_dir_entry [OF f(1)] by (simp add: SECTOR_SIZE_def dir_entry_bytes_def)
  then have lp: "length ?p = dir_entry_bytes * k" by simp
  have n: "n = k + Suc (n - k - 1)" using assms(2) by simp
  have "find_name n 0 name (?p @ encode_dir_entry de @ ?r) = find_name (Suc (n - k - 1)) k name (?p @ encode_dir_entry de @ ?r)"
    using find_name_skip [OF assms(4), of "Suc (n - k - 1)"] n by simp
  moreover have "cstr_at (?p @ encode_dir_entry de @ ?r) (dir_entry_bytes * k) = Some name" using f(2) [of ?p] unfolding lp .
  moreover have "decode_dir_entry (?p @ encode_dir_entry de @ ?r) (dir_entry_bytes * k) = de"
    using lp by (intro decode_encode_dir_entry [OF f(1)]) simp
  ultimately show "find_name n 0 name (put (dir_entry_bytes * k) (encode_dir_entry de) buf) = Some (Some de)"
    by (simp add: put_def)
  show "length (put (dir_entry_bytes * k) (encode_dir_entry de) buf) = SECTOR_SIZE" using length_put [OF fits] assms(1) by simp
qed

section \<open>Adding an entry and finding it\<close>

text \<open>
  Where the entry goes: the blocks before \<open>b\<close> are full and do not hold the name, block \<open>b\<close> has its
  first free slot at \<open>k\<close> and does not hold the name before it.
\<close>

definition free_place :: "u32 list \<Rightarrow> nat \<Rightarrow> nat \<Rightarrow> u8 list \<Rightarrow> 'a fstate_scheme \<Rightarrow> bool" where
  "free_place sec b k name s = (b < 12 \<and> (\<forall>j\<le>b. sec ! j \<noteq> 0 \<and> sec ! j \<le> max_lba) \<and> (\<forall>j<b. sec ! j \<noteq> sec ! b)
     \<and> (\<forall>j<b. find_unused 21 0 (disk s (sec ! j)) = None \<and> find_name 21 0 name (disk s (sec ! j)) = Some None)
     \<and> find_unused 21 0 (disk s (sec ! b)) = Some k
     \<and> find_name k 0 name (take (dir_entry_bytes * k) (disk s (sec ! b))) = Some None)"

lemma per_sec: "fs_layout s \<Longrightarrow> dir_entrys_per_sec s = Some 21"
  by (simp add: dir_entrys_per_sec_def fs_layout_def Let_def SECTOR_SIZE_def dir_entry_bytes_def)

lemma sync_loop_place:
  assumes "fs_layout s" and "free_place sec b k name s" and "\<forall>j<12. B ! j = sec ! j" and "i \<le> b"
  shows "sync_loop a de B hf i s = do {
     s \<leftarrow> ide_write (sec ! b) (put (dir_entry_bytes * k) (encode_dir_entry de) (disk s (sec ! b))) 1 s;
     Some (True, grow_inode a (of_nat dir_entry_bytes) s) }"
  using assms(4)
proof (induction "b - i" arbitrary: i)
  case 0
  then have "i = b" by simp
  then show ?case using assms(1-3) per_sec [OF assms(1)]
    by (subst sync_loop.simps) (simp add: free_place_def FLATTEN_PTRS_def DIRECT_PTRS_def)
next
  case (Suc m)
  then have i: "i < b" by simp
  then have "sync_loop a de B hf i s = sync_loop a de B hf (i + 1) s" using assms(1-3) per_sec [OF assms(1)]
    by (subst sync_loop.simps) (simp add: free_place_def FLATTEN_PTRS_def DIRECT_PTRS_def)
  then show ?case using Suc.hyps(1) [of "i + 1"] Suc.hyps(2) i by simp
qed

lemma search_blocks_place:
  assumes "b < length ls" and "\<forall>j\<le>b. ls ! j \<noteq> 0 \<and> ls ! j \<le> max_lba" and "\<forall>j<b. find_name n 0 name (disk s (ls ! j)) = Some None"
    and "find_name n 0 name (disk s (ls ! b)) = Some (Some de)"
  shows "search_blocks ls n name s = Some (Some de)"
  using assms
proof (induction ls arbitrary: b)
  case (Cons l ls)
  have l: "l \<noteq> 0" "l \<le> max_lba" using Cons.prems(2) by auto
  show ?case
  proof (cases b)
    case 0
    then show ?thesis using l Cons.prems(4) by simp
  next
    case (Suc c)
    have "\<forall>j\<le>c. ls ! j \<noteq> 0 \<and> ls ! j \<le> max_lba" "\<forall>j<c. find_name n 0 name (disk s (ls ! j)) = Some None"
      using Cons.prems(2,3) [rule_format, of "Suc j" for j] Suc by simp_all
    then have "search_blocks ls n name s = Some (Some de)" using Cons.IH [of c] Cons.prems(1,4) Suc by simp
    then show ?thesis using l Cons.prems(3) Suc by auto
  qed
qed simp

text \<open>
  C10: a directory entry that was added is found. In a directory whose first block with a free slot is a
  direct one, \<^verbatim>\<open>sync_dir_entry\<close> returns true, writes the entry into that slot and nothing else on the
  disk, and the directory grows by one entry; when the name was not in the directory up to there,
  \<^verbatim>\<open>search_dir_entry\<close> then finds exactly that entry.
\<close>

theorem dir_entry_added_is_found:
  assumes "fs_layout s" and "a = dir_inode (dirs s pdir)" and "sec = i_sectors (inodes s a)" and "length sec = TOTAL_PTRS"
    and "sec ! DIRECT_PTRS = 0" and "free_place sec b k name s" and "i_size (inodes s a) mod 24 = 0"
    and "length name < MAX_FILE_NAME_LEN" and "0 \<notin> set name" and "create_dir_entry name ino ty = Some de"
    and "heap_next s = p # q # rest" and "p \<noteq> NULL" and "q \<noteq> NULL"
  shows "\<exists>s1 s2. sync_dir_entry pdir de s = Some (True, s1) \<and> search_dir_entry pdir name s1 = Some (Some de, s2)
    \<and> disk s1 = (disk s)(sec ! b := put (24 * k) (encode_dir_entry de) (disk s (sec ! b)))
    \<and> i_size (inodes s1 a) = i_size (inodes s a) + 24"
proof -
  let ?new = "put (dir_entry_bytes * k) (encode_dir_entry de) (disk s (sec ! b))"
  let ?B = "take DIRECT_PTRS sec @ replicate (FLATTEN_PTRS - DIRECT_PTRS) 0"
  have fp: "b < 12" "\<forall>j\<le>b. sec ! j \<noteq> 0 \<and> sec ! j \<le> max_lba" "\<forall>j<b. sec ! j \<noteq> sec ! b"
    "\<forall>j<b. find_name 21 0 name (disk s (sec ! j)) = Some None" "find_unused 21 0 (disk s (sec ! b)) = Some k"
    "find_name k 0 name (take (dir_entry_bytes * k) (disk s (sec ! b))) = Some None"
    using assms(6) by (simp_all add: free_place_def)
  have len: "length (disk s (sec ! b)) = SECTOR_SIZE" using assms(1) by (simp add: fs_layout_def Let_def)
  have k: "k < 21" "21 = SECTOR_SIZE div dir_entry_bytes" using find_unused_found [OF fp(5)] by (simp_all add: SECTOR_SIZE_def dir_entry_bytes_def)
  note new = find_added [OF len k fp(6) assms(8-10)]
  have B: "\<forall>j<12. ?B ! j = sec ! j" using assms(4) by (simp add: nth_append DIRECT_PTRS_def TOTAL_PTRS_def)
  let ?s = "s\<lparr>disk := (disk s)(sec ! b := ?new)\<rparr>"
  define s1 where "s1 = grow_inode a (of_nat dir_entry_bytes) ?s"
  have w: "ide_write (sec ! b) ?new 1 s = Some ?s" using fp(2) new(2) by simp
  have sync: "sync_dir_entry pdir de s = Some (True, s1)"
    unfolding sync_dir_entry_def Let_def assms(2) [symmetric] assms(3) [symmetric] per_sec [OF assms(1)]
    using sync_loop_place [OF assms(1,6) B, of 0 a de False] assms(7) w by (simp add: dir_entry_bytes_def s1_def)
  have s1: "inodes s1 a = (inodes s a)\<lparr>i_size := i_size (inodes s a) + 24\<rparr>" "disk s1 = (disk s)(sec ! b := ?new)" "cur_part s1 = cur_part s"
    "dirs s1 = dirs s" "heap_next s1 = p # q # rest"
    using assms(11) by (simp_all add: s1_def grow_inode_def upd_inode_def dir_entry_bytes_def)
  let ?t = "s1\<lparr>heap_next := rest\<rparr>"
  have fl: "flatten_ptrs (inodes s1 a) (s1\<lparr>heap_next := q # rest\<rparr>) = Some ?B"
    using assms(3,5) by (simp add: flatten_ptrs_def s1)
  have "search_blocks ?B 21 name ?t = Some (Some de)"
  proof (rule search_blocks_place [of b])
    show "b < length ?B" using fp(1) assms(4) by (simp add: DIRECT_PTRS_def TOTAL_PTRS_def)
    show "\<forall>j\<le>b. ?B ! j \<noteq> 0 \<and> ?B ! j \<le> max_lba" using fp(1,2) B by simp
    show "\<forall>j<b. find_name 21 0 name (disk ?t (?B ! j)) = Some None" using fp(1,3,4) B by (simp add: s1)
    show "find_name 21 0 name (disk ?t (?B ! b)) = Some (Some de)" using fp(1) B new(1) by (simp add: s1)
  qed
  moreover have "dir_entrys_per_sec ?t = Some 21" using per_sec [OF assms(1)] by (simp add: dir_entrys_per_sec_def s1)
  ultimately have "search_dir_entry pdir name s1 = Some (Some de, ?t)"
    using fl assms(2,12,13) by (simp add: search_dir_entry_def kmalloc_def s1)
  then show ?thesis using sync s1(1,2) by (intro exI [of _ s1] exI [of _ ?t]) (simp add: dir_entry_bytes_def)
qed

definition demo_dir :: fstate where
  "demo_dir = demo_fs\<lparr>inodes := (\<lambda>_. demo_inode\<lparr>i_sectors := 700 # replicate 12 0\<rparr>)\<rparr>"

theorem dir_entry_added_is_found_witness:
  "\<exists>s1 s2. sync_dir_entry 0xd000 \<lparr>filename = [97] @ replicate 15 0, de_i_no = 5, f_type = 1\<rparr> demo_dir = Some (True, s1)
     \<and> search_dir_entry 0xd000 [97] s1 = Some (Some \<lparr>filename = [97] @ replicate 15 0, de_i_no = 5, f_type = 1\<rparr>, s2)"
proof -
  let ?sec = "700 # replicate 12 0 :: u32 list"
  have lay: "fs_layout demo_dir" using demo_fs_layout by (simp add: fs_layout_def demo_dir_def)
  have i: "dir_inode (dirs demo_dir 0xd000) = 0x1000" "inodes demo_dir 0x1000 = demo_inode\<lparr>i_sectors := ?sec\<rparr>"
    "heap_next demo_dir = 0x1000 # 0x2000 # [0x3000, 0x4000]" "disk demo_dir = (\<lambda>_. replicate SECTOR_SIZE 0)"
    by (simp_all add: demo_dir_def demo_fs_def)
  have fp: "free_place ?sec 0 0 [97] demo_dir"
    unfolding free_place_def i(4) using find_unused.simps(2) [of 20 0 "replicate SECTOR_SIZE 0"]
    by (simp add: word_le_nat_alt decode_dir_entry_def get32_def SECTOR_SIZE_def)
  have c: "create_dir_entry [97] 5 1 = Some \<lparr>filename = [97] @ replicate 15 0, de_i_no = 5, f_type = 1\<rparr>"
    by (simp add: create_dir_entry_def MAX_FILE_NAME_LEN_def)
  from dir_entry_added_is_found [OF lay i(1) [symmetric] _ _ _ fp _ _ _ c i(3)] i show ?thesis
    by (auto simp: demo_inode_def TOTAL_PTRS_def DIRECT_PTRS_def MAX_FILE_NAME_LEN_def)
qed

section \<open>Removing the last entry of an indirect block\<close>

lemma count_indirect_end:
  assumes "count_indirect all_blocks idx cnt = Some n"
  shows "FLATTEN_PTRS \<le> idx"
  by (rule count_indirect.raw_induct [where P = "\<lambda>all_blocks idx cnt n. FLATTEN_PTRS \<le> idx", OF _ assms])
    (auto split: if_splits)

text \<open>
  C36: removing the only entry of an indirect directory block does not end. The loop that counts the
  indirect blocks does not advance its index, so from index 12 it never reaches its bound, and
  \<^verbatim>\<open>delete_dir_entry\<close> does not return in any directory where the entry is found alone in such a block.
\<close>

theorem indirect_delete_never_returns:
  assumes "DIRECT_PTRS \<le> blk_i" and "blk_i < FLATTEN_PTRS" and "all_blocks ! blk_i \<noteq> 0" and "ide_read (all_blocks ! blk_i) 1 s = Some buf"
    and "dir_entrys_per_sec s = Some n" and "count_entries n 0 inode_no buf False 0 None = Some (False, 1, Some k)"
  shows "count_indirect all_blocks DIRECT_PTRS 0 = None \<and> delete_loop a inode_no room all_blocks blk_i s = None"
proof -
  have c: "count_indirect all_blocks DIRECT_PTRS 0 = None"
    using count_indirect_end [of all_blocks DIRECT_PTRS 0] by (cases "count_indirect all_blocks DIRECT_PTRS 0") (auto simp: DIRECT_PTRS_def FLATTEN_PTRS_def)
  then have "drop_block a all_blocks blk_i s = None" using assms(1) by (auto simp: drop_block_def Let_def split: bind_splits)
  then show ?thesis using c assms(2-6) by (subst delete_loop.simps) simp
qed

lemma count_entries_unused:
  "\<forall>j. k \<le> j \<and> j < k + n \<longrightarrow> f_type (decode_dir_entry buf (dir_entry_bytes * j)) = FT_UNKNOWN \<Longrightarrow>
     count_entries n k inode_no buf f c found = Some (f, c, found)"
  by (induction n arbitrary: k) simp_all

definition demo_entry_sector :: sector where
  "demo_entry_sector = [97] @ replicate 15 0 @ [5, 0, 0, 0] @ [1, 0, 0, 0] @ replicate 488 0"

lemma demo_entry_count: "count_entries 21 0 5 demo_entry_sector False 0 None = Some (False, 1, Some 0)"
proof -
  have z: "demo_entry_sector ! j = 0" if "24 \<le> j" "j < 512" for j using that by (simp add: demo_entry_sector_def nth_append)
  have "f_type (decode_dir_entry demo_entry_sector (dir_entry_bytes * j)) = FT_UNKNOWN" if "1 \<le> j" "j < 21" for j
    using that by (simp add: decode_dir_entry_def dir_entry_bytes_def get32_def z)
  then have "count_entries 20 1 5 demo_entry_sector False 1 (Some 0) = Some (False, 1, Some 0)" by (intro count_entries_unused) auto
  moreover have "f_type (decode_dir_entry demo_entry_sector 0) = 1" "de_i_no (decode_dir_entry demo_entry_sector 0) = 5"
    by (simp_all add: decode_dir_entry_def demo_entry_sector_def get32_def nth_append)
  moreover have "cstr_at demo_entry_sector 0 = Some [97]" by (simp add: cstr_at_def demo_entry_sector_def)
  ultimately show ?thesis using count_entries.simps(2) [of 20 0 5 demo_entry_sector False 0 None] by (simp add: dot_def dotdot_def)
qed

theorem indirect_delete_never_returns_witness:
  "delete_loop 0x1000 5 1024 ((replicate 140 0)[12 := 700]) 12 (demo_fs\<lparr>disk := (\<lambda>_. demo_entry_sector)\<rparr>) = None"
proof -
  let ?s = "demo_fs\<lparr>disk := (\<lambda>_. demo_entry_sector)\<rparr>"
  have r: "ide_read ((replicate 140 0)[12 := 700] ! 12) 1 ?s = Some demo_entry_sector" by (simp add: word_le_nat_alt)
  have n: "dir_entrys_per_sec ?s = Some 21" using per_sec [OF demo_fs_layout] by (simp add: dir_entrys_per_sec_def)
  from indirect_delete_never_returns [OF _ _ _ r n demo_entry_count, of "0x1000" 1024] show ?thesis by (simp add: DIRECT_PTRS_def FLATTEN_PTRS_def)
qed

end
