(* ===== verification/Process.thy ===== *)
theory Process
  imports Memory Fs
begin

unbundle bit_operations_syntax

text \<open>
  Processes: the pid pool of \<^verbatim>\<open>thread/pid.c\<close>, task creation and exit of \<^verbatim>\<open>thread/thread.c\<close>,
  \<^verbatim>\<open>userprog/process.c\<close>, \<^verbatim>\<open>userprog/fork.c\<close> and \<^verbatim>\<open>userprog/wait_exit.c\<close>.

  The state puts the kernel's memory and tasks together with the file system. \<open>frames\<close> holds the
  interrupt frames (\<^verbatim>\<open>struct intr_stack\<close>) by the address where they lie on a kernel stack, \<open>ubm_addr\<close>
  the address of the bits of a process's page bitmap, whose contents are in its task. The functions
  \<^verbatim>\<open>start_process\<close> and \<^verbatim>\<open>idle\<close> and the program \<^verbatim>\<open>init\<close> are known by their entry addresses, which the
  linker chooses: they are arguments.
\<close>

section \<open>The state\<close>

record intr_stack =
  f_edi :: u32
  f_esi :: u32
  f_ebp :: u32
  f_esp_dummy :: u32
  f_ebx :: u32
  f_edx :: u32
  f_ecx :: u32
  f_eax :: u32
  f_gs :: u32
  f_fs :: u32
  f_es :: u32
  f_ds :: u32
  f_eip :: u32
  f_cs :: u32
  f_eflags :: u32
  f_esp :: u32
  f_ss :: u32

record pstate = mstate +
  pid_bitmap :: bitmap
  pid_start :: u32
  pid_lock :: addr
  frames :: "addr \<Rightarrow> intr_stack"
  ubm_addr :: "addr \<Rightarrow> addr"
  fsys :: sysstate

definition intr_stack_size :: u32 where "intr_stack_size = 76"
definition thread_stack_size :: u32 where "thread_stack_size = 32"
definition USER_VADDR_START :: u32 where "USER_VADDR_START = 0x8048000"
definition USER_STACK3_VADDR :: u32 where "USER_STACK3_VADDR = 0xc0000000 - 0x1000"
definition default_prio :: u8 where "default_prio = 31"

section \<open>Process numbers\<close>

definition pid_pool_init :: "'a pstate_scheme \<Rightarrow> 'a pstate_scheme" where
  "pid_pool_init s =
     lock_init (pid_lock s) (s\<lparr>pid_start := 1, pid_bitmap := bitmap_init \<lparr>btmp_bytes_len = 128, bits = bits (pid_bitmap s)\<rparr>\<rparr>)"

text \<open>
  The search result is not tested: without a free number \<^verbatim>\<open>bitmap_set\<close> gets index \<open>-1\<close>, half a
  gigabyte behind the 128 bytes of the map.
\<close>

definition allocate_pid :: "'a pstate_scheme \<Rightarrow> (u16 \<times> 'a pstate_scheme) option" where
  "allocate_pid s = do {
     s \<leftarrow> lock_acquire_now (pid_lock s) s;
     bit_idx \<leftarrow> bitmap_scan (pid_bitmap s) 1;
     ASSERT (bit_idx \<noteq> - 1);
     b \<leftarrow> bitmap_set (pid_bitmap s) (nat bit_idx) 1;
     let s = s\<lparr>pid_bitmap := b\<rparr>;
     s \<leftarrow> lock_release_now (pid_lock s) s;
     Some (of_int (bit_idx + uint (pid_start s)), s)
   }"

definition release_pid :: "u16 \<Rightarrow> 'a pstate_scheme \<Rightarrow> 'a pstate_scheme option" where
  "release_pid p s = do {
     s \<leftarrow> lock_acquire_now (pid_lock s) s;
     let bit_idx = ucast p - pid_start s;
     b \<leftarrow> bitmap_set (pid_bitmap s) (unat bit_idx) 0;
     lock_release_now (pid_lock s) (s\<lparr>pid_bitmap := b\<rparr>)
   }"

section \<open>Task control blocks\<close>

text \<open>\<^verbatim>\<open>memset\<close> of a whole \<^verbatim>\<open>struct task_struct\<close>: its fields, its tags and its block descriptors.\<close>

definition zero_task :: task_struct where
  "zero_task = \<lparr>self_kstack = 0, pid = 0, status = TASK_RUNNING, tname = replicate 16 0, priority = 0, ticks = 0,
     elapsed_ticks = 0, fd_table = replicate 8 0, pgdir = NULL,
     userprog_vaddr = \<lparr>vaddr_bitmap = \<lparr>btmp_bytes_len = 0, bits = (\<lambda>_. 0)\<rparr>, vaddr_start = 0\<rparr>,
     cwd_inode_nr = 0, parent_pid = 0, exit_status = 0, stack_magic = 0\<rparr>"

definition task_links :: "addr \<Rightarrow> addr set" where
  "task_links t = {general_tag t, all_list_tag t} \<union> (\<Union>i<DESC_CNT. {free_list (desc_addr (u_block_desc t) i), list_tail (free_list (desc_addr (u_block_desc t) i))})"

definition clear_task :: "addr \<Rightarrow> 'a pstate_scheme \<Rightarrow> 'a pstate_scheme" where
  "clear_task t s = s\<lparr>task := (task s)(t := zero_task),
     lnext := (\<lambda>a. if a \<in> task_links t then NULL else lnext s a),
     lprev := (\<lambda>a. if a \<in> task_links t then NULL else lprev s a),
     block_size := (\<lambda>a. if a \<in> desc_addr (u_block_desc t) ` {..<DESC_CNT} then 0 else block_size s a),
     blocks_per_arena := (\<lambda>a. if a \<in> desc_addr (u_block_desc t) ` {..<DESC_CNT} then 0 else blocks_per_arena s a),
     ubm_addr := (ubm_addr s)(t := NULL)\<rparr>"

definition init_task :: "addr \<Rightarrow> u8 list \<Rightarrow> u8 \<Rightarrow> 'a pstate_scheme \<Rightarrow> 'a pstate_scheme option" where
  "init_task pthread name prio s = do {
     ASSERT (pthread \<noteq> NULL);
     let s = clear_task pthread s;
     ASSERT (length name < 16);
     (p, s) \<leftarrow> allocate_pid s;
     Some (upd_task pthread (\<lambda>t. t\<lparr>tname := name @ replicate (16 - length name) 0, pid := p,
         status := (if pthread = main_thread s then TASK_RUNNING else TASK_READY), priority := prio,
         self_kstack := pthread + of_nat PG_SIZE, ticks := prio, elapsed_ticks := 0, pgdir := NULL,
         fd_table := [0, 1, 2, - 1, - 1, - 1, - 1, - 1], cwd_inode_nr := 0, parent_pid := - 1, stack_magic := 0x20021225\<rparr>) s)
   }"

text \<open>
  \<^verbatim>\<open>self_kstack\<close> points to words, so both sizes count four times: 432 bytes are reserved. What lies
  there is the frame that \<^verbatim>\<open>switch_to\<close> pops and returns from into \<^verbatim>\<open>kernel_thread\<close>.
\<close>

definition thread_stack_init :: "addr \<Rightarrow> addr \<Rightarrow> addr \<Rightarrow> 'a pstate_scheme \<Rightarrow> 'a pstate_scheme" where
  "thread_stack_init pthread function func_arg s =
     (let s = upd_task pthread (\<lambda>t. t\<lparr>self_kstack := self_kstack t - (intr_stack_size + thread_stack_size) * 4\<rparr>) s
      in s\<lparr>konts := (konts s)(pthread := [Start function func_arg])\<rparr>)"

text \<open>Both lists, as at the end of every function that makes a task.\<close>

definition enqueue_task :: "addr \<Rightarrow> 'a kstate_scheme \<Rightarrow> 'a kstate_scheme option" where
  "enqueue_task t s = do {
     found \<leftarrow> elem_find (thread_ready_list s) (general_tag t) s;
     ASSERT (\<not> found);
     let s = list_append (thread_ready_list s) (general_tag t) s;
     found \<leftarrow> elem_find (thread_all_list s) (all_list_tag t) s;
     ASSERT (\<not> found);
     Some (list_append (thread_all_list s) (all_list_tag t) s)
   }"

definition thread_create :: "u8 list \<Rightarrow> u8 \<Rightarrow> addr \<Rightarrow> addr \<Rightarrow> 'a pstate_scheme \<Rightarrow> (addr \<times> 'a pstate_scheme) option" where
  "thread_create name prio function func_arg s = do {
     (thread, s) \<leftarrow> get_kernel_pages 1 s;
     s \<leftarrow> init_task thread name prio s;
     s \<leftarrow> enqueue_task thread (thread_stack_init thread function func_arg s);
     Some (thread, s)
   }"

definition make_main_thread :: "'a pstate_scheme \<Rightarrow> 'a pstate_scheme option" where
  "make_main_thread s = do {
     let s = s\<lparr>main_thread := running_thread s\<rparr>;
     s \<leftarrow> init_task (main_thread s) [0x6d, 0x61, 0x69, 0x6e] 31 s;
     found \<leftarrow> elem_find (thread_all_list s) (all_list_tag (main_thread s)) s;
     ASSERT (\<not> found);
     Some (list_append (thread_all_list s) (all_list_tag (main_thread s)) s)
   }"

text \<open>
  The page of the task is given back before its pid is read from it; the removed page table entry
  is still in the translation buffer, because \<^verbatim>\<open>page_table_pte_remove\<close> invalidates another address.
\<close>

definition thread_exit :: "addr \<Rightarrow> bool \<Rightarrow> 'a pstate_scheme \<Rightarrow> 'a pstate_scheme option" where
  "thread_exit pthread need_schedule s = do {
     let (_, s) = intr_disable s;
     let s = upd_task pthread (\<lambda>t. t\<lparr>status := TASK_DIED\<rparr>) s;
     s \<leftarrow> (if pgdir (task s pthread) \<noteq> NULL then mfree_page PF_KERNEL (pgdir (task s pthread)) 1 s else Some s);
     found \<leftarrow> elem_find (thread_ready_list s) (general_tag pthread) s;
     let s = (if found then list_remove (general_tag pthread) s else s);
     let s = list_remove (all_list_tag pthread) s;
     s \<leftarrow> (if pthread \<noteq> main_thread s then mfree_page PF_KERNEL pthread 1 s else Some s);
     s \<leftarrow> release_pid (pid (task s pthread)) s;
     if need_schedule then schedule s else Some s
   }"

section \<open>Address spaces\<close>

primrec copy_words :: "nat \<Rightarrow> addr \<Rightarrow> addr \<Rightarrow> 'a vmstate_scheme \<Rightarrow> 'a vmstate_scheme option" where
  "copy_words 0 dst src s = Some s"
| "copy_words (Suc n) dst src s = do { v \<leftarrow> load32 src s; s \<leftarrow> store32 dst v s; copy_words n (dst + 4) (src + 4) s }"

definition create_page_dir :: "'a pstate_scheme \<Rightarrow> (addr \<times> 'a pstate_scheme) option" where
  "create_page_dir s = do {
     (page_dir_vaddr, s) \<leftarrow> get_kernel_pages 1 s;
     if page_dir_vaddr = NULL then Some (NULL, s)
     else do {
       s \<leftarrow> copy_words 256 (page_dir_vaddr + 0x300 * 4) (0xfffff000 + 0x300 * 4) s;
       new_page_dir_phy_addr \<leftarrow> addr_v2p page_dir_vaddr s;
       s \<leftarrow> store32 (page_dir_vaddr + 1023 * 4) (new_page_dir_phy_addr OR PG_US_U OR PG_RW_W OR PG_P_1) s;
       Some (page_dir_vaddr, s)
     }
   }"

definition user_bitmap_bytes :: u32 where
  "user_bitmap_bytes = (0xc0000000 - USER_VADDR_START) div of_nat PG_SIZE div 8"

definition bitmap_pg_cnt :: u32 where
  "bitmap_pg_cnt = (user_bitmap_bytes + of_nat PG_SIZE - 1) div of_nat PG_SIZE"

definition create_user_vaddr_bitmap :: "addr \<Rightarrow> 'a pstate_scheme \<Rightarrow> 'a pstate_scheme option" where
  "create_user_vaddr_bitmap user_prog s = do {
     (p, s) \<leftarrow> get_kernel_pages bitmap_pg_cnt s;
     ASSERT (p \<noteq> NULL);
     Some (upd_task user_prog (\<lambda>t. t\<lparr>userprog_vaddr := \<lparr>vaddr_bitmap = bitmap_init \<lparr>btmp_bytes_len = unat user_bitmap_bytes, bits = (\<lambda>_. 0)\<rparr>,
         vaddr_start = USER_VADDR_START\<rparr>\<rparr>) (s\<lparr>ubm_addr := (ubm_addr s)(user_prog := p)\<rparr>))
   }"

definition process_execute :: "addr \<Rightarrow> addr \<Rightarrow> u8 list \<Rightarrow> 'a pstate_scheme \<Rightarrow> 'a pstate_scheme option" where
  "process_execute start_process_entry userprog name s = do {
     (thread, s) \<leftarrow> get_kernel_pages 1 s;
     s \<leftarrow> init_task thread name default_prio s;
     s \<leftarrow> create_user_vaddr_bitmap thread s;
     let s = thread_stack_init thread start_process_entry userprog s;
     (pd, s) \<leftarrow> create_page_dir s;
     let s = upd_task thread (\<lambda>t. t\<lparr>pgdir := pd\<rparr>) s;
     let s = block_desc_init (u_block_desc thread) s;
     let (old_status, s) = intr_disable s;
     s \<leftarrow> enqueue_task thread s;
     Some (snd (intr_set_status old_status s))
   }"

definition SELECTOR_U_DATA :: u32 where "SELECTOR_U_DATA = push_bit 3 6 + push_bit 2 0 + 3"
definition SELECTOR_U_CODE :: u32 where "SELECTOR_U_CODE = push_bit 3 5 + push_bit 2 0 + 3"

text \<open>
  \<^verbatim>\<open>start_process\<close> leaves its own stack: it jumps to \<^verbatim>\<open>intr_exit\<close> with the stack pointer at the frame
  it made, so the only return point left is the one to user code.
\<close>

definition start_process :: "addr \<Rightarrow> 'a pstate_scheme \<Rightarrow> 'a pstate_scheme option" where
  "start_process userprog s = do {
     let cur = running_thread s;
     let s = upd_task cur (\<lambda>t. t\<lparr>self_kstack := self_kstack t + thread_stack_size * 4\<rparr>) s;
     let proc_stack = self_kstack (task s cur);
     (page, s) \<leftarrow> get_a_page PF_USER USER_STACK3_VADDR s;
     let fr = \<lparr>f_edi = 0, f_esi = 0, f_ebp = 0, f_esp_dummy = 0, f_ebx = 0, f_edx = 0, f_ecx = 0, f_eax = 0, f_gs = 0,
       f_fs = SELECTOR_U_DATA, f_es = SELECTOR_U_DATA, f_ds = SELECTOR_U_DATA, f_eip = userprog, f_cs = SELECTOR_U_CODE,
       f_eflags = 0x202, f_esp = page + of_nat PG_SIZE, f_ss = SELECTOR_U_DATA\<rparr>;
     Some (s\<lparr>frames := (frames s)(proc_stack := fr), esp := proc_stack, konts := (konts s)(cur := [Iret (f_eflags fr)])\<rparr>)
   }"

definition thread_init :: "addr \<Rightarrow> addr \<Rightarrow> addr \<Rightarrow> 'a pstate_scheme \<Rightarrow> 'a pstate_scheme option" where
  "thread_init start_process_entry init_entry idle_entry s = do {
     let s = list_init (thread_ready_list s) s;
     let s = list_init (thread_all_list s) s;
     let s = pid_pool_init s;
     s \<leftarrow> process_execute start_process_entry init_entry [0x69, 0x6e, 0x69, 0x74] s;
     s \<leftarrow> make_main_thread s;
     (idle, s) \<leftarrow> thread_create [0x69, 0x64, 0x6c, 0x65] 10 idle_entry NULL s;
     Some (s\<lparr>idle_thread := idle\<rparr>)
   }"

end
