(* ===== verification/Fork.thy ===== *)
theory Fork
  imports Process
begin

unbundle bit_operations_syntax

text \<open>
  \<^verbatim>\<open>userprog/fork.c\<close> and \<^verbatim>\<open>userprog/wait_exit.c\<close>: copying a process, ending it, and waiting for its end.

  A file system call works on the descriptors and the directory of the running task; \<open>on_fs\<close> hands
  them over and takes them back. \<^verbatim>\<open>sys_wait\<close> blocks inside its loop; \<open>Waiting\<close> says that the caller went
  to sleep there, and it starts again at the loop when it is woken.
\<close>

section \<open>File system calls of the running task\<close>

definition fs_view :: "'a pstate_scheme \<Rightarrow> sysstate" where
  "fs_view s = (fsys s)\<lparr>fds := map of_int (fd_table (task s (running_thread s))),
     cwd_inode := cwd_inode_nr (task s (running_thread s))\<rparr>"

definition fs_back :: "sysstate \<Rightarrow> 'a pstate_scheme \<Rightarrow> 'a pstate_scheme" where
  "fs_back f s = upd_task (running_thread s) (\<lambda>t. t\<lparr>fd_table := map sint (fds f), cwd_inode_nr := cwd_inode f\<rparr>) (s\<lparr>fsys := f\<rparr>)"

definition on_fs :: "(sysstate \<Rightarrow> ('r \<times> sysstate) option) \<Rightarrow> 'a pstate_scheme \<Rightarrow> ('r \<times> 'a pstate_scheme) option" where
  "on_fs call s = do { (r, f) \<leftarrow> call (fs_view s); Some (r, fs_back f s) }"

section \<open>Fork\<close>

text \<open>The page of the task is copied whole: the fields, the interrupt frame and the rest of the stack.\<close>

definition copy_page :: "addr \<Rightarrow> addr \<Rightarrow> 'a pstate_scheme \<Rightarrow> 'a pstate_scheme" where
  "copy_page child parent s = s\<lparr>task := (task s)(child := task s parent),
     frames := (\<lambda>a. if a AND 0xfffff000 = child then frames s (a - child + parent) else frames s a),
     konts := (konts s)(child := konts s parent),
     ubm_addr := (ubm_addr s)(child := ubm_addr s parent)\<rparr>"

definition copy_pcb_vaddrbitmap_stack0 :: "addr \<Rightarrow> addr \<Rightarrow> 'a pstate_scheme \<Rightarrow> (u32 \<times> 'a pstate_scheme) option" where
  "copy_pcb_vaddrbitmap_stack0 child parent s = do {
     let s = copy_page child parent s;
     (p, s) \<leftarrow> allocate_pid s;
     let s = upd_task child (\<lambda>t. t\<lparr>pid := p, elapsed_ticks := 0, status := TASK_READY, ticks := priority t,
           parent_pid := ucast (pid (task s parent))\<rparr>) s;
     let s = s\<lparr>lprev := (lprev s)(general_tag child := NULL, all_list_tag child := NULL),
               lnext := (lnext s)(general_tag child := NULL, all_list_tag child := NULL)\<rparr>;
     let s = block_desc_init (u_block_desc child) s;
     (vaddr_btmp, s) \<leftarrow> get_kernel_pages bitmap_pg_cnt s;
     if vaddr_btmp = NULL then Some (- 1, s)
     else Some (0, s\<lparr>ubm_addr := (ubm_addr s)(child := vaddr_btmp)\<rparr>)
   }"

definition copy_one_page :: "addr \<Rightarrow> addr \<Rightarrow> addr \<Rightarrow> addr \<Rightarrow> 'a pstate_scheme \<Rightarrow> 'a pstate_scheme option" where
  "copy_one_page child parent buf_page prog_vaddr s = do {
     s \<leftarrow> copy_words (PG_SIZE div 4) buf_page prog_vaddr s;
     s \<leftarrow> page_dir_activate child s;
     (_, s) \<leftarrow> get_a_page_without_opvaddrbitmap PF_USER prog_vaddr s;
     s \<leftarrow> copy_words (PG_SIZE div 4) prog_vaddr buf_page s;
     page_dir_activate parent s
   }"

primrec copy_bits :: "nat \<Rightarrow> nat \<Rightarrow> nat \<Rightarrow> addr \<Rightarrow> addr \<Rightarrow> addr \<Rightarrow> 'a pstate_scheme \<Rightarrow> 'a pstate_scheme option" where
  "copy_bits 0 idx_bit idx_byte child parent buf_page s = Some s"
| "copy_bits (Suc n) idx_bit idx_byte child parent buf_page s = do {
     let uv = userprog_vaddr (task s parent);
     s \<leftarrow> (if push_bit idx_bit BITMAP_MASK AND bits (vaddr_bitmap uv) idx_byte \<noteq> 0
           then copy_one_page child parent buf_page (of_nat (idx_byte * 8 + idx_bit) * of_nat PG_SIZE + vaddr_start uv) s
           else Some s);
     copy_bits n (Suc idx_bit) idx_byte child parent buf_page s
   }"

primrec copy_bytes :: "nat \<Rightarrow> nat \<Rightarrow> addr \<Rightarrow> addr \<Rightarrow> addr \<Rightarrow> 'a pstate_scheme \<Rightarrow> 'a pstate_scheme option" where
  "copy_bytes 0 idx_byte child parent buf_page s = Some s"
| "copy_bytes (Suc n) idx_byte child parent buf_page s = do {
     s \<leftarrow> (if bits (vaddr_bitmap (userprog_vaddr (task s parent))) idx_byte \<noteq> 0
           then copy_bits 8 0 idx_byte child parent buf_page s else Some s);
     copy_bytes n (Suc idx_byte) child parent buf_page s
   }"

definition copy_body_stack3 :: "addr \<Rightarrow> addr \<Rightarrow> addr \<Rightarrow> 'a pstate_scheme \<Rightarrow> 'a pstate_scheme option" where
  "copy_body_stack3 child parent buf_page s =
     copy_bytes (btmp_bytes_len (vaddr_bitmap (userprog_vaddr (task s parent)))) 0 child parent buf_page s"

text \<open>The frame below the interrupt frame: \<^verbatim>\<open>switch_to\<close> pops four registers and returns to \<^verbatim>\<open>intr_exit\<close>.\<close>

definition build_child_stack :: "addr \<Rightarrow> 'a pstate_scheme \<Rightarrow> 'a pstate_scheme" where
  "build_child_stack child s =
     (let intr_0_stack = child + of_nat PG_SIZE - intr_stack_size;
          s = s\<lparr>frames := (frames s)(intr_0_stack := (frames s intr_0_stack)\<lparr>f_eax := 0\<rparr>)\<rparr>;
          s = s\<lparr>konts := (konts s)(child := [Iret (f_eflags (frames s intr_0_stack))])\<rparr>
      in upd_task child (\<lambda>t. t\<lparr>self_kstack := intr_0_stack - 5 * 4\<rparr>) s)"

primrec open_cnts_from :: "nat \<Rightarrow> nat \<Rightarrow> int list \<Rightarrow> sysstate \<Rightarrow> sysstate option" where
  "open_cnts_from 0 local_fd tab f = Some f"
| "open_cnts_from (Suc n) local_fd tab f = do {
     let global_fd = tab ! local_fd;
     ASSERT (global_fd < int MAX_FILE_OPEN);
     f \<leftarrow> (if global_fd = - 1 then Some f
           else do {
             pipe \<leftarrow> is_pipe (of_nat local_fd) f;
             Some (if pipe then upd_slot (of_int global_fd) (\<lambda>x. x\<lparr>fd_pos := fd_pos x + 1\<rparr>) f
                   else upd_inode (fd_inode (file_table f ! nat global_fd)) (\<lambda>i. i\<lparr>i_open_cnts := i_open_cnts i + 1\<rparr>) f)
           });
     open_cnts_from n (Suc local_fd) tab f
   }"

definition update_inode_open_cnts :: "addr \<Rightarrow> 'a pstate_scheme \<Rightarrow> 'a pstate_scheme option" where
  "update_inode_open_cnts thread s = do {
     f \<leftarrow> open_cnts_from 5 3 (fd_table (task s thread)) (fs_view s);
     Some (s\<lparr>fsys := f\<rparr>)
   }"

definition copy_process :: "addr \<Rightarrow> addr \<Rightarrow> 'a pstate_scheme \<Rightarrow> (u32 \<times> 'a pstate_scheme) option" where
  "copy_process child parent s = do {
     (buf_page, s) \<leftarrow> get_kernel_pages 1 s;
     if buf_page = NULL then Some (- 1, s)
     else do {
       (r, s) \<leftarrow> copy_pcb_vaddrbitmap_stack0 child parent s;
       if r = - 1 then Some (- 1, s)
       else do {
         (pd, s) \<leftarrow> create_page_dir s;
         let s = upd_task child (\<lambda>t. t\<lparr>pgdir := pd\<rparr>) s;
         if pd = NULL then Some (- 1, s)
         else do {
           s \<leftarrow> copy_body_stack3 child parent buf_page s;
           let s = build_child_stack child s;
           s \<leftarrow> update_inode_open_cnts child s;
           s \<leftarrow> mfree_page PF_KERNEL buf_page 1 s;
           Some (0, s)
         }
       }
     }
   }"

definition sys_fork :: "'a pstate_scheme \<Rightarrow> (u32 \<times> 'a pstate_scheme) option" where
  "sys_fork s = do {
     let parent = running_thread s;
     (child, s) \<leftarrow> get_kernel_pages 1 s;
     if child = NULL then Some (- 1, s)
     else do {
       ASSERT (intr_get_status s = INTR_OFF \<and> pgdir (task s parent) \<noteq> NULL);
       (r, s) \<leftarrow> copy_process child parent s;
       if r = - 1 then Some (- 1, s)
       else do {
         s \<leftarrow> enqueue_task child s;
         Some (ucast (pid (task s child)), s)
       }
     }
   }"

section \<open>The end of a process\<close>

primrec free_table :: "nat \<Rightarrow> nat \<Rightarrow> addr \<Rightarrow> 'a pstate_scheme \<Rightarrow> 'a pstate_scheme option" where
  "free_table 0 pte_i cur_ptable s = Some s"
| "free_table (Suc n) pte_i cur_ptable s = do {
     pte \<leftarrow> load32 (cur_ptable + of_nat pte_i * 4) s;
     s \<leftarrow> (if pte AND 1 \<noteq> 0 then free_a_phy_page (pte AND 0xfffff000) s else Some s);
     free_table n (Suc pte_i) cur_ptable s
   }"

primrec free_tables :: "nat \<Rightarrow> nat \<Rightarrow> addr \<Rightarrow> 'a pstate_scheme \<Rightarrow> 'a pstate_scheme option" where
  "free_tables 0 pde_i pgdir_vaddr s = Some s"
| "free_tables (Suc n) pde_i pgdir_vaddr s = do {
     cur_pde \<leftarrow> load32 (pgdir_vaddr + of_nat pde_i * 4) s;
     s \<leftarrow> (if cur_pde AND 1 \<noteq> 0 then do {
             s \<leftarrow> free_table 1024 0 (pte_ptr (push_bit 22 (of_nat pde_i))) s;
             free_a_phy_page (cur_pde AND 0xfffff000) s
           } else Some s);
     free_tables n (Suc pde_i) pgdir_vaddr s
   }"

text \<open>The descriptors from 3 on; the page of a pipe that nobody uses any more is returned.\<close>

primrec close_fds :: "nat \<Rightarrow> nat \<Rightarrow> addr \<Rightarrow> 'a pstate_scheme \<Rightarrow> 'a pstate_scheme option" where
  "close_fds 0 fd_i thread s = Some s"
| "close_fds (Suc n) fd_i thread s = do {
     s \<leftarrow> (if fd_table (task s thread) ! fd_i = - 1 then Some s
           else do {
             pipe \<leftarrow> is_pipe (of_nat fd_i) (fs_view s);
             if pipe then do {
               global_fd \<leftarrow> fd_local2global (of_nat fd_i) (fs_view s);
               let s = s\<lparr>fsys := upd_slot global_fd (\<lambda>x. x\<lparr>fd_pos := fd_pos x - 1\<rparr>) (fsys s)\<rparr>;
               let slot = file_table (fsys s) ! unat global_fd;
               if fd_pos slot = 0 then do {
                 s \<leftarrow> mfree_page PF_KERNEL (fd_inode slot) 1 s;
                 Some (s\<lparr>fsys := upd_slot global_fd (fd_inode_update (\<lambda>_. NULL)) (fsys s)\<rparr>)
               } else Some s
             } else do {
               (_, s) \<leftarrow> on_fs (sys_close (of_nat fd_i)) s;
               Some s
             }
           });
     close_fds n (Suc fd_i) thread s
   }"

text \<open>The number of bitmap pages is rounded down here and was rounded up when they were allocated.\<close>

definition release_prog_resource :: "addr \<Rightarrow> 'a pstate_scheme \<Rightarrow> 'a pstate_scheme option" where
  "release_prog_resource t s = do {
     s \<leftarrow> free_tables 768 0 (pgdir (task s t)) s;
     let pg_cnt = of_nat (btmp_bytes_len (vaddr_bitmap (userprog_vaddr (task s t)))) div of_nat PG_SIZE;
     s \<leftarrow> mfree_page PF_KERNEL (ubm_addr s t) pg_cnt s;
     close_fds 5 3 t s
   }"

definition find_child :: "addr \<Rightarrow> int \<Rightarrow> 'a kstate_scheme \<Rightarrow> (bool \<times> 'a kstate_scheme) option" where
  "find_child pelem ppid s = Some (parent_pid (task s (all_list_tag_entry pelem)) = of_int ppid, s)"

definition find_hanging_child :: "addr \<Rightarrow> int \<Rightarrow> 'a kstate_scheme \<Rightarrow> (bool \<times> 'a kstate_scheme) option" where
  "find_hanging_child pelem ppid s =
     (let t = task s (all_list_tag_entry pelem) in Some (parent_pid t = of_int ppid \<and> status t = TASK_HANGING, s))"

definition init_adopt_a_child :: "addr \<Rightarrow> int \<Rightarrow> 'a kstate_scheme \<Rightarrow> (bool \<times> 'a kstate_scheme) option" where
  "init_adopt_a_child pelem p s =
     Some (False, if parent_pid (task s (all_list_tag_entry pelem)) = of_int p
                  then upd_task (all_list_tag_entry pelem) (\<lambda>t. t\<lparr>parent_pid := 1\<rparr>) s else s)"

datatype wait_result = Reaped u16 u8 | No_child | Waiting

definition sys_wait :: "'a pstate_scheme \<Rightarrow> (wait_result \<times> 'a pstate_scheme) option" where
  "sys_wait s = do {
     let pthread = running_thread s;
     (child_elem, s) \<leftarrow> list_traversal (thread_all_list s) find_hanging_child (uint (pid (task s pthread))) s;
     if child_elem \<noteq> NULL then do {
       let child_thread = all_list_tag_entry child_elem;
       let status = exit_status (task s child_thread);
       let child_pid = pid (task s child_thread);
       s \<leftarrow> thread_exit child_thread False s;
       Some (Reaped child_pid status, s)
     } else do {
       (child_elem, s) \<leftarrow> list_traversal (thread_all_list s) find_child (uint (pid (task s pthread))) s;
       if child_elem = NULL then Some (No_child, s)
       else do { s \<leftarrow> thread_block TASK_WAITING s; Some (Waiting, s) }
     }
   }"

definition sys_exit :: "u32 \<Rightarrow> 'a pstate_scheme \<Rightarrow> 'a pstate_scheme option" where
  "sys_exit st s = do {
     let pthread = running_thread s;
     let s = upd_task pthread (\<lambda>t. t\<lparr>exit_status := ucast st\<rparr>) s;
     ASSERT (parent_pid (task s pthread) \<noteq> - 1);
     (_, s) \<leftarrow> list_traversal (thread_all_list s) init_adopt_a_child (uint (pid (task s pthread))) s;
     s \<leftarrow> release_prog_resource pthread s;
     parent_thread \<leftarrow> pid2thread (sint (parent_pid (task s pthread))) s;
     ASSERT (parent_thread \<noteq> NULL);
     s \<leftarrow> (if status (task s parent_thread) = TASK_WAITING then thread_unblock parent_thread s else Some s);
     thread_block TASK_HANGING s
   }"

end
