(* ===== verification/Mutex.thy ===== *)
theory Mutex
  imports Memory
begin

unbundle bit_operations_syntax

text \<open>
  The lock of \<^verbatim>\<open>thread/sync.c\<close> as the code that uses it sees it, for a task that finds it free: the interface is a locale
  with one lemma for the pattern of acquiring, changing state and releasing, and the lock calls
  of theory \<open>Memory\<close> are an interpretation of it.
\<close>

section \<open>A call under a free lock\<close>

definition lock_free :: "addr \<Rightarrow> 'a kstate_scheme \<Rightarrow> bool" where
  "lock_free l s = (lock_owner s l = NULL \<and> sem_value s (lock_sema l) = 1 \<and> holder_repeat_nr s l = 0
     \<and> running_thread s \<noteq> NULL \<and> list_empty (waiters (lock_sema l)) s)"

definition locked :: "addr \<Rightarrow> 'a kstate_scheme \<Rightarrow> 'a kstate_scheme" where
  "locked l s = s\<lparr>sem_value := (sem_value s)(lock_sema l := 0), lock_owner := (lock_owner s)(l := running_thread s),
     holder_repeat_nr := (holder_repeat_nr s)(l := 1)\<rparr>"

definition unlocked :: "addr \<Rightarrow> 'a kstate_scheme \<Rightarrow> 'a kstate_scheme" where
  "unlocked l s = s\<lparr>sem_value := (sem_value s)(lock_sema l := 1), lock_owner := (lock_owner s)(l := NULL),
     holder_repeat_nr := (holder_repeat_nr s)(l := 0)\<rparr>"

lemma acquire_free: "lock_free l s \<Longrightarrow> lock_acquire_now l s = Some (locked l s)"
  by (simp add: lock_acquire_now_def lock_free_def locked_def running_thread_def)

lemma sema_up_empty:
  assumes "sem_value s p = 0" and "list_empty (waiters p) s"
  shows "sema_up p s = Some (s\<lparr>sem_value := (sem_value s)(p := 1)\<rparr>)"
proof -
  let ?s = "s\<lparr>eflags := eflags s AND NOT EFLAGS_IF\<rparr>\<lparr>sem_value := (sem_value s)(p := 1)\<rparr>"
  have "snd (intr_set_status (intr_get_status s) ?s) = ?s\<lparr>eflags := eflags s\<rparr>" by (rule intr_bracket_upd) simp
  moreover have "list_empty (waiters p) (s\<lparr>eflags := eflags s AND NOT EFLAGS_IF\<rparr>)" using assms(2) by (simp add: list_empty_def)
  ultimately show ?thesis using assms by (simp add: sema_up_def split_beta intr_disable_upd Let_def)
qed

lemma release_held:
  assumes "lock_owner s l = running_thread s" and "sem_value s (lock_sema l) = 0" and "holder_repeat_nr s l = 1"
    and "list_empty (waiters (lock_sema l)) s"
  shows "lock_release_now l s = Some (unlocked l s)"
proof -
  have "sema_up (lock_sema l) (s\<lparr>lock_owner := (lock_owner s)(l := NULL), holder_repeat_nr := (holder_repeat_nr s)(l := 0)\<rparr>) = Some (unlocked l s)"
    using assms(2,4) by (subst sema_up_empty) (simp_all add: unlocked_def list_empty_def)
  then show ?thesis using assms(1,3) by (simp add: lock_release_now_def)
qed

lemma unlocked_locked: "lock_free l s \<Longrightarrow> unlocked l (locked l s) = s"
  by (simp add: lock_free_def unlocked_def locked_def fun_upd_idem)

section \<open>The interface\<close>

text \<open>\<open>keeps f\<close>: the change \<open>f\<close> of the state has nothing to do with the lock.\<close>

locale mutex =
  fixes free :: "'s \<Rightarrow> bool" and held :: "'s \<Rightarrow> 's" and acquire :: "'s \<Rightarrow> 's option" and release :: "'s \<Rightarrow> 's option"
    and keeps :: "('s \<Rightarrow> 's) \<Rightarrow> bool"
  assumes acquire_takes: "free s \<Longrightarrow> acquire s = Some (held s)"
    and release_gives: "free s \<Longrightarrow> release (held s) = Some s"
    and keeps_free: "keeps f \<Longrightarrow> free s \<Longrightarrow> free (f s)"
    and keeps_held: "keeps f \<Longrightarrow> f (held s) = held (f s)"
begin

lemma critical_update: "free s \<Longrightarrow> keeps f \<Longrightarrow> Option.bind (acquire s) (\<lambda>s. release (f s)) = Some (f s)"
  by (simp add: acquire_takes keeps_held keeps_free release_gives)

lemma release_after: "free s \<Longrightarrow> keeps f \<Longrightarrow> release (f (held s)) = Some (f s)"
  by (simp add: keeps_held keeps_free release_gives)

end

definition keeps_lock :: "addr \<Rightarrow> ('a kstate_scheme \<Rightarrow> 'a kstate_scheme) \<Rightarrow> bool" where
  "keeps_lock l f = (\<forall>s. f (locked l s) = locked l (f s) \<and> (lock_free l s \<longrightarrow> lock_free l (f s)))"

interpretation lk: mutex "lock_free l" "locked l" "lock_acquire_now l" "lock_release_now l" "keeps_lock l" for l
proof
  fix s :: "'a kstate_scheme" and f :: "'a kstate_scheme \<Rightarrow> 'a kstate_scheme"
  show "lock_free l s \<Longrightarrow> lock_acquire_now l s = Some (locked l s)" by (rule acquire_free)
  assume free: "lock_free l s"
  then have "lock_release_now l (locked l s) = Some (unlocked l (locked l s))"
    by (intro release_held) (simp_all add: lock_free_def locked_def running_thread_def list_empty_def)
  then show "lock_release_now l (locked l s) = Some s" by (simp add: unlocked_locked free)
qed (simp_all add: keeps_lock_def)

end
