(* ===== verification/Process_props.thy ===== *)
theory Process_props
  imports Fork Mutex
begin

text \<open>
  Properties of processes: the pid pool under its lock, the search for a child that \<^verbatim>\<open>sys_wait\<close> makes,
  and the adoption of orphans by \<^verbatim>\<open>sys_exit\<close>.
\<close>

section \<open>A concrete state for the witnesses\<close>

definition demo_p :: pstate where
  "demo_p = list_append 0x1100 (all_list_tag 0x6000) (list_append 0x1100 (all_list_tag 0x5000) (list_init 0x1100
     (list_init 0x4008 (mstate.extend demo_m
       (pstate.fields \<lparr>btmp_bytes_len = 128, bits = (\<lambda>i. if i = 0 then 7 else 0)\<rparr> 1 0x4000 (\<lambda>_. undefined) (\<lambda>_. NULL) undefined)
       \<lparr>task := (\<lambda>t. zero_task\<lparr>pid := (if t = 0x5000 then 1 else 2), parent_pid := (if t = 0x5000 then - 1 else 1),
          status := (if t = 0x5000 then TASK_RUNNING else TASK_HANGING), exit_status := 9\<rparr>)\<rparr>))))"

lemma demo_p_fields:
  "thread_all_list demo_p = 0x1100" "running_thread demo_p = 0x5000" "pid_lock demo_p = 0x4000" "pid_start demo_p = 1"
  "pid_bitmap demo_p = \<lparr>btmp_bytes_len = 128, bits = (\<lambda>i. if i = 0 then 7 else 0)\<rparr>"
  "task demo_p t = zero_task\<lparr>pid := (if t = 0x5000 then 1 else 2), parent_pid := (if t = 0x5000 then - 1 else 1),
     status := (if t = 0x5000 then TASK_RUNNING else TASK_HANGING), exit_status := 9\<rparr>"
  by (simp_all add: demo_p_def mstate.defs pstate.defs demo_m_def running_thread_def list_append_def list_insert_before_eq list_init_def)

lemma demo_p_all: "dlist demo_p (thread_all_list demo_p) (map all_list_tag [0x5000, 0x6000])"
proof -
  let ?s = "list_init 0x4008 (mstate.extend demo_m
       (pstate.fields \<lparr>btmp_bytes_len = 128, bits = (\<lambda>i. if i = 0 then 7 else 0)\<rparr> 1 0x4000 (\<lambda>_. undefined) (\<lambda>_. NULL) undefined)
       \<lparr>task := (\<lambda>t. zero_task\<lparr>pid := (if t = 0x5000 then 1 else 2), parent_pid := (if t = 0x5000 then - 1 else 1),
          status := (if t = 0x5000 then TASK_RUNNING else TASK_HANGING), exit_status := 9\<rparr>)\<rparr>)"
  have "dlist (list_append 0x1100 (all_list_tag 0x5000) (list_init 0x1100 ?s)) 0x1100 ([] @ [all_list_tag 0x5000])"
    by (rule kl.rep_append [OF list_init_dlist]) (simp add: lnodes_def all_list_tag_def list_tail_def)
  then have "dlist demo_p 0x1100 (([] @ [all_list_tag 0x5000]) @ [all_list_tag 0x6000])"
    unfolding demo_p_def by (rule kl.rep_append) (simp add: lnodes_def all_list_tag_def list_tail_def)
  then show ?thesis by (simp add: demo_p_fields)
qed

lemma demo_p_lock: "lock_free (pid_lock demo_p) demo_p"
  by (simp add: lock_free_def demo_p_fields, simp add: demo_p_def mstate.defs pstate.defs demo_m_def lock_sema_def waiters_def
      list_append_def list_insert_before_eq list_init_def list_empty_def list_tail_def all_list_tag_def)

section \<open>Process numbers\<close>

lemma unat_pid: "unat (ucast (q :: u16) :: u32) = unat q"
proof -
  have "unat q < 65536" using unsigned_less [of q] by simp
  then show ?thesis by (simp add: unsigned_ucast_eq take_bit_nat_eq_self_iff)
qed

text \<open>
  C37: process numbers. While fewer than 1024 are in use, \<^verbatim>\<open>allocate_pid\<close> returns the smallest number from 1
  on that is not in use and marks it and nothing else, and releases its lock; \<^verbatim>\<open>release_pid\<close> of a number
  from 1 to 1024 makes that number and no other available again.
\<close>

theorem pid_pool_correct:
  assumes "lock_free (pid_lock s) s" and "pid_start s = 1" and "btmp_bytes_len (pid_bitmap s) = 128"
    and "i < 1024" and "\<not> bm_used (pid_bitmap s) i" and "\<forall>j<i. bm_used (pid_bitmap s) j" and "1 \<le> unat q" and "unat q \<le> 1024"
  shows "(\<exists>b. allocate_pid s = Some (of_nat (i + 1), s\<lparr>pid_bitmap := b\<rparr>) \<and> (\<forall>j. bm_used b j = (j = i \<or> bm_used (pid_bitmap s) j)))
    \<and> (\<exists>b. release_pid q s = Some (s\<lparr>pid_bitmap := b\<rparr>) \<and> (\<forall>j. bm_used b j = (j \<noteq> unat q - 1 \<and> bm_used (pid_bitmap s) j)))"
proof -
  let ?l = "pid_lock s" and ?s = "locked (pid_lock s) s"
  have same: "pid_bitmap ?s = pid_bitmap s" "pid_start ?s = pid_start s" "pid_lock ?s = pid_lock s" by (simp_all add: locked_def)
  have rel: "lock_release_now ?l (?s\<lparr>pid_bitmap := b\<rparr>) = Some (s\<lparr>pid_bitmap := b\<rparr>)" for b
    by (rule lk.release_after [OF assms(1), of "\<lambda>s. s\<lparr>pid_bitmap := b\<rparr>"])
      (simp add: keeps_lock_def locked_def lock_free_def running_thread_def list_empty_def)
  have cap: "i < bm_cap (pid_bitmap s)" using assms(3,4) by (simp add: bm_cap_def)
  have sc: "bitmap_scan (pid_bitmap s) 1 = Some (int i)" by (rule bm.scan_some [OF cap assms(5,6)])
  obtain b where b: "bitmap_set (pid_bitmap s) i 1 = Some b" using bm.set_some [of 1] by blast
  have "(of_int (int i + uint (1 :: u32)) :: u16) = of_nat (i + 1)" by simp
  then have "allocate_pid s = Some (of_nat (i + 1), s\<lparr>pid_bitmap := b\<rparr>)"
    using lk.acquire_takes [OF assms(1)] sc b rel same assms(2) by (simp add: allocate_pid_def)
  moreover obtain c where c: "bitmap_set (pid_bitmap s) (unat q - 1) 0 = Some c" using bm.set_some [of 0] by blast
  have "unat (ucast q - pid_start s) = unat q - 1"
  proof -
    have "(1 :: u32) \<le> ucast q" using assms(7) by (simp add: word_le_nat_alt unat_pid)
    then show ?thesis using assms(2) by (simp add: unat_sub unat_pid)
  qed
  then have "release_pid q s = Some (s\<lparr>pid_bitmap := c\<rparr>)"
    using lk.acquire_takes [OF assms(1)] c rel same by (simp add: release_pid_def Let_def)
  moreover have "\<forall>j. bm_used b j = (j = i \<or> bm_used (pid_bitmap s) j)" "\<forall>j. bm_used c j = (j \<noteq> unat q - 1 \<and> bm_used (pid_bitmap s) j)"
    using bm.set_used [OF b] bm.set_used [OF c] by auto
  ultimately show ?thesis by blast
qed

theorem pid_pool_correct_witness:
  "\<exists>b. allocate_pid demo_p = Some (4, demo_p\<lparr>pid_bitmap := b\<rparr>) \<and> bm_used b 3 \<and> bm_used b 0"
proof -
  let ?b = "\<lparr>btmp_bytes_len = 128, bits = (\<lambda>i. if i = 0 then 7 else 0)\<rparr> :: bitmap"
  have seven: "bit (7 :: u8) j = (j < 3)" for j
    using bit_mask_iff [of 3 j, where 'a = u8] by (auto simp: mask_numeral)
  have u: "bm_used ?b 3 = False" "\<forall>j<3. bm_used ?b j" 
    using seven [of 3] seven by (auto simp: bm_used_def)
  from pid_pool_correct [OF demo_p_lock, of 3 1] show ?thesis using u by (auto simp: demo_p_fields)
qed

section \<open>Waiting\<close>

lemma traverse_child:
  assumes "dlist s (thread_all_list s) (map all_list_tag ts)" and "\<And>e. func e arg s = Some (P (all_list_tag_entry e), s)"
    and "NULL \<notin> all_list_tag ` set ts"
  shows "list_traversal (thread_all_list s) func arg s = Some (case find P ts of None \<Rightarrow> NULL | Some t \<Rightarrow> all_list_tag t, s)"
proof -
  have "find (\<lambda>e. P (all_list_tag_entry e)) (map all_list_tag ts) = map_option all_list_tag (find P ts)"
    by (induction ts) auto
  then show ?thesis using list_traversal_dlist [OF assms(1), of func arg "\<lambda>e. P (all_list_tag_entry e)"] assms(2)
    by (simp split: option.splits)
qed

text \<open>
  C38: what \<^verbatim>\<open>sys_wait\<close> does. It takes the first task on the list of all tasks that is a hanging child of
  the caller, frees it, and returns its number and exit status; without one it returns that there is
  no child exactly when no task has the caller as parent, and otherwise puts the caller to sleep.
\<close>

theorem sys_wait_spec:
  assumes "dlist s (thread_all_list s) (map all_list_tag ts)" and "NULL \<notin> all_list_tag ` set ts"
    and "me = running_thread s" and "child = (\<lambda>t. parent_pid (task s t) = ucast (pid (task s me)))"
  shows "sys_wait s = (case find (\<lambda>t. child t \<and> status (task s t) = TASK_HANGING) ts of
       Some t \<Rightarrow> do { s' \<leftarrow> thread_exit t False s; Some (Reaped (pid (task s t)) (exit_status (task s t)), s') }
     | None \<Rightarrow> if (\<exists>t\<in>set ts. child t) then do { s' \<leftarrow> thread_block TASK_WAITING s; Some (Waiting, s') } else Some (No_child, s))"
proof -
  let ?p = "uint (pid (task s me))"
  have u: "(of_int ?p :: u32) = ucast (pid (task s me))" by (simp add: word_unat_eq_iff)
  have h: "find_hanging_child e ?p s = Some (child (all_list_tag_entry e) \<and> status (task s (all_list_tag_entry e)) = TASK_HANGING, s)" for e
    by (simp add: find_hanging_child_def Let_def assms(4) u)
  have c: "find_child e ?p s = Some (child (all_list_tag_entry e), s)" for e by (simp add: find_child_def assms(4) u)
  note th = traverse_child [of s ts find_hanging_child ?p "\<lambda>t. child t \<and> status (task s t) = TASK_HANGING", OF assms(1) h assms(2)]
  note tc = traverse_child [of s ts find_child ?p child, OF assms(1) c assms(2)]
  have nn: "find P ts = Some t \<Longrightarrow> all_list_tag t \<noteq> NULL" for P t using assms(2) by (auto simp: find_Some_iff)
  have none: "(find child ts = None) = (\<not> (\<exists>t\<in>set ts. child t))" by (auto simp: find_None_iff)
  show ?thesis
  proof (cases "find (\<lambda>t. child t \<and> status (task s t) = TASK_HANGING) ts")
    case (Some t)
    then show ?thesis using th nn [OF Some] by (simp add: sys_wait_def assms(3) [symmetric])
  next
    case None
    then show ?thesis using th tc nn [of child] none
      by (cases "find child ts") (simp_all add: sys_wait_def assms(3) [symmetric])
  qed
qed

theorem sys_wait_spec_witness:
  "sys_wait demo_p = do { s' \<leftarrow> thread_exit 0x6000 False demo_p; Some (Reaped 2 9, s') }"
proof -
  have "NULL \<notin> all_list_tag ` set [0x5000, 0x6000]" by (simp add: all_list_tag_def)
  from sys_wait_spec [OF demo_p_all this refl refl] show ?thesis by (simp add: demo_p_fields)
qed

section \<open>Orphans\<close>

lemma traverse_update:
  assumes "\<And>e s. func e arg s = Some (False, upd e s)" and "\<And>e s. lnext (upd e s) = lnext s \<and> lprev (upd e s) = lprev s"
  shows "chain (lnext s) (lprev s) (xs @ [list_tail l]) \<Longrightarrow> list_tail l \<notin> set xs \<Longrightarrow>
   traverse_from l func arg (hd (xs @ [list_tail l])) s = Some (NULL, fold upd xs s)"
proof (induction xs arbitrary: s)
  case Nil
  then show ?case by (simp add: traverse_from.simps)
next
  case (Cons x xs)
  have nx: "lnext s x = hd (xs @ [list_tail l])" and ch: "chain (lnext s) (lprev s) (xs @ [list_tail l])"
    using Cons.prems(1) by (cases xs; simp)+
  have "traverse_from l func arg x s = traverse_from l func arg (hd (xs @ [list_tail l])) (upd x s)"
    using Cons.prems(2) assms nx by (subst traverse_from.simps) auto
  then show ?case using Cons.IH [of "upd x s"] Cons.prems(2) ch assms(2) [of x s] by simp
qed

text \<open>
  Orphans are adopted. The traversal in \<^verbatim>\<open>sys_exit\<close> returns, gives every listed child of the exiting
  process to process 1, and changes nothing else about any task; so afterwards no listed task has the
  exiting process, if it is not process 1 itself, as its parent.
\<close>

theorem exit_adopts_orphans:
  assumes "dlist s (thread_all_list s) (map all_list_tag ts)"
  shows "\<exists>s'. list_traversal (thread_all_list s) init_adopt_a_child (uint p) s = Some (NULL, s')
    \<and> (\<forall>t. task s' t = (if t \<in> set ts \<and> parent_pid (task s t) = ucast p then (task s t)\<lparr>parent_pid := 1\<rparr> else task s t))
    \<and> (p \<noteq> (1 :: u16) \<longrightarrow> (\<forall>t\<in>set ts. parent_pid (task s' t) \<noteq> ucast p))"
proof -
  let ?l = "thread_all_list s"
  define upd :: "addr \<Rightarrow> 'a kstate_scheme \<Rightarrow> 'a kstate_scheme" where
    "upd e s = (if parent_pid (task s (all_list_tag_entry e)) = ucast p then upd_task (all_list_tag_entry e) (\<lambda>t. t\<lparr>parent_pid := 1\<rparr>) s else s)" for e s
  have u: "(of_int (uint p) :: u32) = ucast p" by (simp add: word_unat_eq_iff)
  have f: "init_adopt_a_child e (uint p) s = Some (False, upd e s)" for e and s :: "'a kstate_scheme"
    by (simp add: init_adopt_a_child_def upd_def u)
  have k: "lnext (upd e s) = lnext s \<and> lprev (upd e s) = lprev s" for e and s :: "'a kstate_scheme" by (simp add: upd_def upd_task_def)
  have tail: "list_tail ?l \<notin> set (map all_list_tag ts)" using assms by (simp add: dlist_def)
  have "list_traversal ?l init_adopt_a_child (uint p) s = Some (NULL, fold upd (map all_list_tag ts) s)"
  proof (cases "ts = []")
    case True
    then show ?thesis using assms by (simp add: list_traversal_def list_empty_dlist)
  next
    case False
    then show ?thesis
      using traverse_update [where upd = upd and func = init_adopt_a_child and s = s and xs = "map all_list_tag ts" and l = ?l and arg = "uint p",
          OF f k dlist_chain [OF assms] tail] assms by (simp add: list_traversal_def list_empty_dlist dlist_head)
  qed
  moreover have "task (fold upd (map all_list_tag us) r) t
     = (if t \<in> set us \<and> parent_pid (task r t) = ucast p then (task r t)\<lparr>parent_pid := 1\<rparr> else task r t)" for us t and r :: "'a kstate_scheme"
  proof (induction us arbitrary: r)
    case (Cons x us)
    have "task (upd (all_list_tag x) r) t = (if t = x \<and> parent_pid (task r t) = ucast p then (task r t)\<lparr>parent_pid := 1\<rparr> else task r t)"
      by (auto simp: upd_def upd_task_def)
    then show ?case using Cons.IH [of "upd (all_list_tag x) r"] by auto
  qed simp
  moreover have "p \<noteq> 1 \<Longrightarrow> (1 :: u32) \<noteq> ucast p" by (metis unat_pid word_unat_eq_iff unat_1)
  ultimately show ?thesis by (intro exI [of _ "fold upd (map all_list_tag ts) s"]) auto
qed

theorem exit_adopts_orphans_witness:
  "\<exists>s'. list_traversal 0x1100 init_adopt_a_child 1 demo_p = Some (NULL, s') \<and> parent_pid (task s' 0x6000) = 1"
proof -
  have "uint (1 :: u16) = 1" by simp
  with exit_adopts_orphans [OF demo_p_all, of 1] show ?thesis by (auto simp: demo_p_fields)
qed

end
