(* ===== verification/Stdio.thy ===== *)
theory Stdio
  imports Cstring
begin

text \<open>
  \<^verbatim>\<open>lib/stdio.c\<close>: formatted output, on the flat memory of theory \<open>Cstring\<close>. The arguments after the
  format are the words on the caller's stack; reading more than the caller pushed is \<open>None\<close>.
  \<^verbatim>\<open>write\<close>, which \<^verbatim>\<open>printf\<close> calls, is an argument.
\<close>

section \<open>The code\<close>

definition digit :: "u32 \<Rightarrow> u8" where
  "digit v = (if v < 10 then ucast v + 0x30 else ucast v - 10 + 0x61)"

partial_function (option) itoa :: "u32 \<Rightarrow> addr \<Rightarrow> u8 \<Rightarrow> mem \<Rightarrow> (addr \<times> mem) option" where
  "itoa value bp base m =
     (if base = 0 then None
      else Option.bind (if value div ucast base \<noteq> 0 then itoa (value div ucast base) bp base m else Some (bp, m))
        (\<lambda>(bp, m). Some (bp + 1, m(bp := digit (value mod ucast base)))))"

definition va_arg :: "u32 list \<Rightarrow> (u32 \<times> u32 list) option" where
  "va_arg ap = (case ap of [] \<Rightarrow> None | a # as \<Rightarrow> Some (a, as))"

text \<open>What one placeholder appends: the new end of the output, the remaining arguments and the memory.\<close>

definition placeholder :: "u8 \<Rightarrow> addr \<Rightarrow> u32 list \<Rightarrow> mem \<Rightarrow> (addr \<times> u32 list \<times> mem) option" where
  "placeholder c bp ap m =
     (if c = 0x78 then do {
        (arg_int, ap) \<leftarrow> va_arg ap;
        (bp, m) \<leftarrow> itoa arg_int bp 16 m;
        Some (bp, ap, m)
      } else if c = 0x64 then do {
        (arg_int, ap) \<leftarrow> va_arg ap;
        let (arg_int, bp, m) = (if sint arg_int < 0 then (0 - arg_int, bp + 1, m(bp := 0x2d)) else (arg_int, bp, m));
        (bp, m) \<leftarrow> itoa arg_int bp 10 m;
        Some (bp, ap, m)
      } else if c = 0x63 then do {
        (arg, ap) \<leftarrow> va_arg ap;
        Some (bp + 1, ap, m(bp := ucast arg))
      } else if c = 0x73 then do {
        (arg_str, ap) \<leftarrow> va_arg ap;
        ASSERT (arg_str \<noteq> NULL);
        m \<leftarrow> strcpy bp arg_str m;
        n \<leftarrow> strlen arg_str m;
        Some (bp + n, ap, m)
      } else None)"

partial_function (option) format_loop :: "addr \<Rightarrow> addr \<Rightarrow> u32 list \<Rightarrow> mem \<Rightarrow> mem option" where
  "format_loop bp fp ap m =
     (if m fp = 0 then Some m
      else if m fp \<noteq> 0x25 then format_loop (bp + 1) (fp + 1) ap (m(bp := m fp))
      else Option.bind (placeholder (m (fp + 1)) bp ap m) (\<lambda>r.
        format_loop (fst r) (fp + 2) (fst (snd r)) (snd (snd r))))"

definition vsprintf :: "addr \<Rightarrow> addr \<Rightarrow> u32 list \<Rightarrow> mem \<Rightarrow> (u32 \<times> mem) option" where
  "vsprintf str format ap m = do {
     m \<leftarrow> format_loop str format ap m;
     n \<leftarrow> strlen str m;
     Some (n, m)
   }"

definition sprintf :: "addr \<Rightarrow> addr \<Rightarrow> u32 list \<Rightarrow> mem \<Rightarrow> (u32 \<times> mem) option" where
  "sprintf buf format args m = vsprintf buf format args m"

text \<open>\<^verbatim>\<open>buf\<close> is the address of the local array of 1024 bytes.\<close>

definition printf :: "(u32 \<Rightarrow> addr \<Rightarrow> u32 \<Rightarrow> mem \<Rightarrow> (u32 \<times> mem) option) \<Rightarrow> addr \<Rightarrow> addr \<Rightarrow> u32 list \<Rightarrow> mem \<Rightarrow> (u32 \<times> mem) option" where
  "printf write buf format args m = do {
     m \<leftarrow> memset buf 0 1024 m;
     (_, m) \<leftarrow> vsprintf buf format args m;
     n \<leftarrow> strlen buf m;
     write 1 buf n m
   }"

definition printk :: "(addr \<Rightarrow> mem \<Rightarrow> mem option) \<Rightarrow> addr \<Rightarrow> addr \<Rightarrow> u32 list \<Rightarrow> mem \<Rightarrow> mem option" where
  "printk console_put_str buf format args m = do {
     m \<leftarrow> memset buf 0 1024 m;
     (_, m) \<leftarrow> vsprintf buf format args m;
     console_put_str buf m
   }"

section \<open>Numbers\<close>

function digits :: "nat \<Rightarrow> nat \<Rightarrow> u8 list" where
  "digits b v = (if b < 2 \<or> v < b then [digit (of_nat v)] else digits b (v div b) @ [digit (of_nat (v mod b))])"
  by pat_completeness auto
termination
  by (relation "measure snd") auto

declare digits.simps [simp del]

definition undigit :: "u8 \<Rightarrow> nat" where
  "undigit c = (if unat c < 0x61 then unat c - 0x30 else unat c - 0x61 + 10)"

definition read_number :: "nat \<Rightarrow> u8 list \<Rightarrow> nat" where
  "read_number b ds = foldl (\<lambda>a d. a * b + undigit d) 0 ds"

lemma undigit_digit: "v < 16 \<Longrightarrow> undigit (digit (of_nat v)) = v"
proof -
  assume "v < 16"
  then have "v = 0 \<or> v = 1 \<or> v = 2 \<or> v = 3 \<or> v = 4 \<or> v = 5 \<or> v = 6 \<or> v = 7 \<or> v = 8 \<or> v = 9 \<or> v = 10 \<or> v = 11 \<or> v = 12 \<or> v = 13 \<or> v = 14 \<or> v = 15"
    by arith
  then show ?thesis by (elim disjE) (simp_all add: undigit_def digit_def)
qed

lemma read_digits: "2 \<le> b \<Longrightarrow> b \<le> 16 \<Longrightarrow> read_number b (digits b v) = v"
proof (induction b v rule: digits.induct)
  case (1 b v)
  show ?case
  proof (cases "v < b")
    case True
    then show ?thesis using "1.prems" undigit_digit [of v] by (subst digits.simps) (simp add: read_number_def)
  next
    case False
    then have "read_number b (digits b (v div b)) = v div b" using "1.IH" "1.prems" by simp
    moreover have "undigit (digit (of_nat (v mod b))) = v mod b" using "1.prems" by (intro undigit_digit) (simp add: less_le_trans [of "v mod b" b])
    ultimately show ?thesis using False "1.prems" by (subst digits.simps) (simp add: read_number_def)
  qed
qed

section \<open>What a piece of output leaves in memory\<close>

text \<open>
  The bytes \<open>w\<close> were written at \<open>bp\<close>; the byte after them is as before or zero (\<^verbatim>\<open>strcpy\<close> copies the
  terminator), all others are as before.
\<close>

definition wrote :: "addr \<Rightarrow> u8 list \<Rightarrow> mem \<Rightarrow> mem \<Rightarrow> bool" where
  "wrote bp w m m' = ((\<forall>k<length w. m' (bp + of_nat k) = w ! k) \<and> (\<forall>x. x \<notin> region bp (Suc (length w)) \<longrightarrow> m' x = m x)
     \<and> (m' (bp + of_nat (length w)) = m (bp + of_nat (length w)) \<or> m' (bp + of_nat (length w)) = 0))"

lemma in_region: "n \<le> 2 ^ 32 \<Longrightarrow> k < 2 ^ 32 \<Longrightarrow> (a + of_nat k \<in> region a n) = (k < n)"
  by (auto simp: region_def of_nat_u32_eq)

lemma region_shift: "region (a + of_nat u) n \<subseteq> region a (u + n)"
  using region_append [of a u n] by blast

lemma not_in_region: "k < u \<Longrightarrow> u + n \<le> 2 ^ 32 \<Longrightarrow> a + of_nat k \<notin> region (a + of_nat u) n"
proof
  assume k: "k < u" "u + n \<le> 2 ^ 32" and "a + of_nat k \<in> region (a + of_nat u) n"
  then obtain i where i: "i < n" "of_nat k = (of_nat (u + i) :: u32)" by (auto simp: region_def add.assoc)
  moreover have "k < 2 ^ 32" "u + i < 2 ^ 32" using k i by simp_all
  ultimately show False using of_nat_u32_eq [of k "u + i"] k by simp
qed

lemma wrote_append:
  assumes "wrote bp u m m1" and "wrote (bp + of_nat (length u)) v m1 m2" and "length u + length v + 1 \<le> 2 ^ 32"
  shows "wrote bp (u @ v) m m2"
proof -
  let ?u = "length u" and ?v = "length v"
  have a: "m2 (bp + of_nat k) = (u @ v) ! k" if "k < ?u + ?v" for k
  proof (cases "k < ?u")
    case True
    then have "bp + of_nat k \<notin> region (bp + of_nat ?u) (Suc ?v)" using assms(3) by (intro not_in_region) auto
    then show ?thesis using assms(1,2) True by (simp add: wrote_def nth_append)
  next
    case False
    then have e: "bp + of_nat k = bp + of_nat ?u + of_nat (k - ?u)" by (simp add: add.assoc flip: of_nat_add)
    have "m2 (bp + of_nat ?u + of_nat (k - ?u)) = v ! (k - ?u)" by (rule assms(2) [unfolded wrote_def, THEN conjunct1, rule_format]) (use that False in \<open>simp\<close>)
    then show ?thesis unfolding e nth_append using False by (simp only: if_False)
  qed
  have b: "m2 x = m x" if "x \<notin> region bp (Suc (?u + ?v))" for x
  proof -
    have "region bp (Suc (?u + ?v)) = region bp ?u \<union> region (bp + of_nat ?u) (Suc ?v)" using region_append [of bp ?u "Suc ?v"] by simp
    moreover have "region bp (Suc ?u) \<subseteq> region bp (Suc (?u + ?v))" by (auto simp: region_def)
    ultimately have "x \<notin> region (bp + of_nat ?u) (Suc ?v)" "x \<notin> region bp (Suc ?u)" using that by auto
    then show ?thesis using assms(1,2) by (simp add: wrote_def)
  qed
  have e: "bp + of_nat ?u + of_nat ?v = bp + of_nat (?u + ?v)" by (simp add: add.assoc)
  have "m1 (bp + of_nat (?u + ?v)) = m (bp + of_nat (?u + ?v)) \<or> m1 (bp + of_nat (?u + ?v)) = 0"
  proof (cases "v = []")
    case False
    then have "bp + of_nat (?u + ?v) \<notin> region bp (Suc ?u)" using assms(3) in_region [of "Suc ?u" "?u + ?v" bp] by auto
    then show ?thesis using assms(1) unfolding wrote_def by blast
  qed (use assms(1) in \<open>simp add: wrote_def\<close>)
  then have "m2 (bp + of_nat (?u + ?v)) = m (bp + of_nat (?u + ?v)) \<or> m2 (bp + of_nat (?u + ?v)) = 0"
    using assms(2) unfolding wrote_def e by auto
  then show ?thesis using a b by (simp add: wrote_def)
qed

lemma wrote_one: "wrote bp [c] m (m(bp := c))"
  by (simp add: wrote_def region_Suc)

lemma wrote_nil: "wrote bp [] m m"
  by (simp add: wrote_def)

lemma cstr_bytes: "cstr m a xs \<Longrightarrow> (\<forall>k<length xs. m (a + of_nat k) = xs ! k) \<and> m (a + of_nat (length xs)) = 0"
proof (induction xs arbitrary: a)
  case (Cons x xs)
  then have ih: "\<forall>k<length xs. m (a + 1 + of_nat k) = xs ! k" "m (a + 1 + of_nat (length xs)) = 0" by auto
  have "m (a + of_nat k) = (x # xs) ! k" if "k < length (x # xs)" for k
    using that Cons.prems ih(1) by (cases k) (simp_all add: add.assoc)
  then show ?case using ih(2) by (simp add: add.assoc)
qed simp

section \<open>The pieces of output\<close>

lemma itoa_spec:
  assumes "base = 10 \<or> base = 16" and "length (digits (unat base) (unat v)) < 2 ^ 32"
  shows "\<exists>m'. itoa v bp base m = Some (bp + of_nat (length (digits (unat base) (unat v))), m')
    \<and> wrote bp (digits (unat base) (unat v)) m m'"
  using assms(2)
proof (induction "unat v" arbitrary: v rule: less_induct)
  case less
  let ?b = "ucast base :: u32" and ?n = "unat v"
  have b: "unat ?b = unat base" "unat base = 10 \<or> unat base = 16" "base \<noteq> 0" using assms(1) by auto
  have q: "unat (v div ?b) = ?n div unat base" "unat (v mod ?b) = ?n mod unat base" using b(1) by (simp_all add: unat_div unat_mod)
  have d: "v mod ?b = of_nat (?n mod unat base)" by (simp flip: q(2))
  show ?case
  proof (cases "?n < unat base")
    case True
    then have z: "v div ?b = 0" using q(1) by (simp add: word_unat_eq_iff)
    have dg: "digits (unat base) ?n = [digit (of_nat ?n)]" using True by (subst digits.simps) simp
    have "itoa v bp base m = Some (bp + 1, m(bp := digit (of_nat ?n)))"
      using b(3) z d True by (subst itoa.simps) simp
    then show ?thesis unfolding dg using wrote_one by auto
  next
    case False
    have dg: "digits (unat base) ?n = digits (unat base) (?n div unat base) @ [digit (of_nat (?n mod unat base))]"
      using False b(2) by (subst digits.simps) auto
    have nz: "v div ?b \<noteq> 0" using False b(2) q(1) by (auto simp: word_unat_eq_iff div_eq_0_iff)
    have lt: "unat (v div ?b) < ?n" using False b(2) unfolding q(1) by (auto intro!: div_less_dividend)
    let ?ds = "digits (unat base) (?n div unat base)"
    obtain m' where m': "itoa (v div ?b) bp base m = Some (bp + of_nat (length ?ds), m')" "wrote bp ?ds m m'"
      using less.hyps [OF lt] less.prems dg unfolding q(1) by auto
    have "itoa v bp base m = Some (bp + of_nat (length ?ds) + 1, m'(bp + of_nat (length ?ds) := digit (of_nat (?n mod unat base))))"
      using b(3) nz m'(1) d by (subst itoa.simps) simp
    moreover have "wrote bp (?ds @ [digit (of_nat (?n mod unat base))]) m (m'(bp + of_nat (length ?ds) := digit (of_nat (?n mod unat base))))"
      by (rule wrote_append [OF m'(2) wrote_one]) (use less.prems dg in \<open>simp\<close>)
    ultimately show ?thesis unfolding dg by (simp add: add.assoc)
  qed
qed

text \<open>The text that a format and its arguments stand for; \<open>st\<close> gives the strings at the addresses.\<close>

definition decimal :: "u32 \<Rightarrow> u8 list" where
  "decimal a = (if sint a < 0 then 0x2d # digits 10 (unat (0 - a)) else digits 10 (unat a))"

definition piece :: "(addr \<Rightarrow> u8 list) \<Rightarrow> u8 \<Rightarrow> u32 \<Rightarrow> u8 list option" where
  "piece st c a = (if c = 0x78 then Some (digits 16 (unat a)) else if c = 0x64 then Some (decimal a)
     else if c = 0x63 then Some [ucast a] else if c = 0x73 \<and> a \<noteq> NULL then Some (st a) else None)"

fun render :: "(addr \<Rightarrow> u8 list) \<Rightarrow> u8 list \<Rightarrow> u32 list \<Rightarrow> u8 list option" where
  "render st [] as = Some []"
| "render st [c] as = (if c = 0x25 then None else Some [c])"
| "render st (c # d # cs) as =
     (if c \<noteq> 0x25 then map_option ((#) c) (render st (d # cs) as)
      else case as of [] \<Rightarrow> None
        | a # as \<Rightarrow> do { p \<leftarrow> piece st d a; r \<leftarrow> render st cs as; Some (p @ r) })"

text \<open>The strings that the format reads.\<close>

fun strings :: "u8 list \<Rightarrow> u32 list \<Rightarrow> addr set" where
  "strings (c # d # cs) as =
     (if c \<noteq> 0x25 then strings (d # cs) as
      else case as of [] \<Rightarrow> {} | a # as \<Rightarrow> (if d = 0x73 then {a} else {}) \<union> strings cs as)"
| "strings _ as = {}"

lemma placeholder_spec:
  assumes "piece st c a = Some p" and "length p + 1 < 2 ^ 32" and "bp \<noteq> NULL"
    and "c = 0x73 \<Longrightarrow> cstr m a (st a) \<and> region bp (Suc (length p)) \<inter> region a (Suc (length (st a))) = {}"
  shows "\<exists>m'. placeholder c bp (a # as) m = Some (bp + of_nat (length p), as, m') \<and> wrote bp p m m'"
proof -
  consider (x) "c = 0x78" "p = digits 16 (unat a)" | (d) "c = 0x64" "p = decimal a" | (c) "c = 0x63" "p = [ucast a]"
    | (s) "c = 0x73" "a \<noteq> NULL" "p = st a"
    using assms(1) by (auto simp: piece_def split: if_splits)
  then show ?thesis
  proof cases
    case x
    then show ?thesis using itoa_spec [of 16 a bp m] assms(2) by (auto simp: placeholder_def va_arg_def)
  next
    case d
    show ?thesis
    proof (cases "sint a < 0")
      case True
      then have p: "p = [0x2d] @ digits 10 (unat (0 - a))" using d(2) by (simp add: decimal_def)
      obtain m' where m': "itoa (0 - a) (bp + 1) 10 (m(bp := 0x2d)) = Some (bp + 1 + of_nat (length (digits 10 (unat (0 - a)))), m')"
        "wrote (bp + 1) (digits 10 (unat (0 - a))) (m(bp := 0x2d)) m'"
        using itoa_spec [of 10 "0 - a" "bp + 1" "m(bp := 0x2d)"] assms(2) p by auto
      have "wrote bp p m m'" unfolding p by (rule wrote_append [OF wrote_one]) (use m'(2) assms(2) p in \<open>simp_all\<close>)
      moreover have "placeholder c bp (a # as) m = Some (bp + of_nat (length p), as, m')"
        using d(1) True m'(1) p by (simp add: placeholder_def va_arg_def add.assoc)
      ultimately show ?thesis by blast
    next
      case False
      then show ?thesis using d itoa_spec [of 10 a bp m] assms(2) by (auto simp: placeholder_def va_arg_def decimal_def)
    qed
  next
    case c
    then show ?thesis using wrote_one [of bp "ucast a" m] by (auto simp: placeholder_def va_arg_def)
  next
    case s
    have cs: "cstr m a (st a)" and dis: "region bp (Suc (length (st a))) \<inter> region a (Suc (length (st a))) = {}"
      using assms(4) s by simp_all
    obtain m' where m': "strcpy_loop bp a m = Some m'" "cstr m' bp (st a)" "\<forall>x. x \<notin> region bp (Suc (length (st a))) \<longrightarrow> m' x = m x"
      using strcpy_cstr [OF cs _ dis] assms(2) s(3) by auto
    have "cstr m' a (st a)" using cs cstr_cong [of a "st a" m' m] m'(3) dis by blast
    then have "strlen a m' = Some (of_nat (length (st a)))" using s(2) by (rule strlen_cstr)
    then have "placeholder c bp (a # as) m = Some (bp + of_nat (length p), as, m')"
      using s m'(1) assms(3) by (simp add: placeholder_def va_arg_def strcpy_def)
    moreover have "wrote bp p m m'" using cstr_bytes [OF m'(2)] m'(3) s(3) by (simp add: wrote_def)
    ultimately show ?thesis by blast
  qed
qed

section \<open>The loop\<close>

text \<open>What the loop reads lies outside the set \<open>X\<close> of addresses that it may write.\<close>

definition readable :: "(addr \<Rightarrow> u8 list) \<Rightarrow> addr set \<Rightarrow> mem \<Rightarrow> addr \<Rightarrow> u8 list \<Rightarrow> u32 list \<Rightarrow> bool" where
  "readable st X m fp fs as = (cstr m fp fs \<and> X \<inter> region fp (Suc (length fs)) = {}
     \<and> (\<forall>a\<in>strings fs as. cstr m a (st a) \<and> X \<inter> region a (Suc (length (st a))) = {}))"

lemma cstr_keep:
  assumes "cstr m a xs" and "X \<inter> region a (Suc (length xs)) = {}" and "\<forall>x. x \<notin> X \<longrightarrow> m' x = m x"
  shows "cstr m' a xs"
  using assms cstr_cong [of a xs m' m] by blast

lemma readable_keep:
  assumes "readable st X m fp fs as" and "\<forall>x. x \<notin> X \<longrightarrow> m' x = m x" and "Y \<subseteq> X"
  shows "readable st Y m' fp fs as"
  using assms cstr_keep [of m _ _ X m'] unfolding readable_def by blast

lemma readable_char:
  assumes "readable st X m fp (c # d # cs) as" and "c \<noteq> 0x25"
  shows "readable st X m (fp + 1) (d # cs) as"
  using assms region_Suc [of fp "Suc (length (d # cs))"] by (auto simp: readable_def)

lemma readable_placeholder:
  assumes "readable st X m fp (0x25 # d # cs) (a # as)"
  shows "readable st X m (fp + 2) cs as" and "d = 0x73 \<Longrightarrow> cstr m a (st a) \<and> X \<inter> region a (Suc (length (st a))) = {}"
  using assms region_Suc [of fp "Suc (Suc (length cs))"] region_Suc [of "fp + 1" "Suc (length cs)"]
  by (auto simp: readable_def add.assoc)

lemma wrote_keep: "wrote bp w m m' \<Longrightarrow> region bp (Suc (length w)) \<subseteq> X \<Longrightarrow> \<forall>x. x \<notin> X \<longrightarrow> m' x = m x"
  unfolding wrote_def by blast

lemma region_parts:
  "region bp (Suc (length u)) \<subseteq> region bp (Suc (length (u @ v)))"
  "region (bp + of_nat (length u)) (Suc (length v)) \<subseteq> region bp (Suc (length (u @ v)))"
  using region_shift [of bp "length u" "Suc (length v)"] by (auto simp: region_def)

text \<open>One piece of output and the rest of the loop.\<close>

lemma format_step:
  assumes "wrote bp u m m1" and "length (u @ v) + 1 < 2 ^ 32"
    and "\<And>m1. readable st (region (bp + of_nat (length u)) (Suc (length v))) m1 fp fs as \<Longrightarrow>
      \<exists>m'. format_loop (bp + of_nat (length u)) fp as m1 = Some m' \<and> wrote (bp + of_nat (length u)) v m1 m'"
    and "readable st (region bp (Suc (length (u @ v)))) m fp fs as"
  shows "\<exists>m'. format_loop (bp + of_nat (length u)) fp as m1 = Some m' \<and> wrote bp (u @ v) m m'"
proof -
  have "readable st (region (bp + of_nat (length u)) (Suc (length v))) m1 fp fs as"
    by (rule readable_keep [OF assms(4) wrote_keep [OF assms(1) region_parts(1)] region_parts(2)])
  then obtain m' where "format_loop (bp + of_nat (length u)) fp as m1 = Some m'" "wrote (bp + of_nat (length u)) v m1 m'"
    using assms(3) by blast
  moreover from this have "wrote bp (u @ v) m m'" using wrote_append [OF assms(1)] assms(2) by simp
  ultimately show ?thesis by blast
qed

lemma format_loop_spec:
  assumes "render st fs as = Some out" and "length out + 1 < 2 ^ 32" and "NULL \<notin> region bp (Suc (length out))"
    and "readable st (region bp (Suc (length out))) m fp fs as"
  shows "\<exists>m'. format_loop bp fp as m = Some m' \<and> wrote bp out m m'"
  using assms
proof (induction st fs as arbitrary: bp fp m out rule: render.induct)
  case (1 st as)
  then have "m fp = 0" by (simp add: readable_def)
  then show ?case using 1 wrote_nil by (subst format_loop.simps) simp
next
  case (2 st c as)
  then have c: "c \<noteq> 0x25" "out = [c]" "m fp = c" "c \<noteq> 0" "m (fp + 1) = 0" "bp \<noteq> fp + 1"
    by (auto simp: readable_def region_Suc split: if_splits)
  then have "format_loop bp fp as m = Some (m(bp := c))" by (subst format_loop.simps, subst format_loop.simps) simp
  then show ?case using c wrote_one by simp
next
  case (3 st c d cs as)
  have hd: "m fp = c" "c \<noteq> 0" "m (fp + 1) = d" using "3.prems"(4) by (simp_all add: readable_def)
  show ?case
  proof (cases "c = 0x25")
    case False
    then obtain r where r: "render st (d # cs) as = Some r" "out = [c] @ r" using "3.prems"(1) by auto
    have rd: "readable st (region bp (Suc (length ([c] @ r)))) m (fp + 1) (d # cs) as"
      using readable_char [OF "3.prems"(4) False] r(2) by simp
    have nn: "NULL \<notin> region (bp + of_nat (length [c])) (Suc (length r))" using "3.prems"(3) r(2) region_parts(2) [of bp "[c]" r] by blast
    have "\<exists>m'. format_loop (bp + of_nat (length [c])) (fp + 1) as (m(bp := c)) = Some m' \<and> wrote bp ([c] @ r) m m'"
      using "3.prems"(2) r(2) nn by (intro format_step [OF wrote_one _ "3.IH"(1) [OF False r(1)] rd]) auto
    then show ?thesis using False hd r(2) by (subst format_loop.simps) simp
  next
    case True
    then obtain a as' p r where r: "as = a # as'" "piece st d a = Some p" "render st cs as' = Some r" "out = p @ r"
      using "3.prems"(1) by (auto split: list.splits bind_splits)
    let ?X = "region bp (Suc (length (p @ r)))"
    have rd: "readable st ?X m (fp + 2) cs as'" and sd: "d = 0x73 \<Longrightarrow> cstr m a (st a) \<and> ?X \<inter> region a (Suc (length (st a))) = {}"
      using readable_placeholder [of st ?X m fp d cs a as'] "3.prems"(4) True r(1,4) by simp_all
    have nn: "NULL \<notin> region (bp + of_nat (length p)) (Suc (length r))" "bp \<noteq> NULL"
      using "3.prems"(3) r(4) region_parts(2) [of bp p r] by (auto simp: region_Suc)
    obtain m1 where m1: "placeholder d bp (a # as') m = Some (bp + of_nat (length p), as', m1)" "wrote bp p m m1"
      using placeholder_spec [OF r(2) _ nn(2)] sd "3.prems"(2) r(4) region_parts(1) [of bp p r] by fastforce
    have "\<exists>m'. format_loop (bp + of_nat (length p)) (fp + 2) as' m1 = Some m' \<and> wrote bp (p @ r) m m'"
      using "3.prems"(2) r(4) nn(1) by (intro format_step [OF m1(2) _ "3.IH"(2) [OF _ r(1,2,3)] rd]) (auto simp: True)
    then show ?thesis using hd True m1(1) r(1,4) by (subst format_loop.simps) simp
  qed
qed

lemma bytes_cstr: "\<forall>k<length xs. m (a + of_nat k) = xs ! k \<Longrightarrow> m (a + of_nat (length xs)) = 0 \<Longrightarrow> 0 \<notin> set xs \<Longrightarrow> cstr m a xs"
proof (induction xs arbitrary: a)
  case (Cons x xs)
  have "m (a + 1 + of_nat k) = xs ! k" if "k < length xs" for k
    using Cons.prems(1) [rule_format, of "Suc k"] that by (simp add: add.assoc)
  moreover have "m a = x" using Cons.prems(1) [rule_format, of 0] by simp
  ultimately show ?case using Cons.IH [of "a + 1"] Cons.prems(2,3) by (simp add: add.assoc)
qed simp

lemma length_digits: "2 \<le> b \<Longrightarrow> v < 2 ^ Suc k \<Longrightarrow> length (digits b v) \<le> Suc k"
proof (induction k arbitrary: v)
  case 0
  then show ?case by (subst digits.simps) simp
next
  case (Suc k)
  then have "v div b \<le> v div 2" by (simp add: div_le_mono2)
  then have "length (digits b (v div b)) \<le> Suc k" using Suc by (intro Suc.IH) simp_all
  then show ?case by (subst digits.simps) simp
qed

section \<open>The properties\<close>

text \<open>
  C20: \<^verbatim>\<open>vsprintf\<close> puts at \<^verbatim>\<open>str\<close> the text that the format stands for, with every \<^verbatim>\<open>%x\<close>, \<^verbatim>\<open>%d\<close>, \<^verbatim>\<open>%c\<close> and
  \<^verbatim>\<open>%s\<close> replaced by its argument, and returns its length, changing nothing else, when the format and
  the strings lie outside the output, no byte of the text is zero, and the byte after the output
  was zero before the call. The last condition is needed because the routine does not store a
  terminator itself.
\<close>

theorem vsprintf_correct:
  assumes "render st fs args = Some out" and "0 \<notin> set out" and "length out + 1 < 2 ^ 32"
    and "NULL \<notin> region str (Suc (length out))" and "m (str + of_nat (length out)) = 0"
    and "readable st (region str (Suc (length out))) m format fs args"
  shows "\<exists>m'. vsprintf str format args m = Some (of_nat (length out), m') \<and> cstr m' str out
    \<and> (\<forall>x. x \<notin> region str (Suc (length out)) \<longrightarrow> m' x = m x)"
proof -
  obtain m' where m': "format_loop str format args m = Some m'" "wrote str out m m'"
    using format_loop_spec [OF assms(1,3,4,6)] by blast
  have "cstr m' str out" using m'(2) assms(2,5) unfolding wrote_def by (intro bytes_cstr) auto
  moreover have "str \<noteq> NULL" using assms(4) by (auto simp: region_Suc)
  ultimately show ?thesis using m' strlen_cstr [of m' str out] by (auto simp: vsprintf_def wrote_def)
qed

theorem vsprintf_correct_witness:
  "\<exists>m'. vsprintf 64 16 [- 12] ((\<lambda>_. 0)(16 := 0x3d, 17 := 0x25, 18 := 0x64)) = Some (4, m')
    \<and> cstr m' 64 [0x3d, 0x2d, 0x31, 0x32]"
proof -
  let ?m = "(\<lambda>_. 0)(16 := 0x3d, 17 := 0x25, 18 := 0x64) :: mem"
  have d: "decimal (- 12) = [0x2d, 0x31, 0x32]"
    by (simp add: decimal_def digits.simps [of 10] digit_def)
  have r: "render (\<lambda>_. []) [0x3d, 0x25, 0x64] [- 12] = Some [0x3d, 0x2d, 0x31, 0x32]"
    by (simp add: piece_def d)
  show ?thesis
    using vsprintf_correct [OF r, of 64 ?m 16] by (force simp: region_Suc readable_def)
qed

text \<open>
  \<^verbatim>\<open>itoa\<close> ends for every value and both bases in use, and the digits it stores, read as a
  number in that base, are the value; bases and values are all 32-bit, so at most 32 bytes are
  written.
\<close>

theorem itoa_roundtrip:
  assumes "base = 10 \<or> base = 16"
  shows "\<exists>ds m'. itoa v bp base m = Some (bp + of_nat (length ds), m') \<and> wrote bp ds m m'
    \<and> read_number (unat base) ds = unat v \<and> length ds \<le> 32"
proof -
  let ?ds = "digits (unat base) (unat v)"
  have b: "2 \<le> unat base" "unat base \<le> 16" using assms by auto
  have l: "length ?ds \<le> 32" using length_digits [OF b(1), of "unat v" 31] unsigned_less [of v] by simp
  then show ?thesis using itoa_spec [OF assms, of v bp m] read_digits [OF b] by fastforce
qed

theorem itoa_roundtrip_witness:
  "\<exists>ds m'. itoa 255 64 16 (\<lambda>_. 0) = Some (64 + of_nat (length ds), m') \<and> wrote 64 ds (\<lambda>_. 0) m' \<and> read_number 16 ds = 255"
  using itoa_roundtrip [of 16 255 64 "\<lambda>_. 0"] by auto

text \<open>Without the zero byte the result runs on into what lay behind the output.\<close>

lemma vsprintf_not_terminated:
  "map_option fst (vsprintf 64 16 [] ((\<lambda>_. 0)(16 := 0x61, 65 := 0x7a))) = Some 2"
  by (simp add: vsprintf_def strlen_def format_loop.simps skip_string.simps)

end
