(* ===== verification/Exec.thy ===== *)
theory Exec
  imports Fork Stdio
begin

unbundle bit_operations_syntax

text \<open>
  \<^verbatim>\<open>userprog/exec.c\<close>, loading a program and jumping to it, and the process listing of \<^verbatim>\<open>thread/thread.c\<close>. What
  \<^verbatim>\<open>sys_read\<close> delivers for a user address is stored byte by byte through the page tables of the running
  process; a fault there is \<open>None\<close>. Paths and names are byte lists without terminator.
\<close>

section \<open>Loading a program\<close>

text \<open>A byte of the 32-bit words that the machine's memory is made of.\<close>

definition set_byte :: "nat \<Rightarrow> u8 \<Rightarrow> u32 \<Rightarrow> u32" where
  "set_byte k b w = w AND NOT (push_bit (8 * k) 0xff) OR push_bit (8 * k) (ucast b)"

definition store8 :: "addr \<Rightarrow> u8 \<Rightarrow> 'a vmstate_scheme \<Rightarrow> 'a vmstate_scheme option" where
  "store8 va b s = do {
     let base = va AND NOT 3;
     w \<leftarrow> load32 base s;
     store32 base (set_byte (unat (va AND 3)) b w) s
   }"

primrec store_bytes :: "u8 list \<Rightarrow> addr \<Rightarrow> 'a vmstate_scheme \<Rightarrow> 'a vmstate_scheme option" where
  "store_bytes [] va s = Some s"
| "store_bytes (b # bs) va s = do { s \<leftarrow> store8 va b s; store_bytes bs (va + 1) s }"

text \<open>A system call on a descriptor that reads \<^verbatim>\<open>count\<close> bytes into a kernel buffer.\<close>

definition read_fd :: "u32 \<Rightarrow> u32 \<Rightarrow> 'a pstate_scheme \<Rightarrow> ((u32 \<times> u8 list) \<times> 'a pstate_scheme) option" where
  "read_fd fd count s = on_fs (\<lambda>f. do { (n, bytes, f) \<leftarrow> sys_read fd count f; Some ((n, bytes), f) }) s"

definition SEEK_SET :: u8 where "SEEK_SET = 1"

primrec load_pages :: "nat \<Rightarrow> addr \<Rightarrow> 'a pstate_scheme \<Rightarrow> (bool \<times> 'a pstate_scheme) option" where
  "load_pages 0 vaddr_page s = Some (True, s)"
| "load_pages (Suc n) vaddr_page s = do {
     pde \<leftarrow> load32 (pde_ptr vaddr_page) s;
     absent \<leftarrow> (if pde AND 1 = 0 then Some True
                else do { pte \<leftarrow> load32 (pte_ptr vaddr_page) s; Some (pte AND 1 = 0) });
     (ok, s) \<leftarrow> (if absent then do { (page, s) \<leftarrow> get_a_page PF_USER vaddr_page s; Some (page \<noteq> NULL, s) }
                 else Some (True, s));
     if ok then load_pages n (vaddr_page + of_nat PG_SIZE) s else Some (False, s)
   }"

definition occupy_pages :: "u32 \<Rightarrow> u32 \<Rightarrow> u32" where
  "occupy_pages filesz vaddr =
     (let size_in_first_page = of_nat PG_SIZE - (vaddr AND 0xfff)
      in if size_in_first_page < filesz then (filesz - size_in_first_page + of_nat PG_SIZE - 1) div of_nat PG_SIZE + 1 else 1)"

definition segment_load :: "u32 \<Rightarrow> u32 \<Rightarrow> u32 \<Rightarrow> u32 \<Rightarrow> 'a pstate_scheme \<Rightarrow> (bool \<times> 'a pstate_scheme) option" where
  "segment_load fd offset filesz vaddr s = do {
     (ok, s) \<leftarrow> load_pages (unat (occupy_pages filesz vaddr)) (vaddr AND 0xfffff000) s;
     if \<not> ok then Some (False, s)
     else do {
       (_, s) \<leftarrow> on_fs (sys_lseek fd offset SEEK_SET) s;
       (r, s) \<leftarrow> read_fd fd filesz s;
       s \<leftarrow> store_bytes (snd r) vaddr s;
       Some (True, s)
     }
   }"

record Elf32_Ehdr =
  e_ident :: "u8 list"
  e_type :: u16
  e_machine :: u16
  e_version :: u32
  e_entry :: u32
  e_phoff :: u32
  e_phentsize :: u16
  e_phnum :: u16

record Elf32_Phdr =
  p_type :: u32
  p_offset :: u32
  p_vaddr :: u32
  p_filesz :: u32

definition get16 :: "u8 list \<Rightarrow> nat \<Rightarrow> u16" where
  "get16 bs off = ucast (bs ! off) OR push_bit 8 (ucast (bs ! (off + 1)))"

definition decode_ehdr :: "u8 list \<Rightarrow> Elf32_Ehdr" where
  "decode_ehdr b = \<lparr>e_ident = take 16 b, e_type = get16 b 16, e_machine = get16 b 18, e_version = get32 b 20, e_entry = get32 b 24,
     e_phoff = get32 b 28, e_phentsize = get16 b 42, e_phnum = get16 b 44\<rparr>"

definition decode_phdr :: "u8 list \<Rightarrow> Elf32_Phdr" where
  "decode_phdr b = \<lparr>p_type = get32 b 0, p_offset = get32 b 4, p_vaddr = get32 b 8, p_filesz = get32 b 16\<rparr>"

definition ehdr_ok :: "Elf32_Ehdr \<Rightarrow> bool" where
  "ehdr_ok h = (take 7 (e_ident h) = [0x7f, 0x45, 0x4c, 0x46, 1, 1, 1] \<and> e_type h = 2 \<and> e_machine h = 3 \<and> e_version h = 1
     \<and> e_phnum h \<le> 1024 \<and> e_phentsize h = 32)"

definition PT_LOAD :: u32 where "PT_LOAD = 1"

primrec load_segments :: "nat \<Rightarrow> u32 \<Rightarrow> u32 \<Rightarrow> u16 \<Rightarrow> 'a pstate_scheme \<Rightarrow> (bool \<times> 'a pstate_scheme) option" where
  "load_segments 0 fd phoff phentsize s = Some (True, s)"
| "load_segments (Suc n) fd phoff phentsize s = do {
     (_, s) \<leftarrow> on_fs (sys_lseek fd phoff SEEK_SET) s;
     (r, s) \<leftarrow> read_fd fd (ucast phentsize) s;
     if fst r \<noteq> ucast phentsize then Some (False, s)
     else do {
       let phdr = decode_phdr (put 0 (snd r) (replicate 32 0));
       (ok, s) \<leftarrow> (if p_type phdr = PT_LOAD then segment_load fd (p_offset phdr) (p_filesz phdr) (p_vaddr phdr) s
                   else Some (True, s));
       if ok then load_segments n fd (phoff + ucast phentsize) phentsize s else Some (False, s)
     }
   }"

definition O_RDONLY :: u8 where "O_RDONLY = 0"

definition load :: "u8 list \<Rightarrow> 'a pstate_scheme \<Rightarrow> (u32 \<times> 'a pstate_scheme) option" where
  "load pathname s = do {
     (fd, s) \<leftarrow> on_fs (sys_open pathname O_RDONLY) s;
     if fd = - 1 then Some (- 1, s)
     else do {
       (r, s) \<leftarrow> read_fd fd 52 s;
       let ehdr = decode_ehdr (put 0 (snd r) (replicate 52 0));
       (ok, s) \<leftarrow> (if fst r \<noteq> 52 \<or> \<not> ehdr_ok ehdr then Some (False, s)
                   else load_segments (unat (e_phnum ehdr)) fd (e_phoff ehdr) (e_phentsize ehdr) s);
       (_, s) \<leftarrow> on_fs (sys_close fd) s;
       Some (if ok then e_entry ehdr else - 1, s)
     }
   }"

text \<open>The pointers up to the null pointer.\<close>

partial_function (option) count_args :: "addr \<Rightarrow> 'a vmstate_scheme \<Rightarrow> u32 option" where
  "count_args argv s =
     Option.bind (load32 argv s) (\<lambda>p. if p = NULL then Some 0 else Option.bind (count_args (argv + 4) s) (\<lambda>n. Some (n + 1)))"

text \<open>
  On success the code does not return to its caller but to user mode, through the frame at the top of
  the kernel stack. The 16 bytes copied for the name may reach past the terminator of the path; those
  are shown as zeros.
\<close>

definition sys_execv :: "u8 list \<Rightarrow> addr \<Rightarrow> 'a pstate_scheme \<Rightarrow> (u32 \<times> 'a pstate_scheme) option" where
  "sys_execv path argv s = do {
     ASSERT (argv \<noteq> NULL);
     argc \<leftarrow> count_args argv s;
     (entry_point, s) \<leftarrow> load path s;
     if entry_point = - 1 then Some (- 1, s)
     else do {
       let cur = running_thread s;
       let s = upd_task cur (\<lambda>t. t\<lparr>tname := take 15 (path @ replicate 15 0) @ [0]\<rparr>) s;
       let intr_0_stack = cur + of_nat PG_SIZE - intr_stack_size;
       let fr = (frames s intr_0_stack)\<lparr>f_ebx := argv, f_ecx := argc, f_eip := entry_point, f_esp := 0xc0000000\<rparr>;
       Some (0, s\<lparr>frames := (frames s)(intr_0_stack := fr), esp := intr_0_stack, konts := (konts s)(cur := [Iret (f_eflags fr)])\<rparr>)
     }
   }"

section \<open>The process listing\<close>

definition write_out :: "u8 list \<Rightarrow> 'a pstate_scheme \<Rightarrow> 'a pstate_scheme option" where
  "write_out buf s = do { (_, s) \<leftarrow> on_fs (sys_write 1 buf) s; Some s }"

text \<open>
  The case \<^verbatim>\<open>'d'\<close> runs on into \<^verbatim>\<open>'x'\<close>, so a number is written in hexadecimal over its decimal form. Both begin at
  the start of the buffer and \<^verbatim>\<open>vsprintf\<close> stores no terminator, so what the longer decimal form has beyond the
  hexadecimal one stays.
\<close>

datatype pad_arg = Pad_s "u8 list" | Pad_d u32 u32 | Pad_x u32

text \<open>Text written over other text from the start of a zeroed buffer: the string that lies there then.\<close>

definition over :: "u8 list \<Rightarrow> u8 list \<Rightarrow> u8 list" where
  "over new old = new @ drop (length new) old"

definition pad_text :: "pad_arg \<Rightarrow> u8 list" where
  "pad_text a = (case a of Pad_s str \<Rightarrow> str | Pad_d d x \<Rightarrow> over (digits 16 (unat x)) (decimal d) | Pad_x x \<Rightarrow> digits 16 (unat x))"

definition pad_print :: "nat \<Rightarrow> pad_arg \<Rightarrow> 'a pstate_scheme \<Rightarrow> 'a pstate_scheme option" where
  "pad_print buf_len a s = do {
     let out = pad_text a;
     ASSERT (length out < buf_len);
     write_out (take (buf_len - 1) (out @ replicate (buf_len - length out) 0x20)) s
   }"

definition status_text :: "task_status \<Rightarrow> u8 list" where
  "status_text st = (case st of TASK_RUNNING \<Rightarrow> ascii ''RUNNING'' | TASK_READY \<Rightarrow> ascii ''READY'' | TASK_BLOCKED \<Rightarrow> ascii ''BLOCKED''
     | TASK_WAITING \<Rightarrow> ascii ''WAITING'' | TASK_HANGING \<Rightarrow> ascii ''HANGING'' | TASK_DIED \<Rightarrow> ascii ''DIED'')"

text \<open>
  \<^verbatim>\<open>&pthread->pid\<close> is read as 16 bits for \<^verbatim>\<open>%d\<close> and as 32 bits for \<^verbatim>\<open>%x\<close>; the two bytes behind it are the
  padding in front of \<^verbatim>\<open>status\<close>, zero since the page was cleared. \<^verbatim>\<open>parent_pid\<close> has 32 bits, of which \<^verbatim>\<open>%d\<close> reads
  the lower 16 with their sign. A name of 15 bytes and the line feed do not fit the 16-byte buffer.
\<close>

definition elem2thread_info :: "addr \<Rightarrow> int \<Rightarrow> 'a pstate_scheme \<Rightarrow> (bool \<times> 'a pstate_scheme) option" where
  "elem2thread_info pelem arg s = do {
     let t = task s (all_list_tag_entry pelem);
     s \<leftarrow> pad_print 16 (Pad_d (scast (pid t)) (ucast (pid t))) s;
     s \<leftarrow> pad_print 16 (if parent_pid t = - 1 then Pad_s (ascii ''NULL'')
                        else Pad_d (scast (ucast (parent_pid t) :: u16)) (parent_pid t)) s;
     s \<leftarrow> pad_print 16 (Pad_s (status_text (status t))) s;
     s \<leftarrow> pad_print 16 (Pad_x (elapsed_ticks t)) s;
     let name = takeWhile (\<lambda>b. b \<noteq> 0) (tname t);
     ASSERT (length name + 1 < 16);
     s \<leftarrow> write_out (name @ [0x0a]) s;
     Some (False, s)
   }"

definition ps_title :: "u8 list" where
  "ps_title = ascii ''PID            PPID           STAT           TICKS          COMMAND'' @ [0x0a]"

definition sys_ps :: "'a pstate_scheme \<Rightarrow> 'a pstate_scheme option" where
  "sys_ps s = do {
     s \<leftarrow> write_out ps_title s;
     (_, s) \<leftarrow> list_traversal (thread_all_list s) elem2thread_info 0 s;
     Some s
   }"

definition sys_getpid :: "'a pstate_scheme \<Rightarrow> u32" where
  "sys_getpid s = ucast (pid (task s (running_thread s)))"

section \<open>Properties\<close>

lemma low_bits_mod: "unat (v AND 0xfff) = unat (v :: u32) mod 4096"
  by (simp add: paging_masks(2) unat_mod take_bit_eq_mod flip: take_bit_eq_mask)

lemma page_part: "unat (v AND 0xfffff000) = unat (v :: u32) - unat v mod 4096"
proof -
  have "(v AND push_bit 12 (mask 20)) + (v AND mask 12) = (v AND push_bit 12 (mask 20)) OR (v AND mask 12)"
    by (rule disjunctive_add) (auto simp: bit_simps)
  also have "\<dots> = v" by (rule bit_word_eqI) (auto simp: bit_simps dest: bit_u32_bound)
  finally have "v AND 0xfffff000 = v - (v AND 0xfff)" by (simp add: paging_masks algebra_simps)
  moreover have "v AND 0xfff \<le> v" by (simp add: word_le_nat_alt low_bits_mod)
  ultimately show ?thesis by (simp add: unat_sub low_bits_mod)
qed



text \<open>
  What \<^verbatim>\<open>ps\<close> prints for a process number below 10 is its digit, but the case for decimal numbers has no
  \<^verbatim>\<open>break\<close>: the process with number 10 is listed as \<^verbatim>\<open>a0\<close>, its hexadecimal digit over the decimal ones.
\<close>

lemma ps_number_text:
  "pad_text (Pad_d 9 9) = ascii ''9'' \<and> pad_text (Pad_d 10 10) = ascii ''a0''"
proof -
  have d: "digits 10 9 = [0x39]" "digits 10 10 = [0x31, 0x30]" "digits 16 9 = [0x39]" "digits 16 10 = [0x61]"
    by (subst digits.simps, simp add: digit_def, (subst digits.simps, simp add: digit_def)?)+
  then show ?thesis by (simp add: pad_text_def decimal_def over_def ascii_def)
qed

end
