(* ===== verification/Shell_path.thy ===== *)
theory Shell_path
  imports Fs_props
begin

text \<open>
  \<^verbatim>\<open>shell/path_parse.c\<close>: the shell's absolute paths without \<^verbatim>\<open>.\<close> and \<^verbatim>\<open>..\<close>. A path is the list of its
  bytes without the terminator; a name that leaves no room for its terminator in the 16-byte buffer is
  \<open>None\<close>, as is a path longer than the 512-byte buffer of the caller.
\<close>

section \<open>The code\<close>

text \<open>The text in front of the last slash, \<^verbatim>\<open>*strrchr(new_abs_path, '/') = 0\<close>.\<close>

definition before_last_slash :: "u8 list \<Rightarrow> u8 list" where
  "before_last_slash p = rev (tl (dropWhile (\<lambda>c. c \<noteq> slash) (rev p)))"

definition wash_name :: "u8 list \<Rightarrow> u8 list \<Rightarrow> u8 list option" where
  "wash_name name new_abs_path =
     (if name = dotdot then do {
        ASSERT (slash \<in> set new_abs_path);
        let before = before_last_slash new_abs_path;
        Some (if before \<noteq> [] then before else [slash])
      }
      else if name \<noteq> dot then
        Some ((if new_abs_path \<noteq> [slash] then new_abs_path @ [slash] else new_abs_path) @ name)
      else Some new_abs_path)"

function wash_loop :: "u8 list \<Rightarrow> u8 list option \<Rightarrow> u8 list \<Rightarrow> u8 list option" where
  "wash_loop name sub_path new_abs_path =
     (if name = [] then Some new_abs_path
      else do {
        ASSERT (length name < MAX_FILE_NAME_LEN);
        new_abs_path \<leftarrow> wash_name name new_abs_path;
        wash_loop (fst (parse_next sub_path)) (snd (parse_next sub_path)) new_abs_path
      })"
  by pat_completeness auto
termination
proof (relation "measure (\<lambda>(name, p, new). path_size p + (if name = [] then 0 else 1))")
  fix name new new' :: "u8 list" and p :: "u8 list option"
  assume "name \<noteq> []"
  from parse_next_shrinks [OF prod.collapse [symmetric] this, of p]
  show "((fst (parse_next p), snd (parse_next p), new'), name, p, new)
      \<in> measure (\<lambda>(name, p, new). path_size p + (if name = [] then 0 else 1))"
    by (simp only: in_measure split_conv)
qed simp

declare wash_loop.simps [simp del]

definition wash_path :: "u8 list \<Rightarrow> u8 list option" where
  "wash_path old_abs_path = do {
     ASSERT (old_abs_path \<noteq> [] \<and> hd old_abs_path = slash);
     let (name, sub_path) = path_parse old_abs_path;
     if name = [] then Some [slash] else wash_loop name sub_path [slash]
   }"

section \<open>Resolving names\<close>

text \<open>What the names of a path lead to: the names from the root, kept as a stack.\<close>

definition enter :: "u8 list list \<Rightarrow> u8 list \<Rightarrow> u8 list list" where
  "enter st n = (if n = dotdot then butlast st else if n = dot then st else st @ [n])"

definition resolve :: "u8 list list \<Rightarrow> u8 list list" where
  "resolve ns = foldl enter [] ns"

definition absolute :: "u8 list list \<Rightarrow> u8 list" where
  "absolute ns = (if ns = [] then [slash] else join ns)"

definition clear_names :: "u8 list list \<Rightarrow> bool" where
  "clear_names ns = (proper_names ns \<and> dot \<notin> set ns \<and> dotdot \<notin> set ns)"

lemma join_snoc: "join (ns @ [n]) = join ns @ slash # n"
  by (simp add: join_def)

lemma absolute_snoc: "absolute (ns @ [n]) = join ns @ slash # n"
  by (simp add: absolute_def join_snoc)

lemma absolute_root: "proper_names ns \<Longrightarrow> (absolute ns = [slash]) = (ns = [])"
  by (cases ns) (auto simp: absolute_def join_def proper_names_def)

lemma before_last_snoc: "slash \<notin> set n \<Longrightarrow> before_last_slash (p @ slash # n) = p"
  unfolding before_last_slash_def rev_append rev.simps append_assoc by (subst dropWhile_append2) auto

lemma proper_enter: "proper_names st \<Longrightarrow> n \<noteq> [] \<Longrightarrow> slash \<notin> set n \<Longrightarrow> proper_names (enter st n)"
  by (auto simp: enter_def proper_names_def dest: in_set_butlastD)

lemma clear_enter: "clear_names st \<Longrightarrow> n \<noteq> [] \<Longrightarrow> slash \<notin> set n \<Longrightarrow> clear_names (enter st n)"
  using proper_enter [of st n] by (auto simp: clear_names_def enter_def dest: in_set_butlastD)

lemma wash_name_enter:
  assumes "proper_names st" and "n \<noteq> []" and "slash \<notin> set n"
  shows "wash_name n (absolute st) = Some (absolute (enter st n))"
proof (cases "n = dotdot")
  case True
  show ?thesis
  proof (cases st rule: rev_cases)
    case Nil
    then show ?thesis using True by (simp add: wash_name_def enter_def absolute_def before_last_slash_def)
  next
    case (snoc st' k)
    then have "slash \<notin> set k" using assms(1) by (simp add: proper_names_def)
    then have "before_last_slash (absolute st) = join st'" unfolding snoc absolute_snoc by (rule before_last_snoc)
    moreover have "slash \<in> set (absolute st)" unfolding snoc absolute_snoc by simp
    moreover have "join st' = [] \<longleftrightarrow> st' = []" by (cases st') (simp_all add: join_def)
    ultimately show ?thesis using True snoc by (simp add: wash_name_def enter_def absolute_def)
  qed
next
  case False
  then show ?thesis using absolute_root [OF assms(1)] by (auto simp: wash_name_def enter_def absolute_def join_def)
qed

lemma proper_names_names: "slash \<notin> set cur \<Longrightarrow> proper_names (names cur p)"
proof (induction cur p rule: names.induct)
  case (2 cur c cs)
  then show ?case by (cases "c = slash"; cases "cur = []") (simp_all add: proper_names_def)
qed (simp add: proper_names_def)

definition rest_names :: "u8 list option \<Rightarrow> u8 list list" where
  "rest_names p = (case p of None \<Rightarrow> [] | Some q \<Rightarrow> names [] q)"

lemma rest_names_next: "rest_names p = (let (n, r) = parse_next p in if n = [] then [] else n # rest_names r)"
proof (cases p)
  case (Some q)
  obtain n r where "path_parse q = (n, r)" by fastforce
  then show ?thesis using names_parse [of q n r] Some by (simp add: rest_names_def parse_next_def)
qed (simp add: rest_names_def parse_next_def)

lemma wash_loop_spec:
  assumes "proper_names (name # rest_names p)" and "\<forall>n\<in>set (name # rest_names p). length n < MAX_FILE_NAME_LEN" and "proper_names st"
  shows "wash_loop name p (absolute st) = Some (absolute (foldl enter st (name # rest_names p)))"
  using assms
proof (induction "length (rest_names p)" arbitrary: name p st)
  case 0
  have z: "fst (parse_next p) = []" using 0(1) rest_names_next [of p] by (auto simp: Let_def split: prod.splits if_splits)
  have n: "name \<noteq> []" "slash \<notin> set name" "length name < MAX_FILE_NAME_LEN" using "0.prems" by (simp_all add: proper_names_def)
  have "wash_loop name p (absolute st) = wash_loop [] (snd (parse_next p)) (absolute (enter st name))"
    using n wash_name_enter [OF "0.prems"(3) n(1,2)] z by (subst wash_loop.simps) simp
  then show ?case using 0(1) by (simp add: wash_loop.simps)
next
  case (Suc k)
  obtain n r where nr: "parse_next p = (n, r)" by fastforce
  then have e: "rest_names p = n # rest_names r" using Suc.hyps(2) rest_names_next [of p] by (auto split: if_splits)
  have m: "name \<noteq> []" "slash \<notin> set name" "length name < MAX_FILE_NAME_LEN" using Suc.prems by (simp_all add: proper_names_def)
  have "wash_loop name p (absolute st) = wash_loop n r (absolute (enter st name))"
    using m wash_name_enter [OF Suc.prems(3) m(1,2)] nr by (subst wash_loop.simps) simp
  also have "\<dots> = Some (absolute (foldl enter (enter st name) (n # rest_names r)))"
    using Suc.prems Suc.hyps(2) e proper_enter [OF Suc.prems(3) m(1,2)] by (intro Suc.hyps(1)) (simp_all add: proper_names_def)
  finally show ?case using e by simp
qed

lemma clear_resolve: "proper_names ns \<Longrightarrow> clear_names st \<Longrightarrow> clear_names (foldl enter st ns)"
  by (induction ns arbitrary: st) (simp_all add: proper_names_def clear_enter)

lemma set_resolve: "set (foldl enter st ns) \<subseteq> set st \<union> set ns"
proof (induction ns arbitrary: st)
  case (Cons n ns)
  have "set (enter st n) \<subseteq> insert n (set st)" by (auto simp: enter_def dest: in_set_butlastD)
  then show ?case using Cons.IH [of "enter st n"] by auto
qed simp

lemma resolve_clear: "clear_names ns \<Longrightarrow> resolve ns = ns"
proof (induction ns rule: rev_induct)
  case (snoc n ns)
  then show ?case by (auto simp: resolve_def clear_names_def enter_def proper_names_def)
qed (simp add: resolve_def)

lemma names_absolute: "proper_names ns \<Longrightarrow> names [] (absolute ns) = ns"
  using names_join by (simp add: absolute_def)

section \<open>The properties\<close>

text \<open>
  C19: \<^verbatim>\<open>wash_path\<close> ends on every absolute path whose names fit their buffer, with the path that
  entering its names one by one leads to: \<^verbatim>\<open>.\<close> stays, \<^verbatim>\<open>..\<close> leaves the last directory and stays at the root,
  slashes that repeat or end the path count once or not at all. The result has no \<^verbatim>\<open>.\<close> and no
  \<^verbatim>\<open>..\<close> left and is a fixed point of \<^verbatim>\<open>wash_path\<close>.
\<close>

theorem wash_path_resolves:
  assumes "\<forall>n\<in>set (names [] p). length n < MAX_FILE_NAME_LEN"
  shows "wash_path (slash # p) = Some (absolute (resolve (names [] p)))
    \<and> clear_names (names [] (absolute (resolve (names [] p))))
    \<and> wash_path (absolute (resolve (names [] p))) = Some (absolute (resolve (names [] p)))"
proof -
  have step: "wash_path (slash # q) = Some (absolute (resolve (names [] q)))" if q: "\<forall>n\<in>set (names [] q). length n < MAX_FILE_NAME_LEN" for q
  proof -
    obtain n r where nr: "path_parse (slash # q) = (n, r)" by fastforce
    then have e: "names [] q = (if n = [] then [] else n # rest_names r)" using names_parse [OF nr] by (simp add: rest_names_def)
    show ?thesis
    proof (cases "n = []")
      case True
      then show ?thesis using e nr by (simp add: wash_path_def absolute_def resolve_def)
    next
      case False
      then have "wash_loop n r (absolute []) = Some (absolute (foldl enter [] (n # rest_names r)))"
        using e q proper_names_names [of "[]" q] by (intro wash_loop_spec) (simp_all add: proper_names_def)
      then show ?thesis using False e nr by (simp add: wash_path_def absolute_def resolve_def)
    qed
  qed
  let ?ns = "resolve (names [] p)"
  have c: "clear_names ?ns" unfolding resolve_def by (rule clear_resolve) (simp_all add: proper_names_names clear_names_def proper_names_def [of "[]"])
  then have na: "names [] (absolute ?ns) = ?ns" by (intro names_absolute) (simp add: clear_names_def)
  obtain q where q: "absolute ?ns = slash # q" by (cases ?ns) (auto simp: absolute_def join_def)
  then have nq: "names [] q = ?ns" using na by simp
  then have "wash_path (slash # q) = Some (absolute (resolve ?ns))"
    using step [of q] set_resolve [of "[]" "names [] p"] assms by (auto simp: resolve_def)
  then have "wash_path (absolute ?ns) = Some (absolute ?ns)" using q resolve_clear [OF c] by simp
  then show ?thesis using step [OF assms] c na by simp
qed

theorem wash_path_resolves_witness:
  "wash_path [slash, 97, slash, slash, 98, slash, 46, 46, slash, 46, slash, 99, slash] = Some [slash, 97, slash, 99]
    \<and> wash_path [slash, 46, 46] = Some [slash]"
  using wash_path_resolves [of "[97, slash, slash, 98, slash, 46, 46, slash, 46, slash, 99, slash]"] wash_path_resolves [of "[46, 46]"]
  by (simp add: slash_def MAX_FILE_NAME_LEN_def resolve_def enter_def dot_def dotdot_def absolute_def join_def)

end
