(* ===== verification/Shell.thy ===== *)
theory Shell
  imports Exec Shell_path
begin

text \<open>
  The shell, \<^verbatim>\<open>shell/shell.c\<close> and \<^verbatim>\<open>shell/builtin_cmd.c\<close>: reading a line, splitting it into words and the
  builtin commands. The state adds the global variables of \<^verbatim>\<open>shell.c\<close> to the kernel below; the strings are
  byte lists without terminator, and \<^verbatim>\<open>argv\<close> holds the words themselves.

  A system call is the kernel's function applied to the running task. \<^verbatim>\<open>printf\<close> writes its text, whose form
  theory \<open>Stdio\<close> justifies, to descriptor 1; text that does not fit its buffer is \<open>None\<close>. \<open>console_out\<close> is
  the text on the screen since it was last cleared.
\<close>

section \<open>The state\<close>

record shell = pstate +
  cmd_line :: "u8 list"
  cwd_cache :: "u8 list"
  final_path :: "u8 list"
  argv :: "u8 list list"
  argc :: u32

definition MAX_ARG_NR :: nat where "MAX_ARG_NR = 16"
definition newline :: u8 where "newline = 0x0a"
definition space :: u8 where "space = 0x20"

definition print :: "u8 list \<Rightarrow> 'a pstate_scheme \<Rightarrow> 'a pstate_scheme option" where
  "print txt s = do { ASSERT (length txt < 1024); write_out txt s }"

definition println :: "u8 list \<Rightarrow> 'a pstate_scheme \<Rightarrow> 'a pstate_scheme option" where
  "println txt s = print (txt @ [newline]) s"

definition putchar :: "u8 \<Rightarrow> 'a pstate_scheme \<Rightarrow> 'a pstate_scheme" where
  "putchar c s = s\<lparr>fsys := (fsys s)\<lparr>console_out := console_out (fsys s) @ [c]\<rparr>\<rparr>"

definition clear :: "'a pstate_scheme \<Rightarrow> 'a pstate_scheme" where
  "clear s = s\<lparr>fsys := (fsys s)\<lparr>console_out := []\<rparr>\<rparr>"

section \<open>Reading a line\<close>

definition print_prompt :: "'a shell_scheme \<Rightarrow> 'a shell_scheme option" where
  "print_prompt s = print (ascii ''[phanium@bochs '' @ cwd_cache s @ ascii '']$ '') s"

text \<open>The bytes of a string that starts the buffer.\<close>

definition c_string :: "u8 list \<Rightarrow> u8 list" where
  "c_string buf = takeWhile (\<lambda>b. b \<noteq> 0) buf"

primrec erase :: "nat \<Rightarrow> u8 list \<Rightarrow> 'a pstate_scheme \<Rightarrow> u8 list \<times> 'a pstate_scheme" where
  "erase 0 buf s = (buf, s)"
| "erase (Suc n) buf s = erase n (buf[Suc n := 0]) (putchar 0x08 s)"

text \<open>
  \<^verbatim>\<open>read\<close> stores the byte at \<^verbatim>\<open>pos\<close> before the test of the room: on a full buffer it writes behind the
  array, which is \<open>None\<close>.
\<close>

partial_function (option) read_keys :: "nat \<Rightarrow> u8 list \<Rightarrow> 'a shell_scheme \<Rightarrow> (u8 list \<times> 'a shell_scheme) option" where
  "read_keys pos buf s =
     Option.bind (read_fd 0 1 s) (\<lambda>r.
       if fst (fst r) = - 1 then Option.bind (println (ascii ''readline: cmdline overflow, max num of char is 128'') (snd r)) (\<lambda>s. Some (buf, s))
       else if length buf \<le> pos \<or> snd (fst r) = [] then None
       else let c = hd (snd (fst r)); buf = buf[pos := c]; s = snd r in
         if c = 0x0a \<or> c = 0x0d then Some (buf[pos := 0], putchar newline s)
         else if c = 0x08 then
           (if buf ! 0 \<noteq> 0x08 then read_keys (pos - 1) buf (putchar 0x08 s) else read_keys pos buf s)
         else if c = 11 then
           Option.bind (print_prompt (clear s)) (\<lambda>s.
           Option.bind (print (c_string (buf[pos := 0])) s) (\<lambda>s. read_keys pos (buf[pos := 0]) s))
         else if c = 20 then
           read_keys 0 (fst (erase pos buf s)) (snd (erase pos buf s))
         else read_keys (pos + 1) buf (putchar c s))"

definition readline :: "nat \<Rightarrow> 'a shell_scheme \<Rightarrow> 'a shell_scheme option" where
  "readline cnt s = do {
     ASSERT (0 < cnt);
     (buf, s) \<leftarrow> read_keys 0 (replicate cnt 0) s;
     Some (s\<lparr>cmd_line := c_string buf\<rparr>)
   }"

section \<open>Splitting into words\<close>

text \<open>The words found so far are \<^verbatim>\<open>argv\<close>; the number of words, or -1 when there are too many.\<close>

function parse_words :: "u8 \<Rightarrow> u8 list \<Rightarrow> u8 list list \<Rightarrow> u32 \<times> u8 list list" where
  "parse_words split next words =
     (let next = dropWhile (\<lambda>c. c = split) next in
      if next = [] then (of_nat (length words), words)
      else if length words = MAX_ARG_NR then (- 1, words)
      else parse_words split (tl (dropWhile (\<lambda>c. c \<noteq> split) next)) (words @ [takeWhile (\<lambda>c. c \<noteq> split) next]))"
  by pat_completeness auto
termination
proof (relation "measure (\<lambda>(split, next, words). length next)")
  fix split :: u8 and nxt x :: "u8 list" and words :: "u8 list list"
  assume x: "x = dropWhile (\<lambda>c. c = split) nxt" "x \<noteq> []"
  have "length (dropWhile (\<lambda>c. c \<noteq> split) x) \<le> length x" by (rule length_dropWhile_le)
  moreover have "length x \<le> length nxt" unfolding x(1) by (rule length_dropWhile_le)
  ultimately have "length (tl (dropWhile (\<lambda>c. c \<noteq> split) x)) < length nxt" using x(2) by (cases x) auto
  then show "((split, tl (dropWhile (\<lambda>c. c \<noteq> split) x), words @ [takeWhile (\<lambda>c. c \<noteq> split) x]), split, nxt, words)
      \<in> measure (\<lambda>(split, next, words). length next)"
    by simp
qed simp

declare parse_words.simps [simp del]

definition cmd_parse :: "u8 list \<Rightarrow> u8 \<Rightarrow> u32 \<times> u8 list list" where
  "cmd_parse cmd_str split = parse_words split cmd_str []"

section \<open>The builtin commands\<close>

definition MAX_PATH :: u32 where "MAX_PATH = 512"

definition getcwd :: "'a pstate_scheme \<Rightarrow> (u8 list option \<times> 'a pstate_scheme) option" where
  "getcwd s = on_fs (sys_getcwd MAX_PATH) s"

text \<open>\<^verbatim>\<open>make_clear_abs_path\<close> on the buffer \<^verbatim>\<open>final_path\<close>, the only one it is called with.\<close>

definition make_clear_abs_path :: "u8 list \<Rightarrow> 'a shell_scheme \<Rightarrow> 'a shell_scheme option" where
  "make_clear_abs_path path s = do {
     (cwd, s) \<leftarrow> (if path = [] \<or> hd path \<noteq> slash then getcwd s else Some (Some [], s));
     case cwd of
       None \<Rightarrow> println (ascii ''fail to getcwd'') s
     | Some abs_path \<Rightarrow> do {
         let abs_path = (if abs_path \<noteq> [] \<and> abs_path \<noteq> [slash] then abs_path @ [slash] else abs_path) @ path;
         ASSERT (length abs_path < MAX_PATH_LEN);
         p \<leftarrow> wash_path abs_path;
         Some (s\<lparr>final_path := p\<rparr>)
       }
   }"

definition arg :: "nat \<Rightarrow> 'a shell_scheme \<Rightarrow> u8 list option" where
  "arg i s = (if i < length (argv s) then Some (argv s ! i) else None)"

text \<open>
  The options of \<^verbatim>\<open>ls\<close>: \<open>None\<close> in the result when the command ends here. For an unknown option the code prints
  with \<^verbatim>\<open>%s\<close> an argument that it did not pass, whose value is not defined.
\<close>

primrec ls_args :: "nat \<Rightarrow> nat \<Rightarrow> bool \<Rightarrow> u8 list option \<Rightarrow> 'a shell_scheme \<Rightarrow> ((bool \<times> u8 list option) option \<times> 'a shell_scheme) option" where
  "ls_args 0 i long_info pathname s = Some (Some (long_info, pathname), s)"
| "ls_args (Suc n) i long_info pathname s = do {
     a \<leftarrow> arg i s;
     if a \<noteq> [] \<and> hd a = 0x2d then
       (if a = ascii ''-l'' then ls_args n (Suc i) True pathname s
        else if a = ascii ''-h'' then do {
          s \<leftarrow> println (ascii ''usage:'') s;
          s \<leftarrow> println (ascii ''  list all files in the current dirctory if no target path given'') s;
          s \<leftarrow> println (ascii ''  -l list all infomation about the file.'') s;
          s \<leftarrow> println (ascii ''  -h for help'') s;
          Some (None, s)
        }
        else None)
     else case pathname of
         None \<Rightarrow> ls_args n (Suc i) long_info (Some a) s
       | Some _ \<Rightarrow> do { s \<leftarrow> println (ascii ''ls: only support one path'') s; Some (None, s) }
   }"

definition file_line :: "u8 \<Rightarrow> u32 \<Rightarrow> u32 \<Rightarrow> u8 list \<Rightarrow> u8 list" where
  "file_line ftype ino sz name = [ftype] @ ascii ''  '' @ decimal ino @ ascii ''  '' @ decimal sz @ ascii ''  '' @ name"

partial_function (option) ls_long :: "addr \<Rightarrow> u8 list \<Rightarrow> 'a shell_scheme \<Rightarrow> (bool \<times> 'a shell_scheme) option" where
  "ls_long d path s =
     Option.bind (on_fs (sys_readdir d) s) (\<lambda>r. case fst r of
       None \<Rightarrow> Some (True, snd r)
     | Some e \<Rightarrow>
         if MAX_PATH_LEN \<le> length (path @ c_string (filename e)) then None
         else Option.bind (on_fs (sys_stat (path @ c_string (filename e))) (snd r)) (\<lambda>q. case fst q of
           None \<Rightarrow> Option.bind (println (ascii ''ls: cannot access '' @ c_string (filename e) @ ascii '': No such file or directory'') (snd q))
             (\<lambda>s. Some (False, s))
         | Some st \<Rightarrow> Option.bind (println (file_line (if f_type e = FT_REGULAR then 0x2d else 0x64) (de_i_no e) (st_size st) (c_string (filename e))) (snd q))
             (\<lambda>s. ls_long d path s)))"

partial_function (option) ls_short :: "addr \<Rightarrow> 'a shell_scheme \<Rightarrow> 'a shell_scheme option" where
  "ls_short d s =
     Option.bind (on_fs (sys_readdir d) s) (\<lambda>r. case fst r of
       None \<Rightarrow> Some (snd r)
     | Some e \<Rightarrow> Option.bind (print (c_string (filename e) @ [space]) (snd r)) (\<lambda>s. ls_short d s))"

definition ls_directory :: "bool \<Rightarrow> u32 \<Rightarrow> u8 list \<Rightarrow> 'a shell_scheme \<Rightarrow> 'a shell_scheme option" where
  "ls_directory long_info sz pathname s = do {
     (d, s) \<leftarrow> on_fs (sys_opendir pathname) s;
     ASSERT (pathname \<noteq> []);
     let path = (if last pathname \<noteq> slash then pathname @ [slash] else pathname);
     ASSERT (length path < MAX_PATH_LEN \<and> d \<noteq> NULL);
     (_, s) \<leftarrow> on_fs (\<lambda>f. Some ((), sys_rewinddir d f)) s;
     (fin, s) \<leftarrow> (if long_info then do {
          s \<leftarrow> println (ascii ''total: '' @ decimal sz) s;
          ls_long d path s
        } else do { s \<leftarrow> ls_short d s; s \<leftarrow> println [] s; Some (True, s) });
     if fin then do { (_, s) \<leftarrow> on_fs (\<lambda>f. Some (sys_closedir d f)) s; Some s } else Some s
   }"

definition builtin_ls :: "'a shell_scheme \<Rightarrow> 'a shell_scheme option" where
  "builtin_ls s = do {
     (opts, s) \<leftarrow> ls_args (unat (argc s - 1)) 1 False None s;
     case opts of None \<Rightarrow> Some s
     | Some (long_info, p) \<Rightarrow> do {
         (found, s) \<leftarrow> (case p of
            None \<Rightarrow> do { (cwd, s) \<leftarrow> getcwd s;
              case cwd of None \<Rightarrow> do { s \<leftarrow> println (ascii ''ls: getcwd for default path failed'') s; Some (False, s) }
              | Some c \<Rightarrow> Some (True, s\<lparr>final_path := c\<rparr>) }
          | Some path \<Rightarrow> do { s \<leftarrow> make_clear_abs_path path s; Some (True, s) });
         if \<not> found then Some s
         else do {
           let pathname = final_path s;
           (st, s) \<leftarrow> on_fs (sys_stat pathname) s;
           case st of
             None \<Rightarrow> println (ascii ''ls: cannot access '' @ pathname @ ascii '': No such file or directory'') s
           | Some st \<Rightarrow>
               if st_filetype st = FT_REGULAR then
                 println (if long_info then file_line 0x2d (st_ino st) (st_size st) pathname else pathname) s
               else ls_directory long_info (st_size st) pathname s
         }
       }
   }"

definition builtin_cd :: "'a shell_scheme \<Rightarrow> (u32 \<times> 'a shell_scheme) option" where
  "builtin_cd s =
     (if 2 < argc s then do { s \<leftarrow> println (ascii ''cd: too many arguments!'') s; Some (- 1, s) }
      else if argc s = 1 then Some (0, s\<lparr>final_path := [slash]\<rparr>)
      else do {
        a \<leftarrow> arg 1 s;
        s \<leftarrow> make_clear_abs_path a s;
        (r, s) \<leftarrow> on_fs (sys_chdir (final_path s)) s;
        if r \<noteq> 0 then do { s \<leftarrow> println (ascii ''cd: no such directory '' @ final_path s) s; Some (- 1, s) }
        else Some (0, s)
      })"

definition builtin_pwd :: "'a shell_scheme \<Rightarrow> 'a shell_scheme option" where
  "builtin_pwd s =
     (if argc s \<noteq> 1 then println (ascii ''pwd: too many arguments!'') s
      else do {
        (cwd, s) \<leftarrow> getcwd s;
        case cwd of None \<Rightarrow> println (ascii ''pwd: get current work directory failed.'') s
        | Some c \<Rightarrow> println c (s\<lparr>final_path := c\<rparr>)
      })"

definition builtin_ps :: "'a shell_scheme \<Rightarrow> 'a shell_scheme option" where
  "builtin_ps s = (if argc s \<noteq> 1 then println (ascii ''ps: too many arguments!'') s else sys_ps s)"

definition builtin_clear :: "'a shell_scheme \<Rightarrow> 'a shell_scheme option" where
  "builtin_clear s = (if argc s \<noteq> 1 then println (ascii ''clear: too many arguments!'') s else Some (clear s))"

definition builtin_mkdir :: "'a shell_scheme \<Rightarrow> (u32 \<times> 'a shell_scheme) option" where
  "builtin_mkdir s =
     (if argc s \<noteq> 2 then do { s \<leftarrow> println (ascii ''mkdir: too many arguments!'') s; Some (- 1, s) }
      else do {
        a \<leftarrow> arg 1 s;
        s \<leftarrow> make_clear_abs_path a s;
        if final_path s = [slash] then Some (- 1, s)
        else do {
          (r, s) \<leftarrow> on_fs (sys_mkdir (final_path s)) s;
          if r \<noteq> 0 then do { s \<leftarrow> println (ascii ''mkdir: create directory '' @ a @ ascii '' failed.'') s; Some (- 1, s) }
          else Some (0, s)
        }
      })"

definition builtin_rmdir :: "'a shell_scheme \<Rightarrow> (u32 \<times> 'a shell_scheme) option" where
  "builtin_rmdir s =
     (if argc s \<noteq> 2 then do { s \<leftarrow> println (ascii ''rmdir: too many arguments!'') s; Some (- 1, s) }
      else do {
        a \<leftarrow> arg 1 s;
        s \<leftarrow> make_clear_abs_path a s;
        if final_path s = [slash] then Some (- 1, s)
        else do {
          (r, s) \<leftarrow> on_fs (sys_rmdir (final_path s)) s;
          if r \<noteq> 0 then do { s \<leftarrow> println (ascii ''rmdir: remove '' @ a @ ascii '' failed.'') s; Some (- 1, s) }
          else Some (0, s)
        }
      })"

definition builtin_rm :: "'a shell_scheme \<Rightarrow> (u32 \<times> 'a shell_scheme) option" where
  "builtin_rm s =
     (if argc s \<noteq> 2 then do { s \<leftarrow> println (ascii ''rm: too many arguments!'') s; Some (- 1, s) }
      else do {
        a \<leftarrow> arg 1 s;
        s \<leftarrow> make_clear_abs_path a s;
        if final_path s = [slash] then Some (- 1, s)
        else do {
          (r, s) \<leftarrow> on_fs (sys_unlink (final_path s)) s;
          if r \<noteq> 0 then do { s \<leftarrow> println (ascii ''rm: delete '' @ a @ ascii '' failed.'') s; Some (- 1, s) }
          else Some (0, s)
        }
      })"

text \<open>A line without words leaves \<^verbatim>\<open>argv[0]\<close> null, on which \<^verbatim>\<open>strcmp\<close> fails its assertion.\<close>

definition builtin_run :: "'a shell_scheme \<Rightarrow> (u32 \<times> 'a shell_scheme) option" where
  "builtin_run s = do {
     let s = s\<lparr>final_path := []\<rparr>;
     cmd \<leftarrow> arg 0 s;
     if cmd = ascii ''ls'' then do { s \<leftarrow> builtin_ls s; Some (0, s) }
     else if cmd = ascii ''cd'' then do {
       (r, s) \<leftarrow> builtin_cd s;
       Some (0, if r = 0 then s\<lparr>cwd_cache := final_path s\<rparr> else s)
     }
     else if cmd = ascii ''pwd'' then do { s \<leftarrow> builtin_pwd s; Some (0, s) }
     else if cmd = ascii ''ps'' then do { s \<leftarrow> builtin_ps s; Some (0, s) }
     else if cmd = ascii ''clear'' then do { s \<leftarrow> builtin_clear s; Some (0, s) }
     else if cmd = ascii ''mkdir'' then do { (_, s) \<leftarrow> builtin_mkdir s; Some (0, s) }
     else if cmd = ascii ''rmdir'' then do { (_, s) \<leftarrow> builtin_rmdir s; Some (0, s) }
     else if cmd = ascii ''rm'' then do { (_, s) \<leftarrow> builtin_rm s; Some (0, s) }
     else Some (- 2, s)
   }"

section \<open>Other commands\<close>

text \<open>
  A command that is not builtin runs in a child. \<open>external_run pid\<close> is the code of a process to which \<^verbatim>\<open>fork\<close>
  returned \<open>pid\<close>, 0 in the child. It ends in one of four ways: the process has ended, its
  program was replaced, it sleeps in \<^verbatim>\<open>wait\<close> and starts there again when it is woken, or the function returns.
  \<open>argv_addr\<close> is the address of the array \<^verbatim>\<open>argv\<close>, and \<open>junk\<close> the value of the local \<^verbatim>\<open>status\<close>, which
  \<^verbatim>\<open>wait\<close> leaves alone when there is no child.
\<close>

datatype run_end = Ended | Replaced | Asleep | Returned

definition wait_and_report :: "u32 \<Rightarrow> 'a shell_scheme \<Rightarrow> (run_end \<times> 'a shell_scheme) option" where
  "wait_and_report junk s = do {
     (r, s) \<leftarrow> sys_wait s;
     case r of
       Waiting \<Rightarrow> Some (Asleep, s)
     | Reaped p st \<Rightarrow> do {
         s \<leftarrow> println (ascii ''shell recieve '' @ decimal (scast p) @ ascii '', (status: '' @ decimal (scast st) @ ascii '')'') s;
         Some (Returned, s) }
     | No_child \<Rightarrow> do {
         s \<leftarrow> println (ascii ''shell recieve '' @ decimal (- 1) @ ascii '', (status: '' @ decimal junk @ ascii '')'') s;
         Some (Returned, s) }
   }"

definition external_run :: "addr \<Rightarrow> u32 \<Rightarrow> u32 \<Rightarrow> 'a shell_scheme \<Rightarrow> (run_end \<times> 'a shell_scheme) option" where
  "external_run argv_addr junk p s =
     (if p = 0 then do {
        cmd \<leftarrow> arg 0 s;
        s \<leftarrow> make_clear_abs_path cmd s;
        let s = s\<lparr>argv := (argv s)[0 := final_path s]\<rparr>;
        (st, s) \<leftarrow> on_fs (sys_stat (final_path s)) s;
        if st = None then do {
          s \<leftarrow> println (ascii ''external_run: cannot access '' @ final_path s @ ascii '': No such file or directory'') s;
          s \<leftarrow> sys_exit (- 1) s;
          Some (Ended, s)
        }
        else do {
          (r, s) \<leftarrow> sys_execv (final_path s) argv_addr s;
          if r = - 1 then wait_and_report junk s else Some (Replaced, s)
        }
      }
      else wait_and_report junk s)"

definition cmd_run :: "addr \<Rightarrow> u32 \<Rightarrow> 'a shell_scheme \<Rightarrow> (run_end \<times> u32 \<times> 'a shell_scheme) option" where
  "cmd_run argv_addr junk s = do {
     (builtin_ok, s) \<leftarrow> builtin_run s;
     if builtin_ok \<noteq> - 2 then Some (Returned, builtin_ok, s)
     else do {
       (p, s) \<leftarrow> sys_fork s;
       (e, s) \<leftarrow> external_run argv_addr junk p s;
       Some (e, 0, s)
     }
   }"

end
