(* ===== verification/Shell_props.thy ===== *)
theory Shell_props
  imports Shell Process_props File_content
begin

text \<open>
  The properties of the shell: how a line is edited while it is typed, how it is split into words, and
  two places where the builtin commands do not do what they mean to.
\<close>

section \<open>Words\<close>

text \<open>The reference: cut at every separator and drop the empty pieces.\<close>

fun pieces :: "u8 \<Rightarrow> u8 list \<Rightarrow> u8 list list" where
  "pieces sep [] = [[]]"
| "pieces sep (c # cs) = (if c = sep then [] # pieces sep cs else (c # hd (pieces sep cs)) # tl (pieces sep cs))"

definition line_words :: "u8 \<Rightarrow> u8 list \<Rightarrow> u8 list list" where
  "line_words sep cs = filter (\<lambda>w. w \<noteq> []) (pieces sep cs)"

lemma words_skip: "line_words sep (dropWhile (\<lambda>c. c = sep) cs) = line_words sep cs"
  by (induction cs) (auto simp: line_words_def)

lemma pieces_first:
  "pieces sep cs = takeWhile (\<lambda>c. c \<noteq> sep) cs #
     (if dropWhile (\<lambda>c. c \<noteq> sep) cs = [] then [] else pieces sep (tl (dropWhile (\<lambda>c. c \<noteq> sep) cs)))"
  by (induction cs) auto

lemma words_first:
  assumes "cs \<noteq> []" and "hd cs \<noteq> sep"
  shows "line_words sep cs = takeWhile (\<lambda>c. c \<noteq> sep) cs # line_words sep (tl (dropWhile (\<lambda>c. c \<noteq> sep) cs))"
proof -
  have "takeWhile (\<lambda>c. c \<noteq> sep) cs \<noteq> []" using assms by (cases cs) auto
  moreover have "line_words sep [] = []" by (simp add: line_words_def)
  ultimately show ?thesis unfolding line_words_def by (subst pieces_first) (auto simp del: dropWhile_eq_Nil_conv)
qed

lemma parse_words_spec:
  assumes "length ws \<le> MAX_ARG_NR"
  shows "parse_words sep cs ws =
    (let all = ws @ line_words sep cs in if length all \<le> MAX_ARG_NR then (of_nat (length all), all) else (- 1, take MAX_ARG_NR all))"
  using assms
proof (induction sep cs ws rule: parse_words.induct)
  case (1 sep cs ws)
  let ?d = "dropWhile (\<lambda>c. c = sep) cs"
  show ?case
  proof (cases "?d = []")
    case True
    then have "line_words sep cs = []" using words_skip [of sep cs] by (simp only: line_words_def pieces.simps filter.simps) simp
    then show ?thesis using True 1 by (subst parse_words.simps) simp
  next
    case False
    then have w: "line_words sep cs = takeWhile (\<lambda>c. c \<noteq> sep) ?d # line_words sep (tl (dropWhile (\<lambda>c. c \<noteq> sep) ?d))"
      using words_first [OF False] hd_dropWhile [OF False] words_skip [of sep cs] by simp
    show ?thesis
    proof (cases "length ws = MAX_ARG_NR")
      case True
      then show ?thesis using False w by (subst parse_words.simps) (simp add: Let_def del: dropWhile_eq_Nil_conv)
    next
      case nf: False
      then have "parse_words sep cs ws = parse_words sep (tl (dropWhile (\<lambda>c. c \<noteq> sep) ?d)) (ws @ [takeWhile (\<lambda>c. c \<noteq> sep) ?d])"
        using False by (subst parse_words.simps) (simp add: Let_def del: dropWhile_eq_Nil_conv)
      then show ?thesis using "1.IH" [OF refl False nf] nf "1.prems" w by simp
    qed
  qed
qed

text \<open>
  C28: \<^verbatim>\<open>cmd_parse\<close> ends on every line and fills \<^verbatim>\<open>argv\<close> with the pieces between separators that are not
  empty, in order; it returns their number, or -1 when there are more than 16, with the first 16
  in \<^verbatim>\<open>argv\<close>.
\<close>

theorem cmd_parse_words:
  "cmd_parse line sep =
    (let ws = filter (\<lambda>w. w \<noteq> []) (pieces sep line)
     in if length ws \<le> MAX_ARG_NR then (of_nat (length ws), ws) else (- 1, take MAX_ARG_NR ws))"
  using parse_words_spec [of "[]" sep line] by (simp add: cmd_parse_def line_words_def)

section \<open>Typing a line\<close>

text \<open>Descriptor 0 is the keyboard, in whose queue the bytes \<open>ks\<close> wait.\<close>

definition typed :: "u8 list \<Rightarrow> 'a pstate_scheme \<Rightarrow> bool" where
  "typed ks s = (is_pipe 0 (fs_view s) = Some False \<and> ioq_wf (kbd_queue (fsys s)) \<and> ioq_list (kbd_queue (fsys s)) = ks)"

lemma is_pipe_view: "fds f = fds g \<Longrightarrow> file_table f = file_table g \<Longrightarrow> is_pipe n f = is_pipe n g"
  by (simp add: is_pipe_def fd_local2global_def)

lemma typed_read:
  assumes "typed (k # ks) s"
  shows "\<exists>s'. read_fd 0 1 s = Some ((1, [k]), s') \<and> typed ks s'"
proof -
  let ?q = "kbd_queue (fsys s)" and ?f = "fs_view s"
  obtain q w where q: "ioq_getchar ?q = Some (k, q, w)" "ioq_wf q" "ioq_list q = ks"
    using assms ring.get_some [of ?q k ks] unfolding typed_def by blast
  have kq: "kbd_queue ?f = ?q" by (simp add: fs_view_def)
  let ?s = "fs_back (?f\<lparr>kbd_queue := q\<rparr>) s"
  have "read_fd 0 1 s = Some ((1, [k]), ?s)"
    using assms q(1) by (simp add: read_fd_def on_fs_def sys_read_def typed_def kq)
  moreover have "typed ks ?s"
  proof -
    have "is_pipe 0 (fs_view ?s) = is_pipe 0 ?f"
      by (rule is_pipe_view) (simp_all add: fs_view_def fs_back_def upd_task_def running_thread_def)
    then show ?thesis using assms q(2,3) by (simp add: typed_def fs_back_def upd_task_def)
  qed
  ultimately show ?thesis by blast
qed

lemma typed_putchar: "typed ks (putchar c s) = typed ks s"
proof -
  have "is_pipe 0 (fs_view (putchar c s)) = is_pipe 0 (fs_view s)"
    by (rule is_pipe_view) (simp_all add: fs_view_def putchar_def running_thread_def)
  then show ?thesis by (simp add: typed_def putchar_def)
qed

lemma typed_erase: "typed ks (snd (erase n buf s)) = typed ks s"
  by (induction n arbitrary: buf s) (simp_all add: typed_putchar)

lemma length_erase: "length (fst (erase n buf s)) = length buf"
  by (induction n arbitrary: buf s) simp_all

text \<open>What a key does to the line: backspace, \<^verbatim>\<open>ctrl-u\<close>, and every other key but enter and \<^verbatim>\<open>ctrl-l\<close>.\<close>

definition edit :: "u8 list \<Rightarrow> u8 \<Rightarrow> u8 list" where
  "edit line k = (if k = 0x08 then butlast line else if k = 20 then [] else line @ [k])"

definition edit_key :: "u8 \<Rightarrow> bool" where
  "edit_key k = (k \<noteq> 0 \<and> k \<noteq> 0x0a \<and> k \<noteq> 0x0d \<and> k \<noteq> 11)"

lemma read_keys_edit:
  assumes "typed (ks @ [newline]) s" and "\<forall>k\<in>set ks. edit_key k" and "pos + length ks < length buf"
    and "take pos buf = line" and "0 \<notin> set line" and "0x08 \<notin> set line"
  shows "\<exists>buf' s'. read_keys pos buf s = Some (buf', s') \<and> c_string buf' = foldl edit line ks \<and> typed [] s'"
  using assms
proof (induction ks arbitrary: pos buf line s)
  case Nil
  obtain s' where s': "read_fd 0 1 s = Some ((1, [newline]), s')" "typed [] s'" using typed_read [of newline "[]" s] Nil.prems(1) by auto
  have "read_keys pos buf s = Some (buf[pos := 0], putchar newline s')"
    using s'(1) Nil.prems(3) by (subst read_keys.simps) (simp add: newline_def Let_def)
  moreover have "c_string (buf[pos := 0]) = line"
  proof -
    have "buf[pos := 0] = line @ 0 # drop (Suc pos) buf" using Nil.prems(3,4) by (simp add: upd_conv_take_nth_drop)
    then show ?thesis using Nil.prems(5) by (auto simp: c_string_def takeWhile_tail)
  qed
  ultimately show ?case using s'(2) typed_putchar by auto
next
  case (Cons k ks)
  obtain s' where s': "read_fd 0 1 s = Some ((1, [k]), s')" "typed (ks @ [newline]) s'" using typed_read [of k "ks @ [newline]" s] Cons.prems(1) by auto
  have k: "edit_key k" "\<forall>k\<in>set ks. edit_key k" using Cons.prems(2) by simp_all
  let ?b = "buf[pos := k]"
  have room: "pos < length buf" using Cons.prems(3) by simp
  have line: "length line = pos" using Cons.prems(3,4) by auto
  consider (bs) "k = 0x08" | (ku) "k = 20" | (ch) "k \<noteq> 0x08" "k \<noteq> 20" by blast
  then show ?case
  proof cases
    case bs
    have first: "?b ! 0 = 0x08 \<longleftrightarrow> pos = 0"
    proof (cases pos)
      case (Suc p)
      then have "buf ! 0 \<in> set line" using Cons.prems(4) line room by (metis nth_mem nth_take zero_less_Suc)
      then show ?thesis using Suc Cons.prems(6) by auto
    qed (use bs room in \<open>simp\<close>)
    have "\<exists>t. read_keys pos buf s = read_keys (pos - 1) ?b t \<and> typed (ks @ [newline]) t"
      using s' bs k(1) room first by (subst read_keys.simps) (auto simp: Let_def typed_putchar)
    then obtain t where t: "read_keys pos buf s = read_keys (pos - 1) ?b t" "typed (ks @ [newline]) t" by blast
    have tk: "take (pos - 1) ?b = butlast line" using Cons.prems(4) line room by (auto simp: butlast_conv_take)
    have "\<exists>buf' s'. read_keys (pos - 1) ?b t = Some (buf', s') \<and> c_string buf' = foldl edit (butlast line) ks \<and> typed [] s'"
      using t(2) k(2) Cons.prems(3,5,6) tk by (intro Cons.IH) (auto dest: in_set_butlastD)
    then show ?thesis using t(1) bs by (simp add: edit_def [of line])
  next
    case ku
    have "read_keys pos buf s = read_keys 0 (fst (erase pos ?b s')) (snd (erase pos ?b s'))"
      using s' ku room by (subst read_keys.simps) (simp add: Let_def)
    moreover have "\<exists>buf' s'a. read_keys 0 (fst (erase pos ?b s')) (snd (erase pos ?b s')) = Some (buf', s'a)
        \<and> c_string buf' = foldl edit [] ks \<and> typed [] s'a"
      using s'(2) k(2) Cons.prems(3) by (intro Cons.IH) (simp_all add: typed_erase length_erase)
    ultimately show ?thesis using ku by (simp add: edit_def [of line])
  next
    case ch
    have "read_keys pos buf s = read_keys (pos + 1) ?b (putchar k s')"
      using s' ch k(1) room by (subst read_keys.simps) (simp add: Let_def edit_key_def)
    moreover have "take (pos + 1) ?b = line @ [k]" using Cons.prems(4) room by (simp add: take_Suc_conv_app_nth)
    then have "\<exists>buf' s'a. read_keys (pos + 1) ?b (putchar k s') = Some (buf', s'a) \<and> c_string buf' = foldl edit (line @ [k]) ks \<and> typed [] s'a"
      using s'(2) k Cons.prems(3,5,6) ch by (intro Cons.IH) (auto simp: typed_putchar edit_key_def)
    ultimately show ?thesis using ch by (simp add: edit_def [of line])
  qed
qed

text \<open>
  C18: with keys and then enter typed, \<^verbatim>\<open>readline\<close> returns with the line that editing leaves: a character is
  appended, backspace removes the last character and nothing from an empty line, \<^verbatim>\<open>ctrl-u\<close> empties the line.
  The keys are fewer than the bytes of the buffer, and the queue is empty afterwards.
\<close>

theorem readline_edits:
  assumes "typed (ks @ [newline]) s" and "\<forall>k\<in>set ks. edit_key k" and "length ks < cnt"
  shows "\<exists>s'. readline cnt s = Some s' \<and> cmd_line s' = foldl edit [] ks \<and> typed [] s'"
proof -
  obtain buf t where t: "read_keys 0 (replicate cnt 0) s = Some (buf, t)" "c_string buf = foldl edit [] ks" "typed [] t"
    using read_keys_edit [OF assms(1,2), of 0 "replicate cnt 0" "[]"] assms(3) by auto
  have "typed [] (t\<lparr>cmd_line := foldl edit [] ks\<rparr>)"
    using t(3) by (simp add: typed_def fs_view_def running_thread_def)
  then show ?thesis using t(1,2) assms(3) by (simp add: readline_def)
qed

definition demo_shell :: shell where
  "demo_shell = pstate.extend demo_p (shell.fields [] [slash] [] [] 0)
     \<lparr>task := (\<lambda>_. zero_task\<lparr>fd_table := [0, 1, 2, -1, -1, -1, -1, -1]\<rparr>),
      fsys := fstate.extend demo_open (sysstate.fields (\<lambda>_. \<lparr>producer = NULL, consumer = NULL, ioq_buf = [], ioq_head = 0, ioq_tail = 0\<rparr>)
        \<lparr>producer = NULL, consumer = NULL, ioq_buf = [0x6c, 0x78, 0x08, 0x73, 0x0a] @ replicate 59 0, ioq_head = 5, ioq_tail = 0\<rparr> [] 0 0)\<rparr>"

lemma demo_shell_typed: "typed [0x6c, 0x78, 0x08, 0x73, newline] demo_shell"
proof -
  have "ioq_list (kbd_queue (fsys demo_shell)) = [0x6c, 0x78, 0x08, 0x73, newline]"
    by (simp add: demo_shell_def sysstate.defs fstate.defs ioq_list_def ioq_length_def bufsize_def newline_def upt_rec)
  moreover have "is_pipe 0 (fs_view demo_shell) = Some False"
    by (simp add: demo_shell_def sysstate.defs fstate.defs is_pipe_def fd_local2global_def fs_view_def demo_open_def PIPE_FLAG_def MAX_FILE_OPEN_def)
  ultimately show ?thesis by (simp add: typed_def demo_shell_def sysstate.defs fstate.defs ioq_wf_def bufsize_def)
qed

theorem readline_edits_witness: "\<exists>s'. readline 512 demo_shell = Some s' \<and> cmd_line s' = [0x6c, 0x73]"
  using readline_edits [of "[0x6c, 0x78, 0x08, 0x73]" demo_shell 512] demo_shell_typed by (auto simp: edit_def edit_key_def)

section \<open>Two defects\<close>


text \<open>
  \<^verbatim>\<open>cd\<close> without argument shows the root in the prompt from then on and leaves the working directory
  of the process as it was.
\<close>

lemma cd_without_argument:
  assumes "argv s = [ascii ''cd'']" and "argc s = 1"
  shows "builtin_run s = Some (0, s\<lparr>final_path := [slash], cwd_cache := [slash]\<rparr>)"
  using assms by (simp add: builtin_run_def arg_def builtin_cd_def ascii_def)

end
