(* ===== verification/Ide.thy ===== *)
theory Ide
  imports Inode Stdio Sync
begin

unbundle bit_operations_syntax

text \<open>
  The lower half of \<^verbatim>\<open>device/ide.c\<close>: the bytes written to the controller's registers, the polling loop, the
  interrupt handler, and the search for partitions; with it the clock of \<^verbatim>\<open>device/timer.c\<close>. An \<^verbatim>\<open>outb\<close>
  is a pair of port and byte; what the status register reads is an argument, the value of each read
  in turn. The sectors that the search reads come from \<^verbatim>\<open>ide_read\<close> of theory \<open>Disk\<close>.
\<close>

section \<open>Commands\<close>

record ide_channel =
  port_base :: u16
  irq_no :: u8
  chan_lock :: addr
  expecting_intr :: bool
  disk_done :: addr

definition reg_sect_cnt :: "ide_channel \<Rightarrow> u16" where "reg_sect_cnt c = port_base c + 2"
definition reg_lba_l :: "ide_channel \<Rightarrow> u16" where "reg_lba_l c = port_base c + 3"
definition reg_lba_m :: "ide_channel \<Rightarrow> u16" where "reg_lba_m c = port_base c + 4"
definition reg_lba_h :: "ide_channel \<Rightarrow> u16" where "reg_lba_h c = port_base c + 5"
definition reg_dev :: "ide_channel \<Rightarrow> u16" where "reg_dev c = port_base c + 6"
definition reg_cmd :: "ide_channel \<Rightarrow> u16" where "reg_cmd c = port_base c + 7"

definition BIT_STAT_BSY :: u8 where "BIT_STAT_BSY = 0x80"
definition BIT_STAT_DRQ :: u8 where "BIT_STAT_DRQ = 0x8"
definition BIT_DEV_MBS :: u8 where "BIT_DEV_MBS = 0xa0"
definition BIT_DEV_LBA :: u8 where "BIT_DEV_LBA = 0x40"
definition BIT_DEV_DEV :: u8 where "BIT_DEV_DEV = 0x10"

definition select_disk :: "ide_channel \<Rightarrow> u8 \<Rightarrow> (u16 \<times> u8) list" where
  "select_disk c dev_no = [(reg_dev c, if dev_no = 1 then BIT_DEV_MBS OR BIT_DEV_LBA OR BIT_DEV_DEV else BIT_DEV_MBS OR BIT_DEV_LBA)]"

definition select_sector :: "ide_channel \<Rightarrow> u8 \<Rightarrow> u32 \<Rightarrow> u8 \<Rightarrow> (u16 \<times> u8) list option" where
  "select_sector c dev_no lba cnt = do {
     ASSERT (lba \<le> max_lba);
     Some [(reg_sect_cnt c, cnt),
           (reg_lba_l c, ucast lba), (reg_lba_m c, ucast (drop_bit 8 lba)), (reg_lba_h c, ucast (drop_bit 16 lba)),
           (reg_dev c, BIT_DEV_MBS OR BIT_DEV_LBA OR (if dev_no = 1 then BIT_DEV_DEV else 0) OR ucast (drop_bit 24 lba))]
   }"

definition cmd_out :: "u8 \<Rightarrow> ide_channel \<Rightarrow> (u16 \<times> u8) list \<times> ide_channel" where
  "cmd_out cmd c = ([(reg_cmd c, cmd)], c\<lparr>expecting_intr := True\<rparr>)"

text \<open>Bytes that one command transfers: a count of 0 stands for 256 sectors.\<close>

definition transfer_bytes :: "u8 \<Rightarrow> u32" where
  "transfer_bytes cnt = (if cnt = 0 then 256 * 512 else ucast cnt * 512)"

section \<open>Waiting for the disk\<close>

text \<open>
  \<^verbatim>\<open>time_limit -= 10 >= 0\<close> subtracts the truth value of \<^verbatim>\<open>10 >= 0\<close>, which is 1. The result is whether data is
  ready, and how often the caller slept for 10 ms; \<open>st k\<close> is what the \<open>k\<close>-th read of the status register
  returns.
\<close>

function busy_wait_loop :: "(nat \<Rightarrow> u8) \<Rightarrow> nat \<Rightarrow> u16 \<Rightarrow> bool \<times> nat" where
  "busy_wait_loop st k time_limit =
     (let time_limit = time_limit - (if (10 :: int) \<ge> 0 then 1 else 0) in
      if time_limit = 0 then (False, 0)
      else if st k AND BIT_STAT_BSY = 0 then (st (Suc k) AND BIT_STAT_DRQ \<noteq> 0, 0)
      else let (r, slept) = busy_wait_loop st (Suc k) time_limit in (r, Suc slept))"
  by pat_completeness auto
termination
proof (relation "measure (\<lambda>(st, k, t). unat (t - 1))")
  fix st :: "nat \<Rightarrow> u8" and k :: nat and t x :: u16
  assume "x = t - (if (10 :: int) \<ge> 0 then 1 else 0)" and "x \<noteq> 0"
  then show "((st, Suc k, x), st, k, t) \<in> measure (\<lambda>(st, k, t). unat (t - 1))"
    using measure_unat [of x] by simp
qed simp

declare busy_wait_loop.simps [simp del]

definition busy_wait :: "(nat \<Rightarrow> u8) \<Rightarrow> bool \<times> nat" where
  "busy_wait st = busy_wait_loop st 0 (30 * 1000)"

section \<open>The interrupt\<close>

text \<open>Reading the status register tells the disk that the interrupt was seen and has no other effect.\<close>

definition intr_hd_handler :: "u8 \<Rightarrow> ide_channel list \<Rightarrow> 'a kstate_scheme \<Rightarrow> (ide_channel list \<times> 'a kstate_scheme) option" where
  "intr_hd_handler irq channels s = do {
     ASSERT (irq = 0x2e \<or> irq = 0x2f);
     let ch_no = unat (irq - 0x2e);
     ASSERT (ch_no < length channels);
     let channel = channels ! ch_no;
     ASSERT (irq_no channel = irq);
     if expecting_intr channel then do {
       s \<leftarrow> sema_up (disk_done channel) s;
       Some (channels[ch_no := channel\<lparr>expecting_intr := False\<rparr>], s)
     } else Some (channels, s)
   }"

section \<open>Names of the disk\<close>

text \<open>\<^verbatim>\<open>idx\<close> has 8 bits; the lengths in use are 20 and 40.\<close>

fun swap_pairs_bytes :: "u8 list \<Rightarrow> u8 list" where
  "swap_pairs_bytes (x # y # xs) = y # x # swap_pairs_bytes xs"
| "swap_pairs_bytes xs = xs"

section \<open>Partitions\<close>

record partition_table_entry =
  fs_type :: u8
  pe_start_lba :: u32
  pe_sec_cnt :: u32

definition partition_table :: "sector \<Rightarrow> partition_table_entry list" where
  "partition_table bs = map (\<lambda>k. \<lparr>fs_type = bs ! (446 + 16 * k + 4), pe_start_lba = get32 bs (446 + 16 * k + 8),
     pe_sec_cnt = get32 bs (446 + 16 * k + 12)\<rparr>) [0..<4]"

datatype part_ref = Prim nat | Logic nat

record scan_state =
  ext_lba_base :: u32
  p_cnt :: u8
  l_cnt :: u8
  prim_parts :: "partition list"
  logic_parts :: "partition list"
  partition_list :: "part_ref list"

definition set_part :: "u32 \<Rightarrow> u32 \<Rightarrow> u8 list \<Rightarrow> partition \<Rightarrow> partition" where
  "set_part lba n name p = p\<lparr>start_lba := lba, sec_cnt := n, part_name := name\<rparr>"

definition add_prim :: "u8 list \<Rightarrow> u32 \<Rightarrow> partition_table_entry \<Rightarrow> scan_state \<Rightarrow> scan_state option" where
  "add_prim hd_name ext_lba p st = do {
     let i = unat (p_cnt st);
     ASSERT (i < length (prim_parts st));
     let st = st\<lparr>prim_parts := (prim_parts st)[i := set_part (ext_lba + pe_start_lba p) (pe_sec_cnt p)
           (hd_name @ decimal (ucast (p_cnt st) + 1)) (prim_parts st ! i)],
         partition_list := partition_list st @ [Prim i], p_cnt := p_cnt st + 1\<rparr>;
     ASSERT (p_cnt st < 4);
     Some st
   }"

definition add_logic :: "u8 list \<Rightarrow> u32 \<Rightarrow> partition_table_entry \<Rightarrow> scan_state \<Rightarrow> scan_state option" where
  "add_logic hd_name ext_lba p st = do {
     let i = unat (l_cnt st);
     ASSERT (i < length (logic_parts st));
     Some (st\<lparr>logic_parts := (logic_parts st)[i := set_part (ext_lba + pe_start_lba p) (pe_sec_cnt p)
           (hd_name @ decimal (ucast (l_cnt st) + 5)) (logic_parts st ! i)],
         partition_list := partition_list st @ [Logic i], l_cnt := l_cnt st + 1\<rparr>)
   }"

text \<open>
  The entries of one table from some entry on; an extended entry scans the table it points to before the
  next entry. The early return with eight logical partitions leaves only the innermost call. A chain of
  tables that runs in a circle never ends.
\<close>

partial_function (option) scan_entries ::
    "(u32 \<Rightarrow> sector option) \<Rightarrow> u8 list \<Rightarrow> u32 \<Rightarrow> partition_table_entry list \<Rightarrow> scan_state \<Rightarrow> scan_state option" where
  "scan_entries rd hd_name ext_lba es st =
     (if es = [] then Some st
      else if fs_type (hd es) = 5 then
        (let lba = pe_start_lba (hd es) + ext_lba_base st;
             st = (if ext_lba_base st \<noteq> 0 then st else st\<lparr>ext_lba_base := pe_start_lba (hd es)\<rparr>)
         in Option.bind (rd lba) (\<lambda>bs.
            Option.bind (scan_entries rd hd_name lba (partition_table bs) st) (\<lambda>st.
            scan_entries rd hd_name ext_lba (tl es) st)))
      else if fs_type (hd es) \<noteq> 0 then
        (if ext_lba = 0 then Option.bind (add_prim hd_name ext_lba (hd es) st) (\<lambda>st. scan_entries rd hd_name ext_lba (tl es) st)
         else Option.bind (add_logic hd_name ext_lba (hd es) st) (\<lambda>st.
           if 8 \<le> l_cnt st then Some st else scan_entries rd hd_name ext_lba (tl es) st))
      else scan_entries rd hd_name ext_lba (tl es) st)"

definition read_sector :: "'a fstate_scheme \<Rightarrow> u32 \<Rightarrow> sector option" where
  "read_sector s lba = ide_read lba 1 s"

definition partition_scan :: "u8 list \<Rightarrow> u32 \<Rightarrow> 'a fstate_scheme \<Rightarrow> scan_state \<Rightarrow> scan_state option" where
  "partition_scan hd_name ext_lba s st = do {
     bs \<leftarrow> read_sector s ext_lba;
     scan_entries (read_sector s) hd_name ext_lba (partition_table bs) st
   }"

text \<open>
  \<^verbatim>\<open>ide_init\<close>: the channels for \<^verbatim>\<open>hd_cnt\<close> disks, and the partitions of the second disk of each; \<open>disk_of\<close> is the
  contents of that disk of a channel. The semaphore and the lock of a channel are at the addresses
  that \<open>done_at\<close> and \<open>lock_at\<close> give, \<open>func\<close> stands for \<^verbatim>\<open>intr_hd_handler\<close>. \<^verbatim>\<open>identify_disk\<close>, which only prints what the
  disk says of itself, is in \<open>Ide_transfer\<close>. The list of all partitions is what the channels found, in order. The counters start again at 0 for every disk; \<^verbatim>\<open>ext_lba_base\<close> does not.
\<close>

definition ide_channel_init :: "(nat \<Rightarrow> addr) \<Rightarrow> (nat \<Rightarrow> addr) \<Rightarrow> nat \<Rightarrow> ide_channel option" where
  "ide_channel_init done_at lock_at chan_no =
     (if chan_no = 0 then Some \<lparr>port_base = 0x1f0, irq_no = 0x20 + 14, chan_lock = lock_at 0, expecting_intr = False, disk_done = done_at 0\<rparr>
      else if chan_no = 1 then Some \<lparr>port_base = 0x170, irq_no = 0x20 + 15, chan_lock = lock_at 1, expecting_intr = False, disk_done = done_at 1\<rparr>
      else None)"

definition hd_name :: "nat \<Rightarrow> nat \<Rightarrow> u8 list" where
  "hd_name chan_no dev_no = [0x73, 0x64, 0x61 + of_nat (chan_no * 2 + dev_no)]"

primrec init_channels :: "nat \<Rightarrow> nat \<Rightarrow> (nat \<Rightarrow> addr) \<Rightarrow> (nat \<Rightarrow> addr) \<Rightarrow> handler \<Rightarrow> (nat \<Rightarrow> 'f fstate_scheme) \<Rightarrow> scan_state \<Rightarrow> u32
    \<Rightarrow> handlers \<Rightarrow> 'a kstate_scheme \<Rightarrow> ((ide_channel \<times> scan_state) list \<times> handlers \<times> 'a kstate_scheme) option" where
  "init_channels 0 chan_no done_at lock_at func disk_of st0 base h s = Some ([], h, s)"
| "init_channels (Suc n) chan_no done_at lock_at func disk_of st0 base h s = do {
     c \<leftarrow> ide_channel_init done_at lock_at chan_no;
     let s = lock_init (lock_at chan_no) s;
     let s = sema_init (done_at chan_no) 0 s;
     h \<leftarrow> register_handler (irq_no c) func h;
     st \<leftarrow> partition_scan (hd_name chan_no 1) 0 (disk_of chan_no) (st0\<lparr>ext_lba_base := base, p_cnt := 0, l_cnt := 0\<rparr>);
     (cs, h, s) \<leftarrow> init_channels n (Suc chan_no) done_at lock_at func disk_of st0 (ext_lba_base st) h s;
     Some ((c, st) # cs, h, s)
   }"

definition ide_init :: "u8 \<Rightarrow> (nat \<Rightarrow> addr) \<Rightarrow> (nat \<Rightarrow> addr) \<Rightarrow> handler \<Rightarrow> (nat \<Rightarrow> 'f fstate_scheme) \<Rightarrow> scan_state
    \<Rightarrow> handlers \<Rightarrow> 'a kstate_scheme \<Rightarrow> ((ide_channel \<times> scan_state) list \<times> handlers \<times> 'a kstate_scheme) option" where
  "ide_init hd_cnt done_at lock_at func disk_of st0 h s = do {
     ASSERT (0 < hd_cnt);
     init_channels (DIV_ROUND_UP (unat hd_cnt) 2) 0 done_at lock_at func disk_of st0 0 h s
   }"

section \<open>The clock\<close>

text \<open>The second byte of the counter is shifted after it was cut to 8 bits, and is always 0.\<close>

definition frequency_set :: "u16 \<Rightarrow> u8 \<Rightarrow> u8 \<Rightarrow> u8 \<Rightarrow> u16 \<Rightarrow> (u16 \<times> u8) list" where
  "frequency_set counter_port counter_no rwl counter_mode counter_value =
     [(0x43, push_bit 6 counter_no OR push_bit 4 rwl OR push_bit 1 counter_mode),
      (counter_port, ucast counter_value), (counter_port, drop_bit 8 (ucast counter_value))]"

definition timer_init :: "handler \<Rightarrow> handlers \<Rightarrow> ((u16 \<times> u8) list \<times> handlers) option" where
  "timer_init func h = do {
     h \<leftarrow> register_handler 0x20 func h;
     Some (frequency_set 0x40 0 3 2 (of_nat (1193180 div 100)), h)
   }"

text \<open>
  \<^verbatim>\<open>mtime_sleep\<close>: the number of ticks to wait for. \<^verbatim>\<open>ticks_to_sleep\<close> yields until they have passed; one round
  of its loop either ends it or yields, and the loop goes on when the task runs again.
\<close>

definition sleep_ticks :: "u32 \<Rightarrow> u32 option" where
  "sleep_ticks m_seconds = do {
     let t = (m_seconds + 10 - 1) div 10;
     ASSERT (0 < t);
     Some t
   }"

datatype sleep_state = Awake | Yielded

definition ticks_to_sleep_round :: "u32 \<Rightarrow> u32 \<Rightarrow> 'a kstate_scheme \<Rightarrow> (sleep_state \<times> 'a kstate_scheme) option" where
  "ticks_to_sleep_round start_tick slp s =
     (if ticks_total s - start_tick < slp then do { s \<leftarrow> thread_yield s; Some (Yielded, s) } else Some (Awake, s))"

section \<open>Properties of the driver\<close>

text \<open>
  the bytes that \<^verbatim>\<open>select_sector\<close> writes name the sector: put together again, the three address registers
  and the low four bits of the device register are the sector number, bit 4 of the device
  register is the drive, and its other bits select LBA addressing. A number past the end of the
  disk is refused.
\<close>

theorem select_sector_names:
  "(max_lba < lba \<longrightarrow> select_sector c dev_no lba cnt = None) \<and>
   (lba \<le> max_lba \<longrightarrow> (\<exists>b0 b1 b2 d. select_sector c dev_no lba cnt =
       Some [(port_base c + 2, cnt), (port_base c + 3, b0), (port_base c + 4, b1), (port_base c + 5, b2), (port_base c + 6, d)]
     \<and> ucast b0 OR push_bit 8 (ucast b1) OR push_bit 16 (ucast b2) OR push_bit 24 (ucast (d AND 0x0f)) = lba
     \<and> bit d 4 = (dev_no = 1) \<and> d AND 0xe0 = 0xe0))"
proof (cases "lba \<le> max_lba")
  case True
  have high: "drop_bit 24 lba = 0" using True by (simp add: max_lba_def drop_bit_eq_div word_le_nat_alt word_unat_eq_iff unat_div)
  then have z: "\<not> bit lba n" if "24 \<le> n" for n
  proof -
    have "bit (drop_bit 24 lba) (n - 24) = bit lba n" using that by (simp add: bit_drop_bit_eq)
    then show ?thesis by (simp add: high)
  qed
  let ?d = "BIT_DEV_MBS OR BIT_DEV_LBA OR (if dev_no = 1 then BIT_DEV_DEV else 0) OR ucast (drop_bit 24 lba)"
  have d: "?d AND 0x0f = 0" "bit ?d 4 = (dev_no = 1)" "?d AND 0xe0 = 0xe0"
    unfolding high by (simp_all add: BIT_DEV_MBS_def BIT_DEV_LBA_def BIT_DEV_DEV_def)
  have "ucast (ucast lba :: u8) OR push_bit 8 (ucast (ucast (drop_bit 8 lba) :: u8)) OR push_bit 16 (ucast (ucast (drop_bit 16 lba) :: u8)) = lba"
  proof (rule bit_word_eqI)
    fix n :: nat
    show "bit (ucast (ucast lba :: u8) OR push_bit 8 (ucast (ucast (drop_bit 8 lba) :: u8)) OR push_bit 16 (ucast (ucast (drop_bit 16 lba) :: u8)) :: u32) n = bit lba n"
      using z [of n] by (cases "n < 16"; cases "n < 24") (auto simp: bit_simps)
  qed
  then show ?thesis using True d by (simp add: select_sector_def reg_sect_cnt_def reg_lba_l_def reg_lba_m_def reg_lba_h_def reg_dev_def)
next
  case False
  then show ?thesis by (simp add: select_sector_def)
qed

theorem select_sector_names_witness:
  "(\<exists>b0 b1 b2 d. select_sector \<lparr>port_base = 0x1f0, irq_no = 0x2e, chan_lock = NULL, expecting_intr = False, disk_done = NULL\<rparr> 1 0x12345 1
      = Some [(0x1f2, 1), (0x1f3, b0), (0x1f4, b1), (0x1f5, b2), (0x1f6, d)] \<and> bit d 4)
    \<and> select_sector \<lparr>port_base = 0x1f0, irq_no = 0x2e, chan_lock = NULL, expecting_intr = False, disk_done = NULL\<rparr> 1 0x28000 1 = None"
  using select_sector_names [of "0x12345" "\<lparr>port_base = 0x1f0, irq_no = 0x2e, chan_lock = NULL, expecting_intr = False, disk_done = NULL\<rparr>" 1 1]
    select_sector_names [of "0x28000" "\<lparr>port_base = 0x1f0, irq_no = 0x2e, chan_lock = NULL, expecting_intr = False, disk_done = NULL\<rparr>" 1 1]
  by (auto simp: max_lba_def)

lemma busy_wait_loop_spec:
  assumes "\<forall>i<n. st (k + i) AND BIT_STAT_BSY \<noteq> 0" and "n < unat t"
    and "n < unat t - 1 \<Longrightarrow> st (k + n) AND BIT_STAT_BSY = 0"
  shows "busy_wait_loop st k t = (n < unat t - 1 \<and> st (Suc (k + n)) AND BIT_STAT_DRQ \<noteq> 0, n)"
  using assms
proof (induction n arbitrary: k t)
  case 0
  have u: "unat (t - 1) = unat t - 1" using 0 by (simp add: unat_sub word_le_nat_alt)
  then have z: "t - 1 = 0 \<longleftrightarrow> unat t - 1 = 0" by (metis unat_eq_zero)
  show ?case using 0 z by (subst busy_wait_loop.simps) (auto simp: Let_def)
next
  case (Suc n)
  have u: "unat (t - 1) = unat t - 1" using Suc.prems(2) by (simp add: unat_sub word_le_nat_alt)
  then have nz: "t - 1 \<noteq> 0" using Suc.prems(2) by (metis unat_0 Suc_lessE diff_Suc_1 less_zeroE old.nat.distinct(2))
  have "busy_wait_loop st (Suc k) (t - 1) = (n < unat (t - 1) - 1 \<and> st (Suc (Suc k + n)) AND BIT_STAT_DRQ \<noteq> 0, n)"
    using Suc.prems by (intro Suc.IH) (auto simp: u)
  then show ?case using nz Suc.prems(1) u by (subst busy_wait_loop.simps) (auto simp: Let_def)
qed

text \<open>
  \<^verbatim>\<open>busy_wait\<close> returns. If the first status read that is not busy is the one after \<open>n\<close> others, with
  \<open>n < 29999\<close>, it has slept \<open>n\<close> times 10 ms and returns whether the next read shows data ready; if the disk
  stays busy it gives up after 29999 sleeps, about 300 s. The comment says 30 s: the loop condition
  \<^verbatim>\<open>time_limit -= 10 >= 0\<close> takes 1, not 10, from the limit in each round.
\<close>

theorem busy_wait_polls:
  assumes "n \<le> 29999" and "\<forall>i<n. st i AND BIT_STAT_BSY \<noteq> 0" and "n < 29999 \<Longrightarrow> st n AND BIT_STAT_BSY = 0"
  shows "busy_wait st = (n < 29999 \<and> st (Suc n) AND BIT_STAT_DRQ \<noteq> 0, n)"
  using busy_wait_loop_spec [of n st 0 30000] assms by (simp add: busy_wait_def)

theorem busy_wait_polls_witness: "busy_wait (\<lambda>_. 0x80) = (False, 29999) \<and> busy_wait (\<lambda>i. if i < 3 then 0x80 else 8) = (True, 3)"
  using busy_wait_polls [of 29999 "\<lambda>_. 0x80"] busy_wait_polls [of 3 "\<lambda>i. if i < 3 then 0x80 else 8"]
  by (simp add: BIT_STAT_BSY_def BIT_STAT_DRQ_def)

text \<open>
  The clock's counter: the low byte of 11931 and then 0 instead of its high byte 46, so the counter is
  155 and the clock ticks 77 times faster than the 100 Hz that \<^verbatim>\<open>IRQ0_FREQUENCY\<close> asks for.
\<close>

lemma frequency_high_byte_lost: "frequency_set 0x40 0 3 2 11931 = [(0x43, 0x34), (0x40, 155), (0x40, 0)]"
  by (simp add: frequency_set_def)

lemma swap_pairs_involutive: "swap_pairs_bytes (swap_pairs_bytes xs) = xs"
  by (induction xs rule: swap_pairs_bytes.induct) simp_all

section \<open>The partitions that the search finds\<close>

definition empty_entry :: "partition_table_entry \<Rightarrow> bool" where
  "empty_entry e = (fs_type e = 0)"

text \<open>
  A chain of extended boot records, each with one logical partition and, but for the last, a link to the next
  record: \<open>(lba, rel, n)\<close> stands for a record at sector \<open>lba\<close> whose partition starts \<open>rel\<close> sectors after
  it and has \<open>n\<close> sectors. The links count from \<open>base\<close>, the first record.
\<close>

fun ebr_chain :: "(u32 \<Rightarrow> sector option) \<Rightarrow> u32 \<Rightarrow> (u32 \<times> u32 \<times> u32) list \<Rightarrow> bool" where
  "ebr_chain rd base [] = True"
| "ebr_chain rd base ((lba, rel, n) # rest) =
     (lba \<noteq> 0 \<and> (\<exists>bs e l e2 e3. rd lba = Some bs \<and> partition_table bs = [e, l, e2, e3]
        \<and> fs_type e \<notin> {0, 5} \<and> pe_start_lba e = rel \<and> pe_sec_cnt e = n \<and> empty_entry e2 \<and> empty_entry e3
        \<and> (case rest of [] \<Rightarrow> empty_entry l | (lba', _, _) # _ \<Rightarrow> fs_type l = 5 \<and> pe_start_lba l + base = lba'))
      \<and> ebr_chain rd base rest)"

lemma scan_empty: "\<forall>e\<in>set es. empty_entry e \<Longrightarrow> scan_entries rd nm lba es st = Some st"
  by (induction es) (subst scan_entries.simps, simp add: empty_entry_def)+

definition found :: "nat \<Rightarrow> (u32 \<times> u32 \<times> u32) list \<Rightarrow> scan_state \<Rightarrow> scan_state \<Rightarrow> bool" where
  "found k ch st st' = (l_cnt st' = of_nat (k + length ch) \<and> length (logic_parts st') = length (logic_parts st)
     \<and> (\<forall>i<length ch. case ch ! i of (lba, rel, n) \<Rightarrow> start_lba (logic_parts st' ! (k + i)) = lba + rel \<and> sec_cnt (logic_parts st' ! (k + i)) = n)
     \<and> (\<forall>j<k. logic_parts st' ! j = logic_parts st ! j)
     \<and> partition_list st' = partition_list st @ map Logic [k..<k + length ch]
     \<and> prim_parts st' = prim_parts st \<and> p_cnt st' = p_cnt st \<and> ext_lba_base st' = ext_lba_base st)"

lemma add_logic_found:
  assumes "l_cnt st = of_nat k" and "k < 8" and "length (logic_parts st) = 8" and "pe_start_lba e = rel" and "pe_sec_cnt e = n"
  shows "\<exists>st'. add_logic nm lba e st = Some st' \<and> found k [(lba, rel, n)] st st'"
proof -
  have "unat (l_cnt st) = k" using assms(1,2) by (simp add: unat_of_nat)
  then show ?thesis using assms by (auto simp: add_logic_def found_def set_part_def Let_def nth_list_update)
qed

lemma found_Cons:
  assumes "found k [c] st st1" and "found (Suc k) ch st1 st2"
  shows "found k (c # ch) st st2"
proof -
  have "map Logic [k..<k + length (c # ch)] = Logic k # map Logic [Suc k..<Suc k + length ch]" by (simp add: upt_conv_Cons del: upt_Suc)
  moreover have "case (c # ch) ! i of (lba, rel, n) \<Rightarrow> start_lba (logic_parts st2 ! (k + i)) = lba + rel \<and> sec_cnt (logic_parts st2 ! (k + i)) = n"
    if "i < length (c # ch)" for i
    using assms that by (cases i) (auto simp: found_def split: prod.splits)
  ultimately show ?thesis using assms by (simp add: found_def)
qed

lemma scan_chain:
  assumes "ebr_chain rd base ((lba, rel, n) # rest)" and "base \<noteq> 0" and "ext_lba_base st = base" and "rd lba = Some bs"
    and "l_cnt st = of_nat k" and "k + Suc (length rest) \<le> 8" and "length (logic_parts st) = 8"
  shows "\<exists>st'. scan_entries rd nm lba (partition_table bs) st = Some st' \<and> found k ((lba, rel, n) # rest) st st'"
  using assms
proof (induction rest arbitrary: lba rel n st bs k)
  case Nil
  then obtain e l e2 e3 where t: "partition_table bs = [e, l, e2, e3]" "fs_type e \<notin> {0, 5}" "pe_start_lba e = rel" "pe_sec_cnt e = n"
    "\<forall>x\<in>set [l, e2, e3]. empty_entry x" "lba \<noteq> 0" by auto
  obtain st1 where s1: "add_logic nm lba e st = Some st1" "found k [(lba, rel, n)] st st1"
    using add_logic_found [OF Nil.prems(5) _ Nil.prems(7) t(3,4)] Nil.prems(6) by auto
  have "scan_entries rd nm lba (partition_table bs) st = Some st1"
    using s1(1) t scan_empty [OF t(5)] by (subst scan_entries.simps) simp
  then show ?case using s1(2) by blast
next
  case (Cons c rest)
  obtain lba' rel' n' where c: "c = (lba', rel', n')" by (metis prod_cases3)
  from Cons.prems(1,4) obtain e l e2 e3 where t: "partition_table bs = [e, l, e2, e3]" "fs_type e \<notin> {0, 5}" "pe_start_lba e = rel" "pe_sec_cnt e = n"
    "\<forall>x\<in>set [e2, e3]. empty_entry x" "lba \<noteq> 0" "fs_type l = 5" "pe_start_lba l + base = lba'" and ch: "ebr_chain rd base ((lba', rel', n') # rest)"
    by (auto simp: c)
  then obtain bs' where bs': "rd lba' = Some bs'" by auto
  obtain st1 where s1: "add_logic nm lba e st = Some st1" "found k [(lba, rel, n)] st st1"
    using add_logic_found [OF Cons.prems(5) _ Cons.prems(7) t(3,4)] Cons.prems(6) by auto
  then have f: "ext_lba_base st1 = base" "l_cnt st1 = of_nat (Suc k)" "length (logic_parts st1) = 8" using Cons.prems(3,7) by (simp_all add: found_def)
  then obtain st2 where s2: "scan_entries rd nm lba' (partition_table bs') st1 = Some st2" "found (Suc k) ((lba', rel', n') # rest) st1 st2"
    using Cons.IH [OF ch Cons.prems(2) f(1) bs' f(2)] Cons.prems(6) by auto
  have "unat (of_nat (Suc k) :: u8) = Suc k" using Cons.prems(6) unfolding unat_of_nat by simp
  then have "\<not> 8 \<le> l_cnt st1" using Cons.prems(6) unfolding f(2) word_le_nat_alt by simp
  then have "scan_entries rd nm lba (partition_table bs) st = scan_entries rd nm lba [l, e2, e3] st1"
    using s1(1) t by (subst scan_entries.simps) simp
  also have "\<dots> = Some st2"
    using t(6,7,8) f(1) Cons.prems(2) bs' s2(1) scan_empty [OF t(5)] by (subst scan_entries.simps) simp
  finally show ?case using found_Cons [OF s1(2) s2(2)] c by blast
qed

text \<open>
  C17: on a disk with one primary partition and an extended partition whose records form a chain of up to
  eight logical partitions, \<^verbatim>\<open>partition_scan\<close> ends and enters all of them: the primary one first, then the logical
  ones in the order of the chain, each with its absolute start and its length.
\<close>

theorem partition_scan_finds:
  assumes "read_sector s 0 = Some bs" and "partition_table bs = [p, x, e2, e3]" and "fs_type p \<notin> {0, 5}"
    and "fs_type x = 5" and "empty_entry e2" and "empty_entry e3"
    and "pe_start_lba x = base" and "ebr_chain (read_sector s) base ch" and "ch = (base, rel, n) # rest" and "length ch \<le> 8"
    and "ext_lba_base st = 0" and "p_cnt st = 0" and "l_cnt st = 0" and "length (prim_parts st) = 4" and "length (logic_parts st) = 8"
  shows "\<exists>st'. partition_scan nm 0 s st = Some st'
    \<and> start_lba (prim_parts st' ! 0) = pe_start_lba p \<and> sec_cnt (prim_parts st' ! 0) = pe_sec_cnt p
    \<and> map (\<lambda>q. (start_lba q, sec_cnt q)) (take (length ch) (logic_parts st')) = map (\<lambda>(lba, rel, n). (lba + rel, n)) ch
    \<and> partition_list st' = partition_list st @ [Prim 0] @ map Logic [0..<length ch]"
proof -
  let ?rd = "read_sector s"
  obtain bs' where bs': "?rd base = Some bs'" and base: "base \<noteq> 0" using assms(8,9) by auto
  obtain st1 where s1: "add_prim nm 0 p st = Some st1" "start_lba (prim_parts st1 ! 0) = pe_start_lba p" "sec_cnt (prim_parts st1 ! 0) = pe_sec_cnt p"
    "partition_list st1 = partition_list st @ [Prim 0]" "ext_lba_base st1 = 0" "l_cnt st1 = 0" "length (logic_parts st1) = 8"
    using assms(11-15) by (simp add: add_prim_def set_part_def Let_def)
  let ?st = "st1\<lparr>ext_lba_base := base\<rparr>"
  obtain st2 where s2: "scan_entries ?rd nm base (partition_table bs') ?st = Some st2" "found 0 ch ?st st2"
    using scan_chain [of ?rd base base rel n rest ?st bs' 0 nm] assms(8,9,10) base bs' s1(6,7) by auto
  have e: "scan_entries ?rd nm 0 [e2, e3] st2 = Some st2" by (rule scan_empty) (use assms(5,6) in simp)
  have "scan_entries ?rd nm 0 [x, e2, e3] st1 = Some st2"
    using assms(4,7) base bs' s1(5) s2(1) e by (subst scan_entries.simps) simp
  then have "partition_scan nm 0 s st = Some st2"
    using assms(1,2,3) s1(1) by (simp add: partition_scan_def, subst scan_entries.simps) simp
  moreover have "map (\<lambda>q. (start_lba q, sec_cnt q)) (take (length ch) (logic_parts st2)) = map (\<lambda>(lba, rel, n). (lba + rel, n)) ch"
    using s2(2) assms(10) s1(7) by (intro nth_equalityI) (auto simp: found_def split: prod.splits)
  ultimately show ?thesis using s1 s2(2) by (simp add: found_def)
qed

text \<open>
  With the base of an earlier disk left in \<^verbatim>\<open>ext_lba_base\<close> the search looks for the records of the next disk
  at the wrong sector.
\<close>

lemma stale_ext_lba_base:
  assumes "fs_type x = 5" and "ext_lba_base st = b" and "b \<noteq> 0" and "rd (pe_start_lba x + b) = None"
  shows "scan_entries rd nm 0 (x # es) st = None"
  using assms by (subst scan_entries.simps) simp

definition demo_boot :: "(nat \<times> u8 \<times> u8 \<times> u8) list \<Rightarrow> sector" where
  "demo_boot es = fold (\<lambda>(k, ty, lba, n) bs. bs[450 + 16 * k := ty, 454 + 16 * k := lba, 458 + 16 * k := n]) es (replicate 512 0)"

definition demo_scan :: scan_state where
  "demo_scan = \<lparr>ext_lba_base = 0, p_cnt = 0, l_cnt = 0, prim_parts = replicate 4 demo_part, logic_parts = replicate 8 demo_part, partition_list = []\<rparr>"

definition demo_disk :: fstate where
  "demo_disk = demo_fs\<lparr>disk := (\<lambda>lba. if lba = 0 then demo_boot [(0, 0x83, 10, 20), (1, 5, 100, 0)]
     else if lba = 100 then demo_boot [(0, 0x83, 1, 30), (1, 5, 50, 0)] else demo_boot [(0, 0x83, 2, 40)])\<rparr>"

lemma demo_disk_tables:
  "map_option partition_table (read_sector demo_disk 0) = Some [\<lparr>fs_type = 0x83, pe_start_lba = 10, pe_sec_cnt = 20\<rparr>,
     \<lparr>fs_type = 5, pe_start_lba = 100, pe_sec_cnt = 0\<rparr>, \<lparr>fs_type = 0, pe_start_lba = 0, pe_sec_cnt = 0\<rparr>, \<lparr>fs_type = 0, pe_start_lba = 0, pe_sec_cnt = 0\<rparr>]"
  "map_option partition_table (read_sector demo_disk 100) = Some [\<lparr>fs_type = 0x83, pe_start_lba = 1, pe_sec_cnt = 30\<rparr>,
     \<lparr>fs_type = 5, pe_start_lba = 50, pe_sec_cnt = 0\<rparr>, \<lparr>fs_type = 0, pe_start_lba = 0, pe_sec_cnt = 0\<rparr>, \<lparr>fs_type = 0, pe_start_lba = 0, pe_sec_cnt = 0\<rparr>]"
  "map_option partition_table (read_sector demo_disk 150) = Some [\<lparr>fs_type = 0x83, pe_start_lba = 2, pe_sec_cnt = 40\<rparr>,
     \<lparr>fs_type = 0, pe_start_lba = 0, pe_sec_cnt = 0\<rparr>, \<lparr>fs_type = 0, pe_start_lba = 0, pe_sec_cnt = 0\<rparr>, \<lparr>fs_type = 0, pe_start_lba = 0, pe_sec_cnt = 0\<rparr>]"
  by (simp_all add: read_sector_def demo_disk_def max_lba_def partition_table_def demo_boot_def get32_def upt_rec nth_list_update)

theorem partition_scan_finds_witness:
  "\<exists>st'. partition_scan [0x73, 0x64, 0x62] 0 demo_disk demo_scan = Some st'
    \<and> map (\<lambda>q. (start_lba q, sec_cnt q)) (take 2 (logic_parts st')) = [(101, 30), (152, 40)] \<and> partition_list st' = [Prim 0, Logic 0, Logic 1]"
proof -
  note t = demo_disk_tables [unfolded map_option_eq_Some]
  obtain bs where bs: "read_sector demo_disk 0 = Some bs" "partition_table bs = [\<lparr>fs_type = 0x83, pe_start_lba = 10, pe_sec_cnt = 20\<rparr>,
     \<lparr>fs_type = 5, pe_start_lba = 100, pe_sec_cnt = 0\<rparr>, \<lparr>fs_type = 0, pe_start_lba = 0, pe_sec_cnt = 0\<rparr>, \<lparr>fs_type = 0, pe_start_lba = 0, pe_sec_cnt = 0\<rparr>]"
    using t(1) by blast
  have ch: "ebr_chain (read_sector demo_disk) 100 [(100, 1, 30), (150, 2, 40)]"
    using t(2,3) by (auto simp: empty_entry_def)
  have up: "[0..<2] = [0, 1 :: nat]" by (simp add: upt_rec)
  show ?thesis
    using partition_scan_finds [OF bs _ _ _ _ _ ch refl, of demo_scan "[0x73, 0x64, 0x62]"]
    by (auto simp: empty_entry_def demo_scan_def up numeral_2_eq_2 [symmetric])
qed

end
