(* ===== verification/Ide_transfer.thy ===== *)
theory Ide_transfer
  imports Ide Mutex
begin

unbundle bit_operations_syntax

text \<open>
  The transfers of \<^verbatim>\<open>device/ide.c\<close> through the ports of the controller: \<^verbatim>\<open>_ide_read\<close>, \<^verbatim>\<open>_ide_write\<close>, \<^verbatim>\<open>identify_disk\<close> and
  the loops around them.

  The controller is hardware: the record \<open>ports\<close> says what an access to a port does to it. What the
  driver relies on are the predicates \<open>ata_reads\<close> and \<open>ata_writes\<close>, the protocol of a PIO command with 28-bit
  addresses as the ATA standard describes it. The call of \<^verbatim>\<open>sema_down\<close> that waits for the interrupt
  comes back after other code has run; \<open>await\<close> is everything from the call to its return. The lock calls
  are those of a task that does not have to wait for the lock. The pauses of \<^verbatim>\<open>busy_wait\<close> change nothing here.
\<close>

section \<open>Ports\<close>

text \<open>\<open>port_status p d k\<close> is what the \<open>k\<close>-th of a row of reads of the status port returns.\<close>

record 'd ports =
  port_outb :: "u16 \<Rightarrow> u8 \<Rightarrow> 'd \<Rightarrow> 'd"
  port_status :: "u16 \<Rightarrow> 'd \<Rightarrow> nat \<Rightarrow> u8"
  port_inw :: "u16 \<Rightarrow> 'd \<Rightarrow> u16 \<times> 'd"
  port_outw :: "u16 \<Rightarrow> u16 \<Rightarrow> 'd \<Rightarrow> 'd"

definition outbs :: "'d ports \<Rightarrow> (u16 \<times> u8) list \<Rightarrow> 'd \<Rightarrow> 'd" where
  "outbs P ws d = fold (\<lambda>(p, v). port_outb P p v) ws d"

definition le16 :: "u16 \<Rightarrow> u8 list" where
  "le16 w = [ucast w, ucast (drop_bit 8 w)]"

definition buf_word :: "u8 list \<Rightarrow> u16" where
  "buf_word bs = ucast (bs ! 0) OR push_bit 8 (ucast (bs ! 1))"

primrec insw :: "'d ports \<Rightarrow> u16 \<Rightarrow> nat \<Rightarrow> 'd \<Rightarrow> u8 list \<times> 'd" where
  "insw P port 0 d = ([], d)"
| "insw P port (Suc n) d =
     (let (w, d) = port_inw P port d; (bs, d) = insw P port n d in (le16 w @ bs, d))"

primrec outsw :: "'d ports \<Rightarrow> u16 \<Rightarrow> nat \<Rightarrow> u8 list \<Rightarrow> 'd \<Rightarrow> 'd" where
  "outsw P port 0 buf d = d"
| "outsw P port (Suc n) buf d = outsw P port n (drop 2 buf) (port_outw P port (buf_word buf) d)"

section \<open>The driver\<close>

definition reg_data :: "ide_channel \<Rightarrow> u16" where "reg_data c = port_base c + 0"
definition reg_status :: "ide_channel \<Rightarrow> u16" where "reg_status c = port_base c + 7"

definition CMD_IDENTIFY :: u8 where "CMD_IDENTIFY = 0xec"
definition CMD_READ_SECTOR :: u8 where "CMD_READ_SECTOR = 0x20"
definition CMD_WRITE_SECTOR :: u8 where "CMD_WRITE_SECTOR = 0x30"

definition data_ready :: "'d ports \<Rightarrow> ide_channel \<Rightarrow> 'd \<Rightarrow> bool" where
  "data_ready P c d = fst (busy_wait (port_status P (reg_status c) d))"

definition read_from_sector :: "'d ports \<Rightarrow> ide_channel \<Rightarrow> u8 \<Rightarrow> 'd \<Rightarrow> u8 list \<times> 'd" where
  "read_from_sector P c secs d = insw P (reg_data c) (unat (transfer_bytes secs) div 2) d"

definition write2sector :: "'d ports \<Rightarrow> ide_channel \<Rightarrow> u8 list \<Rightarrow> u8 \<Rightarrow> 'd \<Rightarrow> 'd option" where
  "write2sector P c buf secs d = do {
     ASSERT (unat (transfer_bytes secs) \<le> length buf);
     Some (outsw P (reg_data c) (unat (transfer_bytes secs) div 2) buf d)
   }"

definition next_secs :: "u32 \<Rightarrow> u32 \<Rightarrow> u32" where
  "next_secs secs secs_done = (if secs_done + 256 \<le> secs then 256 else secs - secs_done)"

type_synonym ('d, 'a) hd_state = "'d \<times> ide_channel \<times> 'a kstate_scheme"
type_synonym 'a await = "ide_channel \<Rightarrow> 'a kstate_scheme \<Rightarrow> (ide_channel \<times> 'a kstate_scheme) option"

definition start_command :: "'d ports \<Rightarrow> u8 \<Rightarrow> u8 \<Rightarrow> u32 \<Rightarrow> u32 \<Rightarrow> 'd \<Rightarrow> ide_channel \<Rightarrow> ('d \<times> ide_channel) option" where
  "start_command P cmd dev_no lba secs_op d c = do {
     ws \<leftarrow> select_sector c dev_no lba (ucast secs_op);
     let (cs, c) = cmd_out cmd c;
     Some (outbs P (ws @ cs) d, c)
   }"

definition read_round :: "'d ports \<Rightarrow> 'a await \<Rightarrow> u8 \<Rightarrow> u32 \<Rightarrow> u32 \<Rightarrow> ('d, 'a) hd_state \<Rightarrow> (u8 list \<times> ('d, 'a) hd_state) option" where
  "read_round P await dev_no lba secs_op = (\<lambda>(d, c, s). do {
     (d, c) \<leftarrow> start_command P CMD_READ_SECTOR dev_no lba secs_op d c;
     (c, s) \<leftarrow> await c s;
     ASSERT (data_ready P c d);
     let (bs, d) = read_from_sector P c (ucast secs_op) d;
     Some (bs, d, c, s)
   })"

partial_function (option) read_secs :: "'d ports \<Rightarrow> 'a await \<Rightarrow> u8 \<Rightarrow> u32 \<Rightarrow> u32 \<Rightarrow> u32 \<Rightarrow> ('d, 'a) hd_state
    \<Rightarrow> (u8 list \<times> ('d, 'a) hd_state) option" where
  "read_secs P await dev_no lba secs secs_done st =
     (if secs_done < secs then
        Option.bind (read_round P await dev_no (lba + secs_done) (next_secs secs secs_done) st) (\<lambda>r.
        Option.bind (read_secs P await dev_no lba secs (secs_done + next_secs secs secs_done) (snd r)) (\<lambda>q.
        Some (fst r @ fst q, snd q)))
      else Some ([], st))"

definition ide_read1 :: "'d ports \<Rightarrow> 'a await \<Rightarrow> u8 \<Rightarrow> u32 \<Rightarrow> ('d, 'a) hd_state \<Rightarrow> (u8 list \<times> ('d, 'a) hd_state) option" where
  "ide_read1 P await dev_no lba = (\<lambda>(d, c, s). do {
     ASSERT (lba \<le> max_lba);
     s \<leftarrow> lock_acquire_now (chan_lock c) s;
     let d = outbs P (select_disk c dev_no) d;
     (bs, d, c, s) \<leftarrow> read_secs P await dev_no lba 1 0 (d, c, s);
     s \<leftarrow> lock_release_now (chan_lock c) s;
     Some (bs, d, c, s)
   })"

definition write_round :: "'d ports \<Rightarrow> 'a await \<Rightarrow> u8 \<Rightarrow> u32 \<Rightarrow> u32 \<Rightarrow> u8 list \<Rightarrow> ('d, 'a) hd_state \<Rightarrow> ('d, 'a) hd_state option" where
  "write_round P await dev_no lba secs_op buf = (\<lambda>(d, c, s). do {
     (d, c) \<leftarrow> start_command P CMD_WRITE_SECTOR dev_no lba secs_op d c;
     ASSERT (data_ready P c d);
     d \<leftarrow> write2sector P c buf (ucast secs_op) d;
     (c, s) \<leftarrow> await c s;
     Some (d, c, s)
   })"

partial_function (option) write_secs :: "'d ports \<Rightarrow> 'a await \<Rightarrow> u8 \<Rightarrow> u32 \<Rightarrow> u32 \<Rightarrow> u32 \<Rightarrow> u8 list \<Rightarrow> ('d, 'a) hd_state
    \<Rightarrow> ('d, 'a) hd_state option" where
  "write_secs P await dev_no lba secs secs_done buf st =
     (if secs_done < secs then
        Option.bind (write_round P await dev_no (lba + secs_done) (next_secs secs secs_done) (drop (unat secs_done * 512) buf) st) (\<lambda>st.
        write_secs P await dev_no lba secs (secs_done + next_secs secs secs_done) buf st)
      else Some st)"

definition ide_write1 :: "'d ports \<Rightarrow> 'a await \<Rightarrow> u8 \<Rightarrow> u32 \<Rightarrow> u8 list \<Rightarrow> ('d, 'a) hd_state \<Rightarrow> ('d, 'a) hd_state option" where
  "ide_write1 P await dev_no lba buf = (\<lambda>(d, c, s). do {
     ASSERT (lba \<le> max_lba);
     s \<leftarrow> lock_acquire_now (chan_lock c) s;
     let d = outbs P (select_disk c dev_no) d;
     (d, c, s) \<leftarrow> write_secs P await dev_no lba 1 0 buf (d, c, s);
     s \<leftarrow> lock_release_now (chan_lock c) s;
     Some (d, c, s)
   })"

text \<open>Every round of the two loops passes the same sector number.\<close>

primrec hd_read :: "'d ports \<Rightarrow> 'a await \<Rightarrow> u8 \<Rightarrow> u32 \<Rightarrow> nat \<Rightarrow> ('d, 'a) hd_state \<Rightarrow> (u8 list \<times> ('d, 'a) hd_state) option" where
  "hd_read P await dev_no lba 0 st = Some ([], st)"
| "hd_read P await dev_no lba (Suc n) st = do {
     (bs, st) \<leftarrow> ide_read1 P await dev_no lba st;
     (r, st) \<leftarrow> hd_read P await dev_no lba n st;
     Some (bs @ r, st)
   }"

primrec hd_write :: "'d ports \<Rightarrow> 'a await \<Rightarrow> u8 \<Rightarrow> u32 \<Rightarrow> u8 list \<Rightarrow> nat \<Rightarrow> ('d, 'a) hd_state \<Rightarrow> ('d, 'a) hd_state option" where
  "hd_write P await dev_no lba buf 0 st = Some st"
| "hd_write P await dev_no lba buf (Suc n) st = do {
     st \<leftarrow> ide_write1 P await dev_no lba buf st;
     hd_write P await dev_no lba (drop 512 buf) n st
   }"

text \<open>
  \<^verbatim>\<open>identify_disk\<close>, with the text it prints; the number of sectors times 512 wraps around at 4 GB. It does
  not take the lock of the channel.
\<close>

definition cut0 :: "u8 list \<Rightarrow> u8 list" where
  "cut0 bs = takeWhile (\<lambda>b. b \<noteq> 0) bs"

definition identify_text :: "u8 list \<Rightarrow> u8 list \<Rightarrow> u8 list" where
  "identify_text name id_info =
     (let sn = swap_pairs_bytes (take 20 (drop (10 * 2) id_info));
          md = swap_pairs_bytes (take 40 (drop (27 * 2) id_info));
          sectors = get32 id_info (60 * 2)
      in ascii ''   disk '' @ name @ ascii '' info:'' @ [0x0a] @ ascii ''      SN: '' @ cut0 sn @ [0x0a]
         @ ascii ''      MODULE: '' @ cut0 md @ [0x0a]
         @ ascii ''      SECTORS: '' @ decimal sectors @ [0x0a]
         @ ascii ''      CAPACITY: '' @ decimal (sectors * 512 div 1024 div 1024) @ ascii ''MB'' @ [0x0a])"

definition identify_disk :: "'d ports \<Rightarrow> 'a await \<Rightarrow> u8 list \<Rightarrow> u8 \<Rightarrow> ('d, 'a) hd_state \<Rightarrow> (u8 list \<times> ('d, 'a) hd_state) option" where
  "identify_disk P await name dev_no = (\<lambda>(d, c, s). do {
     let d = outbs P (select_disk c dev_no) d;
     let (cs, c) = cmd_out CMD_IDENTIFY c;
     let d = outbs P cs d;
     (c, s) \<leftarrow> await c s;
     ASSERT (data_ready P c d);
     let (id_info, d) = read_from_sector P c 1 d;
     Some (identify_text name id_info, d, c, s)
   })"

section \<open>What the driver relies on\<close>

text \<open>The sector number that the address registers and the low bits of the device register name.\<close>

definition lba28 :: "u8 \<Rightarrow> u8 \<Rightarrow> u8 \<Rightarrow> u8 \<Rightarrow> u32" where
  "lba28 b0 b1 b2 dv = ucast b0 OR push_bit 8 (ucast b1) OR push_bit 16 (ucast b2) OR push_bit 24 (ucast (dv AND 0x0f))"

text \<open>The status reads busy for some polls, fewer than the driver's limit, then ready with a request for data.\<close>

definition becomes_ready :: "'d ports \<Rightarrow> u16 \<Rightarrow> 'd \<Rightarrow> bool" where
  "becomes_ready P port d = (\<exists>n<29999. (\<forall>i<n. port_status P port d i AND BIT_STAT_BSY \<noteq> 0)
     \<and> port_status P port d n AND BIT_STAT_BSY = 0 \<and> port_status P port d (Suc n) AND BIT_STAT_DRQ \<noteq> 0)"

definition command1 :: "'d ports \<Rightarrow> u16 \<Rightarrow> u8 \<Rightarrow> u8 \<Rightarrow> u8 \<Rightarrow> u8 \<Rightarrow> u8 \<Rightarrow> 'd \<Rightarrow> 'd" where
  "command1 P base cmd b0 b1 b2 dv d =
     outbs P [(base + 2, 1), (base + 3, b0), (base + 4, b1), (base + 5, b2), (base + 6, dv), (base + 7, cmd)] d"

text \<open>\<open>sectors d drive lba\<close> is the contents of a drive; selecting a drive leaves them alone.\<close>

definition ata_selects :: "'d ports \<Rightarrow> u16 \<Rightarrow> ('d \<Rightarrow> bool \<Rightarrow> u32 \<Rightarrow> sector) \<Rightarrow> bool" where
  "ata_selects P base sectors = (\<forall>d dv. sectors (port_outb P (base + 6) dv d) = sectors d)"

definition ata_reads :: "'d ports \<Rightarrow> u16 \<Rightarrow> ('d \<Rightarrow> bool \<Rightarrow> u32 \<Rightarrow> sector) \<Rightarrow> bool" where
  "ata_reads P base sectors = (\<forall>d b0 b1 b2 dv. dv AND 0xe0 = 0xe0 \<longrightarrow>
     (let d1 = command1 P base 0x20 b0 b1 b2 dv d
      in becomes_ready P (base + 7) d1
       \<and> (\<exists>d2. insw P base 256 d1 = (sectors d (bit dv 4) (lba28 b0 b1 b2 dv), d2) \<and> sectors d2 = sectors d)))"

definition ata_writes :: "'d ports \<Rightarrow> u16 \<Rightarrow> ('d \<Rightarrow> bool \<Rightarrow> u32 \<Rightarrow> sector) \<Rightarrow> bool" where
  "ata_writes P base sectors = (\<forall>d b0 b1 b2 dv buf. dv AND 0xe0 = 0xe0 \<and> 512 \<le> length buf \<longrightarrow>
     (let d1 = command1 P base 0x30 b0 b1 b2 dv d; drive = bit dv 4
      in becomes_ready P (base + 7) d1
       \<and> sectors (outsw P base 256 buf d1) = (sectors d)(drive := (sectors d drive)(lba28 b0 b1 b2 dv := take 512 buf))))"

text \<open>
  The wait for the interrupt gives the caller back its lock and ends the expectation: between two
  transfers the semaphore is 0 and nobody waits for it or for the lock.
\<close>

definition chan_idle :: "ide_channel \<Rightarrow> 'a kstate_scheme \<Rightarrow> bool" where
  "chan_idle c s = (lock_free (chan_lock c) s \<and> sem_value s (disk_done c) = 0 \<and> list_empty (waiters (disk_done c)) s
     \<and> disk_done c \<noteq> lock_sema (chan_lock c))"

definition answers :: "'a await \<Rightarrow> ide_channel \<Rightarrow> bool" where
  "answers await c0 = (\<forall>c s. c = c0\<lparr>expecting_intr := True\<rparr> \<and> chan_idle c s \<longrightarrow>
     (\<exists>s'. await c (locked (chan_lock c) s) = Some (c\<lparr>expecting_intr := False\<rparr>, locked (chan_lock c) s') \<and> chan_idle c s'))"

section \<open>One sector\<close>

lemma data_ready_if: "becomes_ready P (port_base c + 7) d \<Longrightarrow> data_ready P c d"
proof -
  assume "becomes_ready P (port_base c + 7) d"
  then obtain n where n: "n < 29999" "\<forall>i<n. port_status P (port_base c + 7) d i AND BIT_STAT_BSY \<noteq> 0"
    "port_status P (port_base c + 7) d n AND BIT_STAT_BSY = 0" "port_status P (port_base c + 7) d (Suc n) AND BIT_STAT_DRQ \<noteq> 0"
    unfolding becomes_ready_def by blast
  show ?thesis using busy_wait_polls [OF less_imp_le [OF n(1)] n(2,3)] n(1,4) by (simp add: data_ready_def reg_status_def)
qed

lemma start_command_names:
  assumes "lba \<le> max_lba"
  shows "\<exists>b0 b1 b2 dv. start_command P cmd dev_no lba 1 d c = Some (command1 P (port_base c) cmd b0 b1 b2 dv d, c\<lparr>expecting_intr := True\<rparr>)
     \<and> lba28 b0 b1 b2 dv = lba \<and> bit dv 4 = (dev_no = 1) \<and> dv AND 0xe0 = 0xe0"
proof -
  obtain b0 b1 b2 dv where "select_sector c dev_no lba 1 =
      Some [(port_base c + 2, 1), (port_base c + 3, b0), (port_base c + 4, b1), (port_base c + 5, b2), (port_base c + 6, dv)]"
    "lba28 b0 b1 b2 dv = lba" "bit dv 4 = (dev_no = 1)" "dv AND 0xe0 = 0xe0"
    using select_sector_names [of lba c dev_no 1] assms unfolding lba28_def by blast
  then show ?thesis
    by (intro exI [of _ b0] exI [of _ b1] exI [of _ b2] exI [of _ dv])
      (simp add: start_command_def cmd_out_def command1_def reg_cmd_def)
qed

lemma transfer_words: "unat (transfer_bytes 1) = 512"
  by (simp add: transfer_bytes_def)

lemma next_secs_one: "next_secs 1 0 = 1"
  by (simp add: next_secs_def word_le_nat_alt)

lemma read_secs_one: "read_secs P await dev_no lba 1 0 st = read_round P await dev_no lba 1 st"
proof -
  have "read_secs P await dev_no lba 1 1 st = Some ([], st)" for st by (subst read_secs.simps) simp
  then show ?thesis by (subst read_secs.simps) (simp add: next_secs_one)
qed

lemma write_secs_one: "write_secs P await dev_no lba 1 0 buf st = write_round P await dev_no lba 1 buf st"
proof -
  have "write_secs P await dev_no lba 1 1 buf = Some" by (rule ext, subst write_secs.simps) simp
  then show ?thesis by (subst write_secs.simps) (simp add: next_secs_one)
qed

lemma select_disk_keeps: "ata_selects P (port_base c) sectors \<Longrightarrow> sectors (outbs P (select_disk c dev_no) d) = sectors d"
  by (simp add: ata_selects_def outbs_def select_disk_def reg_dev_def)

lemma release_awaited: "chan_idle c s \<Longrightarrow> lock_release_now (chan_lock c) (locked (chan_lock c) s) = Some s"
  unfolding chan_idle_def by (blast intro: lk.release_gives)

lemma acquire_idle: "chan_idle c s \<Longrightarrow> lock_acquire_now (chan_lock c) s = Some (locked (chan_lock c) s)"
  unfolding chan_idle_def by (blast intro: lk.acquire_takes)

lemma ide_read1_reads:
  assumes "ata_selects P (port_base c) sectors" and "ata_reads P (port_base c) sectors" and "answers await c"
    and "chan_idle c s" and "lba \<le> max_lba"
  shows "\<exists>d' s'. ide_read1 P await dev_no lba (d, c, s) = Some (sectors d (dev_no = 1) lba, d', c\<lparr>expecting_intr := False\<rparr>, s')
     \<and> sectors d' = sectors d \<and> chan_idle c s'"
proof -
  let ?d = "outbs P (select_disk c dev_no) d" and ?s = "locked (chan_lock c) s"
  obtain b0 b1 b2 dv where st: "start_command P CMD_READ_SECTOR dev_no lba 1 ?d c
      = Some (command1 P (port_base c) 0x20 b0 b1 b2 dv ?d, c\<lparr>expecting_intr := True\<rparr>)"
    and n: "lba28 b0 b1 b2 dv = lba" "bit dv 4 = (dev_no = 1)" "dv AND 0xe0 = 0xe0"
    using start_command_names [OF assms(5), of P "0x20" dev_no ?d c] unfolding CMD_READ_SECTOR_def by metis
  let ?d1 = "command1 P (port_base c) 0x20 b0 b1 b2 dv ?d"
  obtain d2 where d2: "becomes_ready P (port_base c + 7) ?d1" "insw P (port_base c) 256 ?d1 = (sectors d (dev_no = 1) lba, d2)" "sectors d2 = sectors d"
    using assms(2) [unfolded ata_reads_def Let_def, THEN spec [of _ ?d], THEN spec [of _ b0], THEN spec [of _ b1], THEN spec [of _ b2], THEN spec [of _ dv]] n(3) unfolding n(1,2) select_disk_keeps [OF assms(1)] by blast
  obtain s' where s': "await (c\<lparr>expecting_intr := True\<rparr>) ?s = Some (c\<lparr>expecting_intr := False\<rparr>, locked (chan_lock c) s')" "chan_idle c s'"
    using assms(3,4) unfolding answers_def by (auto simp: chan_idle_def)
  have "read_round P await dev_no lba 1 (?d, c, ?s) = Some (sectors d (dev_no = 1) lba, d2, c\<lparr>expecting_intr := False\<rparr>, locked (chan_lock c) s')"
    using st s'(1) d2(2) data_ready_if [of P "c\<lparr>expecting_intr := False\<rparr>" ?d1] d2(1)
    by (simp add: read_round_def read_from_sector_def reg_data_def transfer_words)
  then have "ide_read1 P await dev_no lba (d, c, s) = Some (sectors d (dev_no = 1) lba, d2, c\<lparr>expecting_intr := False\<rparr>, s')"
    using assms(5) acquire_idle [OF assms(4)] release_awaited [OF s'(2)] by (simp add: ide_read1_def read_secs_one)
  then show ?thesis using d2(3) s'(2) by blast
qed

lemma ide_write1_writes:
  assumes "ata_selects P (port_base c) sectors" and "ata_writes P (port_base c) sectors" and "answers await c"
    and "chan_idle c s" and "lba \<le> max_lba" and "512 \<le> length buf"
  shows "\<exists>d' s'. ide_write1 P await dev_no lba buf (d, c, s) = Some (d', c\<lparr>expecting_intr := False\<rparr>, s')
     \<and> sectors d' = (sectors d)(dev_no = 1 := (sectors d (dev_no = 1))(lba := take 512 buf)) \<and> chan_idle c s'"
proof -
  let ?d = "outbs P (select_disk c dev_no) d" and ?s = "locked (chan_lock c) s"
  obtain b0 b1 b2 dv where st: "start_command P CMD_WRITE_SECTOR dev_no lba 1 ?d c
      = Some (command1 P (port_base c) 0x30 b0 b1 b2 dv ?d, c\<lparr>expecting_intr := True\<rparr>)"
    and n: "lba28 b0 b1 b2 dv = lba" "bit dv 4 = (dev_no = 1)" "dv AND 0xe0 = 0xe0"
    using start_command_names [OF assms(5), of P "0x30" dev_no ?d c] unfolding CMD_WRITE_SECTOR_def by metis
  let ?d1 = "command1 P (port_base c) 0x30 b0 b1 b2 dv ?d"
  have d2: "becomes_ready P (port_base c + 7) ?d1"
      "sectors (outsw P (port_base c) 256 buf ?d1) = (sectors d)(dev_no = 1 := (sectors d (dev_no = 1))(lba := take 512 buf))"
    using assms(2) [unfolded ata_writes_def Let_def, THEN spec [of _ ?d], THEN spec [of _ b0], THEN spec [of _ b1], THEN spec [of _ b2], THEN spec [of _ dv], THEN spec [of _ buf]] n(3) assms(6) unfolding n(1,2) select_disk_keeps [OF assms(1)] by simp_all
  obtain s' where s': "await (c\<lparr>expecting_intr := True\<rparr>) ?s = Some (c\<lparr>expecting_intr := False\<rparr>, locked (chan_lock c) s')" "chan_idle c s'"
    using assms(3,4) unfolding answers_def by (auto simp: chan_idle_def)
  have "write_round P await dev_no lba 1 buf (?d, c, ?s) = Some (outsw P (port_base c) 256 buf ?d1, c\<lparr>expecting_intr := False\<rparr>, locked (chan_lock c) s')"
    using st s'(1) data_ready_if [of P "c\<lparr>expecting_intr := True\<rparr>" ?d1] d2(1) assms(6)
    by (simp add: write_round_def write2sector_def reg_data_def transfer_words)
  then have "ide_write1 P await dev_no lba buf (d, c, s) = Some (outsw P (port_base c) 256 buf ?d1, c\<lparr>expecting_intr := False\<rparr>, s')"
    using assms(5) acquire_idle [OF assms(4)] release_awaited [OF s'(2)] by (simp add: ide_write1_def write_secs_one)
  then show ?thesis using d2(2) s'(2) by blast
qed

section \<open>Whole transfers\<close>

lemma answers_again [simp]: "answers await (c\<lparr>expecting_intr := b\<rparr>) = answers await c"
  by (simp add: answers_def)

lemma chan_idle_again [simp]: "chan_idle (c\<lparr>expecting_intr := b\<rparr>) s = chan_idle c s"
  by (simp add: chan_idle_def)

lemma hd_read_reads:
  assumes "ata_selects P (port_base c) sectors" and "ata_reads P (port_base c) sectors" and "answers await c"
    and "chan_idle c s" and "ide_read lba n fs = Some bs" and "disk fs = sectors d (dev_no = 1)"
  shows "\<exists>d' c' s'. hd_read P await dev_no lba n (d, c, s) = Some (bs, d', c', s') \<and> sectors d' = sectors d \<and> chan_idle c s'"
  using assms
proof (induction n arbitrary: bs d c s)
  case (Suc n)
  obtain r where r: "lba \<le> max_lba" "ide_read lba n fs = Some r" "bs = sectors d (dev_no = 1) lba @ r"
    using Suc.prems(5,6) by (auto split: bind_splits if_splits)
  obtain d1 s1 where one: "ide_read1 P await dev_no lba (d, c, s) = Some (sectors d (dev_no = 1) lba, d1, c\<lparr>expecting_intr := False\<rparr>, s1)"
    "sectors d1 = sectors d" "chan_idle c s1"
    using ide_read1_reads [OF Suc.prems(1-4) r(1)] by blast
  obtain d2 c2 s2 where rest: "hd_read P await dev_no lba n (d1, c\<lparr>expecting_intr := False\<rparr>, s1) = Some (r, d2, c2, s2)"
    "sectors d2 = sectors d1" "chan_idle c s2"
    using Suc.IH [of "c\<lparr>expecting_intr := False\<rparr>" s1 r d1] Suc.prems one r(2) by auto
  then show ?case using one r(3) by auto
qed auto

lemma hd_write_writes:
  assumes "ata_selects P (port_base c) sectors" and "ata_writes P (port_base c) sectors" and "answers await c"
    and "chan_idle c s" and "ide_write lba buf n fs = Some fs'" and "disk fs = sectors d (dev_no = 1)" and "n * 512 \<le> length buf"
  shows "\<exists>d' c' s'. hd_write P await dev_no lba buf n (d, c, s) = Some (d', c', s')
     \<and> sectors d' = (sectors d)(dev_no = 1 := disk fs') \<and> chan_idle c s'"
  using assms
proof (induction n arbitrary: buf d c s fs)
  case 0
  then show ?case by (auto simp: fun_upd_idem)
next
  case (Suc n)
  let ?fs = "fs\<lparr>disk := (disk fs)(lba := take 512 buf)\<rparr>"
  have r: "lba \<le> max_lba" "ide_write lba (drop 512 buf) n ?fs = Some fs'"
    using Suc.prems(5) by (simp_all add: SECTOR_SIZE_def split: if_splits)
  obtain d1 s1 where one: "ide_write1 P await dev_no lba buf (d, c, s) = Some (d1, c\<lparr>expecting_intr := False\<rparr>, s1)"
    "sectors d1 = (sectors d)(dev_no = 1 := (sectors d (dev_no = 1))(lba := take 512 buf))" "chan_idle c s1"
    using ide_write1_writes [OF Suc.prems(1-4) r(1), of buf dev_no d] Suc.prems(7) by auto
  have eq: "disk ?fs = sectors d1 (dev_no = 1)" using Suc.prems(6) unfolding one(2) fun_upd_same by simp
  have "\<exists>d2 c2 s2. hd_write P await dev_no lba (drop 512 buf) n (d1, c\<lparr>expecting_intr := False\<rparr>, s1) = Some (d2, c2, s2)
      \<and> sectors d2 = (sectors d1)(dev_no = 1 := disk fs') \<and> chan_idle (c\<lparr>expecting_intr := False\<rparr>) s2"
    by (rule Suc.IH [OF _ _ _ _ r(2) eq]) (use Suc.prems(1,2,3,7) one(3) in simp_all)
  then obtain d2 c2 s2 where two: "hd_write P await dev_no lba (drop 512 buf) n (d1, c\<lparr>expecting_intr := False\<rparr>, s1) = Some (d2, c2, s2)"
    "sectors d2 = (sectors d1)(dev_no = 1 := disk fs')" "chan_idle c s2" by auto
  have "hd_write P await dev_no lba buf (Suc n) (d, c, s) = Some (d2, c2, s2)" using one(1) two(1) by simp
  then show ?case using two(2,3) unfolding one(2) fun_upd_upd by blast
qed

section \<open>The interrupt that answers\<close>

text \<open>
  The interrupt of the disk comes before the task reaches \<^verbatim>\<open>sema_down\<close>: the handler raises the semaphore and
  \<^verbatim>\<open>sema_down\<close> takes it at once.
\<close>

definition interrupt_first :: "'a await" where
  "interrupt_first c s = do {
     (cs, s) \<leftarrow> intr_hd_handler (irq_no c) [c] s;
     s \<leftarrow> sema_down (disk_done c) s;
     Some (hd cs, s)
   }"

lemma interrupt_first_answers:
  assumes "irq_no c0 = 0x2e"
  shows "answers interrupt_first c0"
  unfolding answers_def
proof (intro allI impI, elim conjE)
  fix c and s :: "'a kstate_scheme"
  assume c: "c = c0\<lparr>expecting_intr := True\<rparr>" and idle: "chan_idle c s"
  let ?s = "locked (chan_lock c) s"
  have v: "sem_value ?s (disk_done c) = 0" "list_empty (waiters (disk_done c)) ?s"
    using idle by (simp_all add: chan_idle_def locked_def list_empty_def)
  let ?up = "?s\<lparr>sem_value := (sem_value ?s)(disk_done c := 1)\<rparr>"
  have "sema_up (disk_done c) ?s = Some ?up" by (rule sema_up_empty [OF v])
  moreover have "sema_down (disk_done c) ?up = Some (?up\<lparr>sem_value := (sem_value ?up)(disk_done c := 0)\<rparr>)"
    by (rule sema_down_now) simp
  moreover have "?up\<lparr>sem_value := (sem_value ?up)(disk_done c := 0)\<rparr> = ?s" using v(1) by (simp add: fun_upd_idem)
  ultimately have "interrupt_first c ?s = Some (c\<lparr>expecting_intr := False\<rparr>, ?s)"
    using assms c by (simp add: interrupt_first_def intr_hd_handler_def Let_def)
  then show "\<exists>s'. interrupt_first c ?s = Some (c\<lparr>expecting_intr := False\<rparr>, locked (chan_lock c) s') \<and> chan_idle c s'"
    using idle by blast
qed

text \<open>
  C12: the operations on sectors that the file system is built on are what the driver does through the
  ports. If the controller follows the protocol and the wait for the interrupt comes back, a
  read of \<open>n\<close> sectors returns what \<^verbatim>\<open>ide_read\<close> of theory \<open>Disk\<close> returns and changes no sector, and a write
  leaves the drive as \<^verbatim>\<open>ide_write\<close> does and the other drive of the channel alone; both leave lock and
  semaphore of the channel as they were found.
\<close>

theorem ports_refine_sectors:
  assumes "ata_selects P (port_base c) sectors" and "ata_reads P (port_base c) sectors" and "ata_writes P (port_base c) sectors"
    and "answers await c" and "chan_idle c s" and "disk fs = sectors d (dev_no = 1)"
  shows "(ide_read lba n fs = Some bs \<longrightarrow>
      (\<exists>d' c' s'. hd_read P await dev_no lba n (d, c, s) = Some (bs, d', c', s') \<and> sectors d' = sectors d \<and> chan_idle c s'))
    \<and> (ide_write lba buf n fs = Some fs' \<and> n * 512 \<le> length buf \<longrightarrow>
      (\<exists>d' c' s'. hd_write P await dev_no lba buf n (d, c, s) = Some (d', c', s')
         \<and> sectors d' (dev_no = 1) = disk fs' \<and> sectors d' (dev_no \<noteq> 1) = sectors d (dev_no \<noteq> 1) \<and> chan_idle c s'))"
proof (intro conjI impI; (elim conjE)?)
  show "ide_read lba n fs = Some bs \<Longrightarrow>
      \<exists>d' c' s'. hd_read P await dev_no lba n (d, c, s) = Some (bs, d', c', s') \<and> sectors d' = sectors d \<and> chan_idle c s'"
    using hd_read_reads [OF assms(1,2,4,5) _ assms(6)] .
  assume "ide_write lba buf n fs = Some fs'" "n * 512 \<le> length buf"
  from hd_write_writes [OF assms(1,3,4,5) this(1) assms(6) this(2)]
  show "\<exists>d' c' s'. hd_write P await dev_no lba buf n (d, c, s) = Some (d', c', s')
         \<and> sectors d' (dev_no = 1) = disk fs' \<and> sectors d' (dev_no \<noteq> 1) = sectors d (dev_no \<noteq> 1) \<and> chan_idle c s'"
    by auto
qed

section \<open>A controller that follows the protocol\<close>

record ata =
  a_lba0 :: u8
  a_lba1 :: u8
  a_lba2 :: u8
  a_dev :: u8
  a_out :: "u8 list"
  a_in :: "u8 list"
  a_cell :: "bool \<Rightarrow> u32 \<Rightarrow> nat \<Rightarrow> u8"

definition ata_sectors :: "ata \<Rightarrow> bool \<Rightarrow> u32 \<Rightarrow> sector" where
  "ata_sectors d drive lba = map (a_cell d drive lba) [0..<512]"

definition a_lba :: "ata \<Rightarrow> u32" where
  "a_lba d = lba28 (a_lba0 d) (a_lba1 d) (a_lba2 d) (a_dev d)"

definition ata_ports :: "ata ports" where
  "ata_ports = \<lparr>
     port_outb = (\<lambda>p v d. if p = 0x1f3 then d\<lparr>a_lba0 := v\<rparr> else if p = 0x1f4 then d\<lparr>a_lba1 := v\<rparr>
       else if p = 0x1f5 then d\<lparr>a_lba2 := v\<rparr> else if p = 0x1f6 then d\<lparr>a_dev := v\<rparr>
       else if p = 0x1f7 then (if v = 0x20 then d\<lparr>a_out := ata_sectors d (bit (a_dev d) 4) (a_lba d)\<rparr> else d\<lparr>a_in := []\<rparr>) else d),
     port_status = (\<lambda>p d k. if k < 3 then 0x80 else 0x48),
     port_inw = (\<lambda>p d. (buf_word (a_out d), d\<lparr>a_out := drop 2 (a_out d)\<rparr>)),
     port_outw = (\<lambda>p w d. let bs = a_in d @ le16 w; d = d\<lparr>a_in := bs\<rparr> in
       if length bs = 512 then d\<lparr>a_cell := (a_cell d)(bit (a_dev d) 4 := (a_cell d (bit (a_dev d) 4))(a_lba d := (\<lambda>i. bs ! i)))\<rparr> else d)\<rparr>"

lemma le16_buf_word: "2 \<le> length bs \<Longrightarrow> le16 (buf_word bs) = take 2 bs"
proof -
  assume "2 \<le> length bs"
  then obtain x y r where bs: "bs = x # y # r" by (metis One_nat_def Suc_1 Suc_le_length_iff)
  have "ucast (ucast x OR push_bit 8 (ucast y) :: u16) = x" "ucast (drop_bit 8 (ucast x OR push_bit 8 (ucast y) :: u16)) = y"
    by (rule bit_word_eqI, auto simp: bit_simps dest: bit_imp_le_length)+
  then show ?thesis by (simp add: le16_def buf_word_def bs)
qed

lemma insw_ata: "length (a_out d) = 2 * n \<Longrightarrow> insw ata_ports p n d = (a_out d, d\<lparr>a_out := []\<rparr>)"
proof (induction n arbitrary: d)
  case (Suc n)
  have "insw ata_ports p n (d\<lparr>a_out := drop 2 (a_out d)\<rparr>) = (drop 2 (a_out d), d\<lparr>a_out := []\<rparr>)"
    using Suc.IH [of "d\<lparr>a_out := drop 2 (a_out d)\<rparr>"] Suc.prems by simp
  moreover have "le16 (buf_word (a_out d)) = take 2 (a_out d)" using Suc.prems by (intro le16_buf_word) simp
  ultimately show ?case by (simp add: ata_ports_def)
qed simp

lemma outsw_ata:
  assumes "length (a_in d) + 2 * Suc n = 512" and "2 * Suc n \<le> length buf"
  shows "ata_sectors (outsw ata_ports p (Suc n) buf d) = (ata_sectors d)(bit (a_dev d) 4 :=
     (ata_sectors d (bit (a_dev d) 4))(a_lba d := a_in d @ take (2 * Suc n) buf))"
  using assms
proof (induction n arbitrary: d buf)
  case 0
  then have "le16 (buf_word buf) = take 2 buf" by (intro le16_buf_word) simp
  with 0 show ?case by (auto simp: ata_ports_def ata_sectors_def fun_eq_iff a_lba_def Let_def intro: nth_equalityI)
next
  case (Suc n)
  have w: "le16 (buf_word buf) = take 2 buf" using Suc.prems by (intro le16_buf_word) simp
  let ?d = "d\<lparr>a_in := a_in d @ take 2 buf\<rparr>"
  have step: "port_outw ata_ports p (buf_word buf) d = ?d" using Suc.prems w by (simp add: ata_ports_def Let_def)
  have "ata_sectors (outsw ata_ports p (Suc n) (drop 2 buf) ?d) = (ata_sectors ?d)(bit (a_dev ?d) 4 :=
     (ata_sectors ?d (bit (a_dev ?d) 4))(a_lba ?d := a_in ?d @ take (2 * Suc n) (drop 2 buf)))"
    using Suc.prems by (intro Suc.IH) simp_all
  moreover have "take 2 buf @ take (2 * Suc n) (drop 2 buf) = take (2 * Suc (Suc n)) buf" by (simp add: take_add [symmetric])
  moreover have "ata_sectors ?d = ata_sectors d" "a_lba ?d = a_lba d" "a_dev ?d = a_dev d" by (simp_all add: ata_sectors_def a_lba_def fun_eq_iff)
  ultimately show ?case unfolding outsw.simps(2) [of _ _ "Suc n"] step by (simp del: outsw.simps fun_upd_apply)
qed

lemma command_ata:
  "command1 ata_ports 0x1f0 0x20 b0 b1 b2 dv d = d\<lparr>a_lba0 := b0, a_lba1 := b1, a_lba2 := b2, a_dev := dv,
     a_out := ata_sectors d (bit dv 4) (lba28 b0 b1 b2 dv)\<rparr>"
  "command1 ata_ports 0x1f0 0x30 b0 b1 b2 dv d = d\<lparr>a_lba0 := b0, a_lba1 := b1, a_lba2 := b2, a_dev := dv, a_in := []\<rparr>"
  by (simp_all add: command1_def outbs_def ata_ports_def a_lba_def ata_sectors_def)

lemma ready_ata: "becomes_ready ata_ports p d"
  unfolding becomes_ready_def by (rule exI [of _ 3]) (simp add: ata_ports_def BIT_STAT_BSY_def BIT_STAT_DRQ_def)

lemma ata_follows:
  "ata_selects ata_ports 0x1f0 ata_sectors" "ata_reads ata_ports 0x1f0 ata_sectors" "ata_writes ata_ports 0x1f0 ata_sectors"
proof -
  show "ata_selects ata_ports 0x1f0 ata_sectors" by (simp add: ata_selects_def ata_ports_def ata_sectors_def fun_eq_iff)
  have "insw ata_ports 0x1f0 256 (command1 ata_ports 0x1f0 0x20 b0 b1 b2 dv d)
      = (ata_sectors d (bit dv 4) (lba28 b0 b1 b2 dv), (command1 ata_ports 0x1f0 0x20 b0 b1 b2 dv d)\<lparr>a_out := []\<rparr>)" for b0 b1 b2 dv d
    by (subst insw_ata) (simp_all add: command_ata ata_sectors_def)
  then show "ata_reads ata_ports 0x1f0 ata_sectors"
    by (simp add: ata_reads_def Let_def ready_ata command_ata ata_sectors_def fun_eq_iff)
  have "ata_sectors (outsw ata_ports 0x1f0 (Suc 255) buf d) = (ata_sectors d)(bit (a_dev d) 4 :=
     (ata_sectors d (bit (a_dev d) 4))(a_lba d := a_in d @ take (2 * Suc 255) buf))" if "a_in d = []" "512 \<le> length buf" for buf d
    by (rule outsw_ata) (use that in simp_all)
  then show "ata_writes ata_ports 0x1f0 ata_sectors"
    by (auto simp: ata_writes_def Let_def ready_ata command_ata a_lba_def ata_sectors_def fun_eq_iff simp del: outsw.simps)
qed

definition demo_chan :: ide_channel where
  "demo_chan = \<lparr>port_base = 0x1f0, irq_no = 0x2e, chan_lock = 0x9000, expecting_intr = False, disk_done = 0x9800\<rparr>"

definition demo_chan_state :: kstate where
  "demo_chan_state = sema_init 0x9800 0 (lock_init 0x9000 demo_sys)"

definition demo_ata :: ata where
  "demo_ata = \<lparr>a_lba0 = 0, a_lba1 = 0, a_lba2 = 0, a_dev = 0, a_out = [], a_in = [], a_cell = (\<lambda>drive lba i. ucast lba + of_nat i)\<rparr>"

lemma demo_chan_idle: "chan_idle demo_chan demo_chan_state"
  by (simp add: chan_idle_def lock_free_def demo_chan_def demo_chan_state_def sema_init_def lock_init_def lock_sema_def waiters_def
      list_init_def list_empty_def list_tail_def demo_sys_def demo_k_def running_thread_def)

theorem ports_refine_sectors_witness:
  "(\<exists>d' c' s'. hd_read ata_ports interrupt_first 1 7 2 (demo_ata, demo_chan, demo_chan_state)
     = Some (ata_sectors demo_ata True 7 @ ata_sectors demo_ata True 7, d', c', s') \<and> chan_idle demo_chan s')
   \<and> (\<exists>d' c' s'. hd_write ata_ports interrupt_first 1 7 (replicate 512 5) 1 (demo_ata, demo_chan, demo_chan_state) = Some (d', c', s')
     \<and> ata_sectors d' True 7 = replicate 512 5 \<and> ata_sectors d' False = ata_sectors demo_ata False)"
proof (rule conjI)
  let ?fs = "demo_fs\<lparr>disk := ata_sectors demo_ata True\<rparr>"
  let ?fs' = "?fs\<lparr>disk := (disk ?fs)(7 := replicate 512 5)\<rparr>"
  have lba: "(7 :: u32) \<le> max_lba" by (simp add: max_lba_def)
  let ?bs = "ata_sectors demo_ata True 7 @ ata_sectors demo_ata True 7"
  have rd: "ide_read 7 2 ?fs = Some ?bs" using lba by (simp add: numeral_2_eq_2)
  have wr: "ide_write 7 (replicate 512 5) 1 ?fs = Some ?fs'" using lba by (simp add: SECTOR_SIZE_def)
  have ans: "answers interrupt_first demo_chan" by (rule interrupt_first_answers) (simp add: demo_chan_def)
  have base: "port_base demo_chan = 0x1f0" by (simp add: demo_chan_def)
  note transfer = ports_refine_sectors [of ata_ports demo_chan ata_sectors interrupt_first demo_chan_state ?fs demo_ata 1 7, unfolded base,
        OF ata_follows ans demo_chan_idle]
  show "\<exists>d' c' s'. hd_read ata_ports interrupt_first 1 7 2 (demo_ata, demo_chan, demo_chan_state) = Some (?bs, d', c', s') \<and> chan_idle demo_chan s'"
    using transfer [of 2 ?bs "[]" ?fs] rd by auto
  show "\<exists>d' c' s'. hd_write ata_ports interrupt_first 1 7 (replicate 512 5) 1 (demo_ata, demo_chan, demo_chan_state) = Some (d', c', s')
     \<and> ata_sectors d' True 7 = replicate 512 5 \<and> ata_sectors d' False = ata_sectors demo_ata False"
    using transfer [of 1 "[]" "replicate 512 5" ?fs'] wr by (auto simp del: ide_write.simps)
qed

end
