(* ===== verification/Fs_frame.thy ===== *)
theory Fs_frame
  imports Fs_tree
begin

text \<open>
  What the file system leaves alone: below the calls that open and close, no operation touches the
  descriptor table of the task or the table of open files. The lemmas are collected in \<open>tables\<close>.
\<close>

named_theorems tables \<open>operations that keep the descriptor table and the table of open files\<close>

definition fd_tables :: "'a fstate_scheme \<Rightarrow> u32 list \<times> file_slot list" where
  "fd_tables s = (fds s, file_table s)"

section \<open>Disk, bitmaps and inodes\<close>

lemma fd_tables_upd [simp]:
  "fd_tables (upd_inode a f s) = fd_tables s" "fd_tables (upd_part g s) = fd_tables s"
  "fd_tables (s\<lparr>disk := d\<rparr>) = fd_tables s" "fd_tables (s\<lparr>dirs := ds\<rparr>) = fd_tables s"
  "fd_tables (s\<lparr>heap_next := h\<rparr>) = fd_tables s" "fd_tables (s\<lparr>cwd_inode := c\<rparr>) = fd_tables s"
  "fd_tables (snd (kmalloc s)) = fd_tables s" "fd_tables (set_sector a k lba s) = fd_tables s" "fd_tables (grow_inode a n s) = fd_tables s"
  by (simp_all add: fd_tables_def upd_inode_def upd_part_def kmalloc_def set_sector_def grow_inode_def split: list.split)

lemma tables_kmalloc [tables]: "kmalloc s = (a, s') \<Longrightarrow> fd_tables s' = fd_tables s"
  using fd_tables_upd(7) [of s] by simp

lemma tables_ide_write [tables]: "ide_write lba buf n s = Some s' \<Longrightarrow> fd_tables s' = fd_tables s"
  by (induction n arbitrary: buf s) (auto split: if_splits)

lemma tables_bitmaps [tables]:
  "inode_bitmap_alloc s = Some (r, s') \<Longrightarrow> fd_tables s' = fd_tables s"
  "block_bitmap_alloc s = Some (r, s') \<Longrightarrow> fd_tables s' = fd_tables s"
  "inode_bit_clear n s = Some s' \<Longrightarrow> fd_tables s' = fd_tables s"
  "block_bit_clear n s = Some s' \<Longrightarrow> fd_tables s' = fd_tables s"
  by (auto simp: inode_bitmap_alloc_def block_bitmap_alloc_def inode_bit_clear_def block_bit_clear_def split: bind_splits if_splits)

lemma tables_bitmap_sync [tables]: "bitmap_sync n t s = Some s' \<Longrightarrow> fd_tables s' = fd_tables s"
  by (auto simp: bitmap_sync_def Let_def split_beta split: if_splits)

lemma tables_inode_sync [tables]: "inode_sync i room s = Some s' \<Longrightarrow> fd_tables s' = fd_tables s"
  by (auto simp: inode_sync_def Let_def simp del: ide_write.simps split: bind_splits if_splits dest: tables)

lemma tables_inode_delete [tables]: "inode_delete n room s = Some s' \<Longrightarrow> fd_tables s' = fd_tables s"
  by (auto simp: inode_delete_def Let_def simp del: ide_write.simps split: bind_splits if_splits dest: tables)

lemma tables_inode_open [tables]: "inode_open n s = Some (a, s') \<Longrightarrow> fd_tables s' = fd_tables s"
  by (auto simp: inode_open_def Let_def split_beta split: option.splits bind_splits if_splits)

lemma tables_inode_close [simp]: "fd_tables (inode_close a s) = fd_tables s"
  by (simp add: inode_close_def Let_def)

lemma tables_dir_close [simp]: "fd_tables (dir_close d s) = fd_tables s"
  by (simp add: dir_close_def)

lemma tables_release_block [tables]: "release_block lba s = Some s' \<Longrightarrow> fd_tables s' = fd_tables s"
  by (auto simp: release_block_def Let_def split: bind_splits if_splits dest!: tables)

lemma tables_release_blocks [tables]: "release_blocks ls s = Some s' \<Longrightarrow> fd_tables s' = fd_tables s"
  by (induction ls arbitrary: s) (auto split: bind_splits if_splits dest!: tables)

lemma tables_inode_release [tables]: "inode_release n s = Some s' \<Longrightarrow> fd_tables s' = fd_tables s"
  by (auto simp: inode_release_def Let_def split_beta split: bind_splits if_splits dest!: tables)

section \<open>Directories\<close>

lemma tables_dir_open [tables]: "dir_open n s = Some (d, s') \<Longrightarrow> fd_tables s' = fd_tables s"
  by (auto simp: dir_open_def Let_def split_beta split: bind_splits if_splits dest!: tables)

lemma tables_search_dir_entry [tables]: "search_dir_entry d name s = Some (r, s') \<Longrightarrow> fd_tables s' = fd_tables s"
  by (auto simp: search_dir_entry_def Let_def split_beta split: bind_splits if_splits)

lemma tables_sync_alloc [tables]: "sync_alloc a bs fl k s = Some (r, s') \<Longrightarrow> fd_tables s' = fd_tables s"
  by (auto simp: sync_alloc_def Let_def split_beta simp del: ide_write.simps split: bind_splits if_splits dest!: tables)

lemma tables_sync_loop [tables]:
  assumes "sync_loop a de bs fl k s = Some (r, s')"
  shows "fd_tables s' = fd_tables s"
proof -
  have "fd_tables (snd (r, s')) = fd_tables s"
  proof (rule sync_loop.raw_induct [where P = "\<lambda>a de bs fl k s y. fd_tables (snd y) = fd_tables s", OF _ assms], goal_cases)
    case (1 loop a de bs fl k s y)
    from 1(2) show ?case
      by (auto split: bind_splits if_splits option.splits simp del: ide_write.simps dest!: tables dest: 1(1))
  qed
  then show ?thesis by simp
qed

lemma tables_sync_dir_entry [tables]: "sync_dir_entry d de s = Some (r, s') \<Longrightarrow> fd_tables s' = fd_tables s"
  by (auto simp: sync_dir_entry_def Let_def split: bind_splits if_splits dest!: tables)

lemma tables_drop_block [tables]: "drop_block a bs k s = Some s' \<Longrightarrow> fd_tables s' = fd_tables s"
  by (auto simp: drop_block_def Let_def simp del: ide_write.simps split: bind_splits if_splits dest!: tables)

lemma tables_delete_loop [tables]: "delete_loop a n room bs k s = Some (r, s') \<Longrightarrow> fd_tables s' = fd_tables s"
proof (induction "FLATTEN_PTRS - k" arbitrary: k rule: less_induct)
  case less
  have IH: "delete_loop a n room bs (k + 1) s = Some (r, s') \<Longrightarrow> \<not> FLATTEN_PTRS \<le> k \<Longrightarrow> fd_tables s' = fd_tables s"
    by (rule less(1)) simp_all
  from less(2) show ?case
    by (subst (asm) delete_loop.simps)
      (auto simp: Let_def simp del: ide_write.simps add_Suc_right split: bind_splits if_splits option.splits dest!: IH [simplified] tables)
qed

lemma tables_delete_dir_entry [tables]: "delete_dir_entry d n room s = Some (r, s') \<Longrightarrow> fd_tables s' = fd_tables s"
  by (auto simp: delete_dir_entry_def Let_def split: bind_splits dest!: tables)

lemma tables_read_loop [tables]: "read_loop d bs c k pos s = Some (r, s') \<Longrightarrow> fd_tables s' = fd_tables s"
proof (induction d bs c k pos s rule: read_loop.induct)
  case (1 d bs c k pos s)
  from 1(3) show ?case
    by (subst (asm) read_loop.simps)
      (auto simp: Let_def split: bind_splits if_splits sum.splits dest: 1(1,2))
qed

lemma tables_dir_read [tables]: "dir_read d s = Some (r, s') \<Longrightarrow> fd_tables s' = fd_tables s"
  by (auto simp: dir_read_def Let_def split: bind_splits dest!: tables)

lemma tables_dir_remove [tables]: "dir_remove p c s = Some (r, s') \<Longrightarrow> fd_tables s' = fd_tables s"
  by (auto simp: dir_remove_def Let_def split_beta split: bind_splits if_splits dest!: tables)

section \<open>Paths and the working directory\<close>

lemma tables_search_loop [tables]: "search_loop name p e n rec s = Some (i, rec', s') \<Longrightarrow> fd_tables s' = fd_tables s"
proof (induction "path_size p + (if name = [] then 0 else 1 :: nat)" arbitrary: name p e n rec s rule: less_induct)
  case less
  have IH: "fd_tables s' = fd_tables s0"
    if "search_loop (fst (parse_next p)) (snd (parse_next p)) e0 n0 rec0 s0 = Some (i, rec', s')" "name \<noteq> []" for e0 n0 rec0 s0
    by (rule less(1) [OF parse_next_shrinks [OF surjective_pairing that(2)] that(1)])
  from less(2) show ?case
    by (subst (asm) search_loop.simps)
      (auto simp: Let_def split_beta split: bind_splits if_splits option.splits dest!: IH tables)
qed

lemma tables_search_file [tables]: "search_file path s = Some (i, rec, s') \<Longrightarrow> fd_tables s' = fd_tables s"
  by (auto simp: search_file_def split_beta split: bind_splits if_splits dest!: tables)

lemma tables_get_parent [tables]: "get_parent_dir_inode_nr n s = Some (r, s') \<Longrightarrow> fd_tables s' = fd_tables s"
  by (auto simp: get_parent_dir_inode_nr_def Let_def split: bind_splits if_splits dest!: tables)

lemma tables_get_child [tables]: "get_child_dir_name p c path s = Some (r, s') \<Longrightarrow> fd_tables s' = fd_tables s"
  by (auto simp: get_child_dir_name_def Let_def split: bind_splits if_splits dest!: tables)

lemma tables_cwd_loop [tables]:
  assumes "cwd_loop c path s = Some (r, s')"
  shows "fd_tables s' = fd_tables s"
proof -
  have "fd_tables (snd (r, s')) = fd_tables s"
  proof (rule cwd_loop.raw_induct [where P = "\<lambda>c path s y. fd_tables (snd y) = fd_tables s", OF _ assms], goal_cases)
    case (1 loop c path s y)
    from 1(2) show ?case by (auto split: bind_splits if_splits option.splits dest!: tables 1(1))
  qed
  then show ?thesis by simp
qed

section \<open>System calls on the tree\<close>

lemma tables_sys_unlink [tables]: "sys_unlink path s = Some (r, s') \<Longrightarrow> fd_tables s' = fd_tables s"
  by (auto simp: sys_unlink_def Let_def split_beta split: bind_splits if_splits dest!: tables)

lemma tables_sys_mkdir [tables]: "sys_mkdir path s = Some (r, s') \<Longrightarrow> fd_tables s' = fd_tables s"
  by (auto simp: sys_mkdir_def Let_def split_beta simp del: ide_write.simps split: bind_splits if_splits dest!: tables)

lemma tables_sys_rmdir [tables]: "sys_rmdir path s = Some (r, s') \<Longrightarrow> fd_tables s' = fd_tables s"
  by (auto simp: sys_rmdir_def split: bind_splits if_splits dest!: tables)

lemma tables_sys_opendir [tables]: "sys_opendir path s = Some (r, s') \<Longrightarrow> fd_tables s' = fd_tables s"
  by (auto simp: sys_opendir_def split: bind_splits if_splits dest!: tables)

lemma tables_sys_closedir [tables]: "sys_closedir d s = (r, s') \<Longrightarrow> fd_tables s' = fd_tables s"
  by (auto simp: sys_closedir_def split: if_splits)

lemma tables_sys_readdir [tables]: "sys_readdir d s = Some (r, s') \<Longrightarrow> fd_tables s' = fd_tables s"
  by (auto simp: sys_readdir_def split: if_splits dest!: tables)

lemma tables_sys_rewinddir [simp]: "fd_tables (sys_rewinddir d s) = fd_tables s"
  by (simp add: sys_rewinddir_def)

lemma tables_sys_getcwd [tables]: "sys_getcwd room s = Some (r, s') \<Longrightarrow> fd_tables s' = fd_tables s"
  by (auto simp: sys_getcwd_def Let_def split_beta split: bind_splits if_splits option.splits dest!: tables)

lemma tables_sys_chdir [tables]: "sys_chdir path s = Some (r, s') \<Longrightarrow> fd_tables s' = fd_tables s"
  by (auto simp: sys_chdir_def Let_def split_beta split: bind_splits if_splits dest!: tables)

lemma tables_sys_stat [tables]: "sys_stat path s = Some (r, s') \<Longrightarrow> fd_tables s' = fd_tables s"
  by (auto simp: sys_stat_def Let_def split: bind_splits if_splits dest!: tables)

end
