(* ===== verification/Fs_types.thy ===== *)
theory Fs_types
  imports Fs_frame
begin

unbundle bit_operations_syntax

text \<open>
  The type of the descriptor tables: a task has 8 descriptors, each free or the number of one of the 32
  entries of \<^verbatim>\<open>file_table\<close>. Every file system call keeps that type, so a descriptor in use always leads
  to an entry and the assertions of \<^verbatim>\<open>fd_local2global\<close> hold for it.
\<close>

definition fd_ok :: "'a fstate_scheme \<Rightarrow> bool" where
  "fd_ok s = (length (fds s) = MAX_FILES_OPEN_PER_PROC \<and> length (file_table s) = MAX_FILE_OPEN
     \<and> (\<forall>g\<in>set (fds s). g = - 1 \<or> unat g < MAX_FILE_OPEN))"

lemma fd_ok_tables: "fd_tables s' = fd_tables s \<Longrightarrow> fd_ok s' = fd_ok s"
  by (simp add: fd_ok_def fd_tables_def)

section \<open>Changes of the tables\<close>

definition fd_only :: "'a fstate_scheme \<Rightarrow> u32 list \<times> nat" where
  "fd_only s = (fds s, length (file_table s))"

lemma fd_ok_only: "fd_only s' = fd_only s \<Longrightarrow> fd_ok s' = fd_ok s"
  by (simp add: fd_ok_def fd_only_def)

lemma only_tables: "fd_tables s' = fd_tables s \<Longrightarrow> fd_only s' = fd_only s"
  by (simp add: fd_only_def fd_tables_def)

named_theorems fd_keep \<open>operations that keep the descriptors and the size of the table of open files\<close>

lemma fd_only_upd [simp]:
  "fd_only (set_slot g f s) = fd_only s" "fd_only (upd_slot g h s) = fd_only s" "fd_only (upd_inode a k s) = fd_only s"
  "fd_only (upd_part p s) = fd_only s" "fd_only (grow_inode a n s) = fd_only s" "fd_only (set_sector a m lba s) = fd_only s"
  "fd_only (inode_close a s) = fd_only s" "fd_only (dir_close a s) = fd_only s" "fd_only (snd (kmalloc s)) = fd_only s"
  "fd_only (s\<lparr>disk := d\<rparr>) = fd_only s"
  by (simp add: fd_only_def set_slot_def, simp add: fd_only_def upd_slot_def set_slot_def) (rule only_tables, simp)+

lemma fd_only_sys [simp]:
  fixes s :: "'a sysstate_scheme"
  shows "fd_only (s\<lparr>pipes := q\<rparr>) = fd_only s" "fd_only (s\<lparr>kbd_queue := k\<rparr>) = fd_only s" "fd_only (s\<lparr>console_out := c\<rparr>) = fd_only s"
  by (simp_all add: fd_only_def)

lemmas fd_keep_low [fd_keep] = tables [THEN only_tables]

lemma free_slot_range: "free_slot_loop n fd ft \<le> fd + n"
proof (induction n arbitrary: fd)
  case (Suc n)
  then show ?case using Suc [of "fd + 1"] by simp
qed simp

lemma get_free_slot_range: "get_free_slot_in_global s = - 1 \<or> unat (get_free_slot_in_global s) < MAX_FILE_OPEN"
proof -
  let ?fd = "free_slot_loop (MAX_FILE_OPEN - 3) 3 (file_table s)"
  have "?fd \<le> 32" using free_slot_range [of "MAX_FILE_OPEN - 3" 3 "file_table s"] by (simp add: MAX_FILE_OPEN_def)
  then show ?thesis by (auto simp: get_free_slot_in_global_def Let_def MAX_FILE_OPEN_def unat_of_nat_u32)
qed

lemma install_ok:
  assumes "fd_ok s" and "unat g < MAX_FILE_OPEN" and "pcb_fd_install g s = (fd, s')"
  shows "fd_ok s'"
proof -
  have "fds s' = fds s \<or> (\<exists>k. fds s' = (fds s)[k := g])" "file_table s' = file_table s"
    using assms(3) by (auto simp: pcb_fd_install_def Let_def split: if_splits)
  then show ?thesis using assms(1,2) by (auto simp: fd_ok_def dest!: set_update_subset_insert [THEN subsetD])
qed

lemma fd_keep_alloc_blocks [fd_keep]: "alloc_blocks n a k bs s = Some (r, s') \<Longrightarrow> fd_only s' = fd_only s"
  by (induction n arbitrary: k bs s) (auto split: bind_splits if_splits dest!: fd_keep)

lemma fd_keep_collect_blocks [fd_keep]: "collect_blocks a m n s = Some (r, s') \<Longrightarrow> fd_only s' = fd_only s"
  by (auto simp: collect_blocks_def Let_def simp del: ide_write.simps split: bind_splits if_splits option.splits dest!: fd_keep)

lemma fd_keep_first_block [fd_keep]: "first_block_alloc a s = Some (r, s') \<Longrightarrow> fd_only s' = fd_only s"
  by (auto simp: first_block_alloc_def Let_def split: bind_splits if_splits dest!: fd_keep)

lemma fd_keep_write_loop [fd_keep]: "write_loop fd a bs fi src s = Some s' \<Longrightarrow> fd_only s' = fd_only s"
proof (induction "length src" arbitrary: src fi s rule: less_induct)
  case less
  have IH: "fd_only s' = fd_only s0" if "write_loop fd a bs False (drop (min (length src) (512 - m mod 512)) src) s0 = Some s'" "src \<noteq> []" for s0 m
    by (rule less(1) [OF _ that(1)]) (use that(2) in simp)
  from less(2) show ?case
    by (subst (asm) write_loop.simps) (auto simp: Let_def simp del: ide_write.simps split: bind_splits if_splits dest!: IH fd_keep)
qed

lemma fd_keep_file_write [fd_keep]: "file_write fd buf s = Some (r, s') \<Longrightarrow> fd_only s' = fd_only s"
  by (auto simp: file_write_def Let_def split_beta split: bind_splits if_splits option.splits dest!: fd_keep)

lemma fd_keep_read_file_loop [fd_keep]: "read_file_loop fd bs n s = Some (r, s') \<Longrightarrow> fd_only s' = fd_only s"
proof (induction n arbitrary: s r rule: less_induct)
  case (less n)
  have IH: "fd_only s' = fd_only s0" if "read_file_loop fd bs (n - min n (512 - m mod 512)) s0 = Some (r0, s')" "0 < n" for s0 m r0
    by (rule less(1) [OF _ that(1)]) (use that(2) in simp)
  from less(2) show ?case
    by (subst (asm) read_file_loop.simps) (auto simp: Let_def split: bind_splits if_splits dest!: IH)
qed

lemma fd_keep_file_read [fd_keep]: "file_read fd n s = Some (r, bs, s') \<Longrightarrow> fd_only s' = fd_only s"
  by (auto simp: file_read_def Let_def split_beta split: bind_splits if_splits dest!: fd_keep)

section \<open>Calls\<close>

datatype fs_call = Open "u8 list" u8 | Close u32 | Read u32 u32 | Write u32 "u8 list" | Lseek u32 u32 u8
  | Pipe | Dup2 u32 u32 | Unlink "u8 list" | Mkdir "u8 list" | Rmdir "u8 list"
  | Opendir "u8 list" | Closedir addr | Readdir addr | Rewinddir addr | Chdir "u8 list" | Getcwd u32 | Stat "u8 list"

fun run_call :: "fs_call \<Rightarrow> 'a sysstate_scheme \<Rightarrow> 'a sysstate_scheme option" where
  "run_call (Open path flags) s = map_option snd (sys_open path flags s)"
| "run_call (Close fd) s = map_option snd (sys_close fd s)"
| "run_call (Read fd n) s = map_option (snd \<circ> snd) (sys_read fd n s)"
| "run_call (Write fd bs) s = map_option snd (sys_write fd bs s)"
| "run_call (Lseek fd off wh) s = map_option snd (sys_lseek fd off wh s)"
| "run_call Pipe s = map_option (snd \<circ> snd \<circ> snd) (sys_pipe s)"
| "run_call (Dup2 n old) s = sys_dup2 n old s"
| "run_call (Unlink path) s = map_option snd (sys_unlink path s)"
| "run_call (Mkdir path) s = map_option snd (sys_mkdir path s)"
| "run_call (Rmdir path) s = map_option snd (sys_rmdir path s)"
| "run_call (Opendir path) s = map_option snd (sys_opendir path s)"
| "run_call (Closedir d) s = Some (snd (sys_closedir d s))"
| "run_call (Readdir d) s = map_option snd (sys_readdir d s)"
| "run_call (Rewinddir d) s = Some (sys_rewinddir d s)"
| "run_call (Chdir path) s = map_option snd (sys_chdir path s)"
| "run_call (Getcwd room) s = map_option snd (sys_getcwd room s)"
| "run_call (Stat path) s = map_option snd (sys_stat path s)"

primrec run_calls :: "fs_call list \<Rightarrow> 'a sysstate_scheme \<Rightarrow> 'a sysstate_scheme option" where
  "run_calls [] s = Some s"
| "run_calls (c # cs) s = do { s \<leftarrow> run_call c s; run_calls cs s }"

lemma file_create_ok: "file_create d name flag s = Some (r, s') \<Longrightarrow> fd_ok s \<Longrightarrow> fd_ok s'"
proof -
  assume run: "file_create d name flag s = Some (r, s')" and ok: "fd_ok s"
  have slot: "unat (get_free_slot_in_global x) < MAX_FILE_OPEN" if "get_free_slot_in_global x \<noteq> - 1" for x :: "'a fstate_scheme"
    using get_free_slot_range [of x] that by simp
  have "fd_only s' = fd_only s \<or> (\<exists>x g. fd_only x = fd_only s \<and> unat g < MAX_FILE_OPEN \<and> pcb_fd_install g x = (r, s'))"
    using run slot by (auto simp: file_create_def Let_def split_beta split: bind_splits if_splits dest!: fd_keep)
  then show ?thesis using ok install_ok fd_ok_only by metis
qed

lemma file_open_ok: "file_open n flag s = Some (r, s') \<Longrightarrow> fd_ok s \<Longrightarrow> fd_ok s'"
proof -
  assume run: "file_open n flag s = Some (r, s')" and ok: "fd_ok s"
  have "fd_only s' = fd_only s \<or> (\<exists>x g. fd_only x = fd_only s \<and> unat g < MAX_FILE_OPEN \<and> pcb_fd_install g x = (r, s'))"
    using run get_free_slot_range [of s] by (auto simp: file_open_def Let_def split_beta split: bind_splits if_splits dest!: fd_keep)
  then show ?thesis using ok install_ok fd_ok_only by metis
qed

lemma sys_open_ok:
  fixes s s' :: "'a sysstate_scheme"
  assumes run: "sys_open path flags s = Some (r, s')" and ok: "fd_ok s"
  shows "fd_ok s'"
proof -
  have "fd_only s' = fd_only s \<or> (\<exists>(x :: 'a sysstate_scheme) (y :: 'a sysstate_scheme) d name. fd_only x = fd_only s \<and> file_create d name flags x = Some (r, y) \<and> fd_only s' = fd_only y)
      \<or> (\<exists>(x :: 'a sysstate_scheme) n. fd_only x = fd_only s \<and> file_open n flags x = Some (r, s'))"
    using run by (auto simp: sys_open_def Let_def split_beta split: bind_splits if_splits dest!: fd_keep) blast
  then show ?thesis using ok file_create_ok file_open_ok fd_ok_only by metis
qed

lemma fds_update_ok: "fd_ok s \<Longrightarrow> fds s' = (fds s)[k := g] \<Longrightarrow> length (file_table s') = length (file_table s)
    \<Longrightarrow> g = - 1 \<or> unat g < MAX_FILE_OPEN \<Longrightarrow> fd_ok s'"
  by (auto simp: fd_ok_def dest!: set_update_subset_insert [THEN subsetD])

lemma sys_close_only:
  assumes "sys_close fd s = Some (r, s')" and "2 < sint fd"
  shows "fds s' = (fds s)[unat fd := - 1]" "length (file_table s') = length (file_table s)"
proof -
  note keep = fd_only_upd [unfolded fd_only_def prod.inject, THEN conjunct1] fd_only_upd [unfolded fd_only_def prod.inject, THEN conjunct2]
  show "fds s' = (fds s)[unat fd := - 1]" "length (file_table s') = length (file_table s)"
    using assms by (auto simp: sys_close_def file_close_def Let_def split_beta keep split: bind_splits if_splits)
qed

lemma sys_close_ok:
  assumes "sys_close fd s = Some (r, s')" and "fd_ok s"
  shows "fd_ok s'"
proof (cases "sint fd \<le> 2")
  case False
  then show ?thesis using sys_close_only [OF assms(1)] assms(2) by (intro fds_update_ok [of s s' "unat fd" "- 1"]) simp_all
qed (use assms in \<open>simp add: sys_close_def\<close>)

lemma sys_pipe_installs:
  assumes "sys_pipe s = Some (r, a, b, s')"
  shows "\<exists>x g. fd_only x = fd_only s \<and> unat g < MAX_FILE_OPEN \<and> fst (pcb_fd_install g x) = a
    \<and> pcb_fd_install g (snd (pcb_fd_install g x)) = (b, s')"
  using assms get_free_slot_range [of s]
  by (intro exI [of _ "upd_slot (get_free_slot_in_global s) (\<lambda>f. f\<lparr>fd_flag := PIPE_FLAG, fd_pos := 2\<rparr>)
        (let t = upd_slot (get_free_slot_in_global s) (fd_inode_update (\<lambda>_. fst (kmalloc s))) (snd (kmalloc s))
         in t\<lparr>pipes := (pipes t)(fst (kmalloc s) := ioqueue_init (pipes t (fst (kmalloc s))))\<rparr>)"] exI [of _ "get_free_slot_in_global s"])
    (auto simp: sys_pipe_def Let_def split_beta split: if_splits)

lemma sys_pipe_ok: "sys_pipe s = Some (r, a, b, s') \<Longrightarrow> fd_ok s \<Longrightarrow> fd_ok s'"
  using sys_pipe_installs [of s] install_ok fd_ok_only by (metis prod.collapse)

lemma sys_dup2_ok:
  assumes "sys_dup2 n old s = Some s'" and "fd_ok s"
  shows "fd_ok s'"
proof -
  let ?g = "if n < 3 then n else fds s ! unat n"
  have s': "s' = s\<lparr>fds := (fds s)[unat old := ?g]\<rparr>" "3 \<le> n \<Longrightarrow> unat n < length (fds s)"
    using assms(1) by (auto simp: sys_dup2_def split: if_splits)
  have "?g = - 1 \<or> unat ?g < MAX_FILE_OPEN"
  proof (cases "n < 3")
    case True
    then show ?thesis by (simp add: MAX_FILE_OPEN_def word_less_nat_alt)
  next
    case False
    then show ?thesis using s'(2) assms(2) by (auto simp: fd_ok_def)
  qed
  then show ?thesis using assms(2) s'(1) by (intro fds_update_ok [of s s' "unat old" ?g]) simp_all
qed

lemma fd_keep_calls [fd_keep]:
  fixes s :: "'a sysstate_scheme"
  shows "sys_write fd bs s = Some (r, s') \<Longrightarrow> fd_only s' = fd_only s"
    and "sys_read fd n s = Some (r, xs, s') \<Longrightarrow> fd_only s' = fd_only s"
    and "sys_lseek fd off wh s = Some (r, s') \<Longrightarrow> fd_only s' = fd_only s"
  by (auto simp: sys_write_def sys_read_def sys_lseek_def pipe_write_def pipe_read_def Let_def split: bind_splits if_splits dest!: fd_keep)

lemma run_call_ok:
  assumes "run_call c s = Some s'" and "fd_ok s"
  shows "fd_ok s'"
proof (cases c)
  case (Open path flags)
  then show ?thesis using assms sys_open_ok by auto
next
  case (Close fd)
  then show ?thesis using assms sys_close_ok by auto
next
  case Pipe
  then show ?thesis using assms sys_pipe_ok by auto
next
  case (Dup2 n old)
  then show ?thesis using assms sys_dup2_ok by auto
next
  case (Closedir d)
  then show ?thesis using assms fd_ok_tables [OF tables_sys_closedir [OF surjective_pairing]] by auto
next
  case (Rewinddir d)
  then show ?thesis using assms fd_ok_tables [OF tables_sys_rewinddir] by auto
qed (use assms fd_ok_only in \<open>auto dest!: fd_keep\<close>)

lemma run_calls_ok: "run_calls cs s = Some s' \<Longrightarrow> fd_ok s \<Longrightarrow> fd_ok s'"
  by (induction cs arbitrary: s) (auto split: bind_splits dest: run_call_ok)

lemma fd_ok_lookup:
  assumes "fd_ok s" and "k < MAX_FILES_OPEN_PER_PROC" and "fds s ! k \<noteq> - 1"
  shows "fd_local2global (of_nat k) s = Some (fds s ! k)" "unat (fds s ! k) < length (file_table s)"
proof -
  have k: "unat (of_nat k :: u32) = k" using assms(2) by (intro unat_of_nat_u32) (simp add: MAX_FILES_OPEN_PER_PROC_def)
  have u: "unat (fds s ! k) < MAX_FILE_OPEN" using assms by (auto simp: fd_ok_def)
  then show "unat (fds s ! k) < length (file_table s)" using assms(1) by (simp add: fd_ok_def)
  have "sint (fds s ! k) = int (unat (fds s ! k))"
    using sint_of_nat_small [of "unat (fds s ! k)"] u by (simp add: MAX_FILE_OPEN_def)
  then show "fd_local2global (of_nat k) s = Some (fds s ! k)"
    using u assms(1,2) k by (simp add: fd_local2global_def fd_ok_def Let_def uint_nat del: of_nat_unat)
qed

text \<open>
  C13: the descriptor tables keep their type. Whatever calls a task makes, its descriptors are free or name one of the
  entries of the table of open files, and \<^verbatim>\<open>fd_local2global\<close> finds that entry for every descriptor that
  is in use.
\<close>

theorem descriptors_typed:
  assumes "fd_ok s" and "run_calls cs s = Some s'"
  shows "fd_ok s' \<and> (\<forall>k<MAX_FILES_OPEN_PER_PROC. fds s' ! k \<noteq> - 1 \<longrightarrow>
    fd_local2global (of_nat k) s' = Some (fds s' ! k) \<and> unat (fds s' ! k) < length (file_table s'))"
  using run_calls_ok [OF assms(2,1)] fd_ok_lookup by blast

definition empty_queue :: ioqueue where
  "empty_queue = \<lparr>producer = NULL, consumer = NULL, ioq_buf = replicate 64 0, ioq_head = 0, ioq_tail = 0\<rparr>"

definition demo_calls :: sysstate where
  "demo_calls = fstate.extend (demo_fs\<lparr>file_table := replicate 32 \<lparr>fd_pos = 0, fd_flag = 0, fd_inode = NULL\<rparr>,
     fds := [0, 1, 2, - 1, - 1, - 1, - 1, - 1], heap_next := [0x5000]\<rparr>) (sysstate.fields (\<lambda>_. empty_queue) empty_queue [] 0 0)"

lemmas demo_calls_defs = demo_calls_def empty_queue_def demo_fs_def fstate.defs sysstate.defs

theorem descriptors_typed_witness:
  "\<exists>s'. run_calls [Pipe, Dup2 4 1, Write 1 [7]] demo_calls = Some s' \<and> fd_ok s' \<and> fds s' = [0, 3, 2, 3, 3, - 1, - 1, - 1]
     \<and> fd_local2global 1 s' = Some 3"
proof -
  have "map_option fds (run_calls [Pipe, Dup2 4 1, Write 1 [7]] demo_calls) = Some [0, 3, 2, 3, 3, - 1, - 1, - 1]"
    by code_simp
  then obtain s' where s': "run_calls [Pipe, Dup2 4 1, Write 1 [7]] demo_calls = Some s'" "fds s' = [0, 3, 2, 3, 3, - 1, - 1, - 1]" by auto
  have "fd_ok demo_calls" by (simp add: fd_ok_def demo_calls_defs MAX_FILES_OPEN_PER_PROC_def MAX_FILE_OPEN_def)
  from descriptors_typed [OF this s'(1)] show ?thesis using s' by (auto simp: MAX_FILES_OPEN_PER_PROC_def dest: spec [of _ 1])
qed

end
