(* ===== verification/Shell_run.thy ===== *)
theory Shell_run
  imports Shell_props Fs_types
begin

text \<open>
  \<^verbatim>\<open>pipe_run\<close> and \<^verbatim>\<open>shell_run\<close>: the shell from line to line. A command that is not builtin makes the shell sleep
  in \<^verbatim>\<open>wait\<close>; what it does after the command is its continuation, so the loop is a sequence of rounds, each of
  which runs from one return of \<^verbatim>\<open>cmd_run\<close> to the next. The property: a pipeline of builtin commands gives
  back standard input and output and the two descriptors of the pipe.
\<close>

section \<open>The code\<close>

definition bar :: u8 where "bar = 0x7c"
definition CMD_LEN :: nat where "CMD_LEN = MAX_PATH_LEN"

text \<open>
  What is left to do when a command returns: read the next line, connect standard input after the first
  command of a pipeline, go on with the rest of the pipeline, or put the descriptors back after its
  last command.
\<close>

datatype shell_kont = Next_line | Pipe_first "u8 list" u32 u32 | Pipe_more "u8 list" u32 u32 | Pipe_done u32 u32

datatype shell_pc = At shell_kont | In_wait shell_kont | Gone run_end

definition pipe :: "'a pstate_scheme \<Rightarrow> ((u32 \<times> u32 \<times> u32) \<times> 'a pstate_scheme) option" where
  "pipe s = on_fs (\<lambda>f. do { (r, a, b, f) \<leftarrow> sys_pipe f; Some ((r, a, b), f) }) s"

definition dup2 :: "u32 \<Rightarrow> u32 \<Rightarrow> 'a pstate_scheme \<Rightarrow> 'a pstate_scheme option" where
  "dup2 new_fd old_fd s = do { (_, s) \<leftarrow> on_fs (\<lambda>f. do { f \<leftarrow> sys_dup2 new_fd old_fd f; Some ((), f) }) s; Some s }"

definition close :: "u32 \<Rightarrow> 'a pstate_scheme \<Rightarrow> (u32 \<times> 'a pstate_scheme) option" where
  "close fd s = on_fs (sys_close fd) s"

text \<open>\<^verbatim>\<open>cmd_run\<close> of the words of \<open>cmd\<close>, with what follows it; \<^verbatim>\<open>pipe_run\<close> does not look at the number of words.\<close>

definition run_words :: "addr \<Rightarrow> u32 \<Rightarrow> u8 list \<Rightarrow> shell_kont \<Rightarrow> 'a shell_scheme \<Rightarrow> (shell_pc \<times> 'a shell_scheme) option" where
  "run_words argv_addr junk cmd k s = do {
     let (n, ws) = cmd_parse cmd space;
     (e, _, s) \<leftarrow> cmd_run argv_addr junk (s\<lparr>argc := n, argv := ws\<rparr>);
     Some (case e of Returned \<Rightarrow> At k | Asleep \<Rightarrow> In_wait k | _ \<Rightarrow> Gone e, s)
   }"

definition before_bar :: "u8 list \<Rightarrow> u8 list" where "before_bar l = takeWhile (\<lambda>c. c \<noteq> bar) l"
definition after_bar :: "u8 list \<Rightarrow> u8 list" where "after_bar l = tl (dropWhile (\<lambda>c. c \<noteq> bar) l)"

text \<open>The commands after the first: all of them read from and, but for the last, write to the same pipe.\<close>

definition pipe_part :: "addr \<Rightarrow> u32 \<Rightarrow> u8 list \<Rightarrow> u32 \<Rightarrow> u32 \<Rightarrow> 'a shell_scheme \<Rightarrow> (shell_pc \<times> 'a shell_scheme) option" where
  "pipe_part argv_addr junk each_cmd fd0 fd1 s =
     (if bar \<in> set each_cmd then run_words argv_addr junk (before_bar each_cmd) (Pipe_more (after_bar each_cmd) fd0 fd1) s
      else do {
        s \<leftarrow> dup2 1 1 s;
        run_words argv_addr junk each_cmd (Pipe_done fd0 fd1) s
      })"

definition pipe_run :: "addr \<Rightarrow> u32 \<Rightarrow> 'a shell_scheme \<Rightarrow> (shell_pc \<times> 'a shell_scheme) option" where
  "pipe_run argv_addr junk s = do {
     ((_, fd0, fd1), s) \<leftarrow> pipe s;
     s \<leftarrow> dup2 fd1 1 s;
     run_words argv_addr junk (before_bar (cmd_line s)) (Pipe_first (after_bar (cmd_line s)) fd0 fd1) s
   }"

definition shell_line :: "addr \<Rightarrow> u32 \<Rightarrow> 'a shell_scheme \<Rightarrow> (shell_pc \<times> 'a shell_scheme) option" where
  "shell_line argv_addr junk s = do {
     s \<leftarrow> print_prompt s;
     s \<leftarrow> readline CMD_LEN s;
     if cmd_line s = [] then Some (At Next_line, s)
     else if bar \<in> set (cmd_line s) then pipe_run argv_addr junk s
     else if fst (cmd_parse (cmd_line s) space) = - 1 then do {
       s \<leftarrow> println (ascii ''num of arguments exceed 16'') s;
       Some (At Next_line, s)
     }
     else run_words argv_addr junk (cmd_line s) Next_line s
   }"

text \<open>One round; a shell that sleeps goes on in \<^verbatim>\<open>wait\<close> when it is woken.\<close>

fun shell_round :: "addr \<Rightarrow> u32 \<Rightarrow> shell_pc \<Rightarrow> 'a shell_scheme \<Rightarrow> (shell_pc \<times> 'a shell_scheme) option" where
  "shell_round argv_addr junk (At Next_line) s = shell_line argv_addr junk s"
| "shell_round argv_addr junk (At (Pipe_first rest fd0 fd1)) s = do {
     s \<leftarrow> dup2 fd0 0 s;
     pipe_part argv_addr junk rest fd0 fd1 s
   }"
| "shell_round argv_addr junk (At (Pipe_more rest fd0 fd1)) s = pipe_part argv_addr junk rest fd0 fd1 s"
| "shell_round argv_addr junk (At (Pipe_done fd0 fd1)) s = do {
     s \<leftarrow> dup2 0 0 s;
     (_, s) \<leftarrow> close fd0 s;
     (_, s) \<leftarrow> close fd1 s;
     Some (At Next_line, s)
   }"
| "shell_round argv_addr junk (In_wait k) s = do {
     (e, s) \<leftarrow> wait_and_report junk s;
     Some (case e of Returned \<Rightarrow> At k | _ \<Rightarrow> In_wait k, s)
   }"
| "shell_round argv_addr junk (Gone e) s = None"

definition shell_run :: "'a shell_scheme \<Rightarrow> shell_pc \<times> 'a shell_scheme" where
  "shell_run s = (At Next_line, s\<lparr>cwd_cache := [slash]\<rparr>)"

primrec shell_rounds :: "nat \<Rightarrow> addr \<Rightarrow> u32 \<Rightarrow> shell_pc \<Rightarrow> 'a shell_scheme \<Rightarrow> (shell_pc \<times> 'a shell_scheme) option" where
  "shell_rounds 0 argv_addr junk pc s = Some (pc, s)"
| "shell_rounds (Suc n) argv_addr junk pc s = do {
     (pc, s) \<leftarrow> shell_round argv_addr junk pc s;
     shell_rounds n argv_addr junk pc s
   }"

section \<open>The descriptors of the running task\<close>

text \<open>The table of the running task, and how many files the kernel can have open.\<close>

definition my_fds :: "'a pstate_scheme \<Rightarrow> u32 list \<times> nat" where
  "my_fds s = fd_only (fs_view s)"

named_theorems my_keep \<open>user-side operations that keep the descriptors of the running task\<close>

lemma fs_view_back [simp]: "fs_view (fs_back f s) = f"
  by (simp add: fs_view_def fs_back_def upd_task_def running_thread_def comp_def)

lemma my_fds_shell [simp]:
  fixes s :: "'a shell_scheme"
  shows "my_fds (s\<lparr>final_path := p\<rparr>) = my_fds s" "my_fds (s\<lparr>cwd_cache := p\<rparr>) = my_fds s" "my_fds (s\<lparr>argv := a\<rparr>) = my_fds s" "my_fds (s\<lparr>argc := n\<rparr>) = my_fds s"
    "my_fds (s\<lparr>argc := n, argv := a\<rparr>) = my_fds s"
  by (simp_all add: my_fds_def fs_view_def running_thread_def)

lemma on_fs_keeps:
  assumes "on_fs call s = Some (r, s')" and "\<And>f r f'. call f = Some (r, f') \<Longrightarrow> fd_only f' = fd_only f"
  shows "my_fds s' = my_fds s"
  using assms(1) by (auto simp: on_fs_def my_fds_def split: bind_splits dest!: assms(2))

lemma my_keep_fs [my_keep]:
  "on_fs (sys_write fd bs) s = Some (r, s') \<Longrightarrow> my_fds s' = my_fds s"
  "on_fs (sys_stat path) s = Some (st, s') \<Longrightarrow> my_fds s' = my_fds s"
  "on_fs (sys_getcwd room) s = Some (cwd, s') \<Longrightarrow> my_fds s' = my_fds s"
  "on_fs (sys_chdir path) s = Some (r, s') \<Longrightarrow> my_fds s' = my_fds s"
  "on_fs (sys_mkdir path) s = Some (r, s') \<Longrightarrow> my_fds s' = my_fds s"
  "on_fs (sys_rmdir path) s = Some (r, s') \<Longrightarrow> my_fds s' = my_fds s"
  "on_fs (sys_unlink path) s = Some (r, s') \<Longrightarrow> my_fds s' = my_fds s"
  "on_fs (sys_opendir path) s = Some (d, s') \<Longrightarrow> my_fds s' = my_fds s"
  "on_fs (sys_readdir d) s = Some (e, s') \<Longrightarrow> my_fds s' = my_fds s"
  by (erule on_fs_keeps, erule fd_keep)+

lemma my_keep_dirs [my_keep]:
  "on_fs (\<lambda>f. Some (sys_closedir d f)) s = Some (r, s') \<Longrightarrow> my_fds s' = my_fds s"
  "on_fs (\<lambda>f. Some ((), sys_rewinddir d f)) s = Some (u, s') \<Longrightarrow> my_fds s' = my_fds s"
  by (erule on_fs_keeps, auto intro: only_tables tables_sys_closedir)+

lemma my_fds_putchar [simp]: "my_fds (putchar c s) = my_fds s" "my_fds (clear s) = my_fds s"
  by (simp_all add: my_fds_def fs_view_def fd_only_def putchar_def clear_def running_thread_def)

lemma my_keep_print [my_keep]:
  "write_out txt s = Some s' \<Longrightarrow> my_fds s' = my_fds s" "print txt s = Some s' \<Longrightarrow> my_fds s' = my_fds s"
  "println txt s = Some s' \<Longrightarrow> my_fds s' = my_fds s" "pad_print n a s = Some s' \<Longrightarrow> my_fds s' = my_fds s"
  by (auto simp: write_out_def print_def println_def pad_print_def Let_def split: bind_splits if_splits dest!: my_keep)

lemma my_keep_getcwd [my_keep]: "getcwd s = Some (cwd, s') \<Longrightarrow> my_fds s' = my_fds s"
  by (auto simp: getcwd_def dest!: my_keep)

lemma my_keep_abs_path [my_keep]: "make_clear_abs_path path s = Some s' \<Longrightarrow> my_fds s' = my_fds s"
  by (auto simp: make_clear_abs_path_def Let_def split: bind_splits if_splits option.splits dest!: my_keep)

section \<open>The builtin commands keep the descriptors\<close>

lemma my_keep_ls_args [my_keep]: "ls_args n i l p s = Some (r, s') \<Longrightarrow> my_fds s' = my_fds s"
  by (induction n arbitrary: i l p s) (auto split: bind_splits if_splits option.splits dest!: my_keep)

lemma my_keep_ls_long [my_keep]:
  assumes "ls_long d path s = Some (r, s')"
  shows "my_fds s' = my_fds s"
proof -
  have "my_fds (snd (r, s')) = my_fds s"
  proof (rule ls_long.raw_induct [where P = "\<lambda>d path s y. my_fds (snd y) = my_fds s", OF _ assms], goal_cases)
    case (1 loop d path s y)
    from 1(2) show ?case by (auto split: bind_splits if_splits option.splits dest!: my_keep 1(1))
  qed
  then show ?thesis by simp
qed

lemma my_keep_ls_short [my_keep]:
  assumes "ls_short d s = Some s'"
  shows "my_fds s' = my_fds s"
proof (rule ls_short.raw_induct [where P = "\<lambda>d s y. my_fds y = my_fds s", OF _ assms], goal_cases)
  case (1 loop d s y)
  from 1(2) show ?case by (auto split: bind_splits if_splits option.splits dest!: my_keep 1(1))
qed

lemma my_keep_ls_directory [my_keep]: "ls_directory l sz p s = Some s' \<Longrightarrow> my_fds s' = my_fds s"
  by (auto simp: ls_directory_def Let_def split: bind_splits if_splits dest!: my_keep)

lemma my_keep_ls [my_keep]: "builtin_ls s = Some s' \<Longrightarrow> my_fds s' = my_fds s"
  by (auto simp: builtin_ls_def Let_def split: bind_splits if_splits option.splits dest!: my_keep)

lemma traverse_keeps:
  assumes "traverse_from l func x e s = Some (r, s')" and "\<And>e s b s'. func e x s = Some (b, s') \<Longrightarrow> v s' = v s"
  shows "v s' = v s"
proof -
  let ?P = "\<lambda>l func x (e :: addr) s (y :: addr \<times> 'a lheap_scheme).
    (\<forall>e s b s'. func e x s = Some (b, s') \<longrightarrow> v s' = v s) \<longrightarrow> v (snd y) = v s"
  have "?P l func x e s (r, s')"
    by (rule traverse_from.raw_induct [where P = ?P, OF _ assms(1)]) (auto split: bind_splits if_splits)
  then show ?thesis using assms(2) by auto
qed

lemma my_keep_info [my_keep]: "elem2thread_info e a s = Some (r, s') \<Longrightarrow> my_fds s' = my_fds s"
  by (auto simp: elem2thread_info_def Let_def split: bind_splits if_splits dest!: my_keep)

lemma my_keep_ps [my_keep]: "sys_ps s = Some s' \<Longrightarrow> my_fds s' = my_fds s"
  by (auto simp: sys_ps_def list_traversal_def split: bind_splits if_splits dest!: my_keep traverse_keeps [where v = my_fds])

lemma my_keep_cd [my_keep]: "builtin_cd s = Some (r, s') \<Longrightarrow> my_fds s' = my_fds s"
  by (auto simp: builtin_cd_def split: bind_splits if_splits dest!: my_keep)

lemma my_keep_pwd [my_keep]: "builtin_pwd s = Some s' \<Longrightarrow> my_fds s' = my_fds s"
  by (auto simp: builtin_pwd_def split: bind_splits if_splits option.splits dest!: my_keep)

lemma my_keep_simple [my_keep]:
  "builtin_ps s = Some s' \<Longrightarrow> my_fds s' = my_fds s" "builtin_clear s = Some s' \<Longrightarrow> my_fds s' = my_fds s"
  by (auto simp: builtin_ps_def builtin_clear_def split: if_splits dest!: my_keep)

lemma my_keep_mkdir [my_keep]: "builtin_mkdir s = Some (r, s') \<Longrightarrow> my_fds s' = my_fds s"
  by (auto simp: builtin_mkdir_def split: bind_splits if_splits dest!: my_keep)

lemma my_keep_rmdir [my_keep]: "builtin_rmdir s = Some (r, s') \<Longrightarrow> my_fds s' = my_fds s"
  by (auto simp: builtin_rmdir_def split: bind_splits if_splits dest!: my_keep)

lemma my_keep_rm [my_keep]: "builtin_rm s = Some (r, s') \<Longrightarrow> my_fds s' = my_fds s"
  by (auto simp: builtin_rm_def split: bind_splits if_splits dest!: my_keep)

lemma keep_bind:
  "(\<And>t. m = Some t \<Longrightarrow> v t = v s) \<Longrightarrow> Option.bind m (\<lambda>t. Some (x, t)) = Some (r, s') \<Longrightarrow> v s' = v s"
  "(\<And>q t. n = Some (q, t) \<Longrightarrow> v t = v s) \<Longrightarrow> Option.bind n (\<lambda>(q, t). Some (y q t, t)) = Some (r, s') \<Longrightarrow> v s' = v s"
  by (cases m; simp) (cases n; auto)

lemma my_keep_builtin_run [my_keep]:
  assumes "builtin_run s = Some (r, s')"
  shows "my_fds s' = my_fds s"
proof -
  let ?s = "s\<lparr>final_path := []\<rparr>"
  obtain cmd where cmd: "arg 0 ?s = Some cmd"
    using assms unfolding builtin_run_def Let_def by (cases "arg 0 ?s") auto
  have cd: "Option.bind (builtin_cd ?s) (\<lambda>(q, t). Some (0, if q = 0 then t\<lparr>cwd_cache := final_path t\<rparr> else t)) = Some (r, s') \<Longrightarrow> my_fds s' = my_fds ?s"
    by (cases "builtin_cd ?s") (auto split: if_splits dest!: my_keep)
  note branch = keep_bind [where v = my_fds and s = ?s]
  have "my_fds s' = my_fds ?s"
    using assms unfolding builtin_run_def Let_def cmd Option.bind.bind_lunit
    by (simp only: split: if_split_asm) (erule cd | (erule branch [rotated], erule my_keep) | simp)+
  then show ?thesis by simp
qed

section \<open>Descriptors of a pipeline\<close>

lemma free_fd_loop_spec: "fd \<le> free_fd_loop n fd ft \<and> free_fd_loop n fd ft \<le> fd + n
    \<and> (free_fd_loop n fd ft < fd + n \<longrightarrow> ft ! free_fd_loop n fd ft = - 1)"
proof (induction n arbitrary: fd)
  case (Suc n)
  from Suc [of "fd + 1"] show ?case by (auto dest: Suc_leD)
qed simp

lemma install_spec:
  assumes "pcb_fd_install g s = (fd, s')" and "fd_only s = (F, N)"
  shows "(fd = - 1 \<and> s' = s) \<or> (\<exists>k. 3 \<le> k \<and> k < 8 \<and> fd = of_nat k \<and> F ! k = - 1 \<and> fd_only s' = (F[k := g], N))"
  using assms free_fd_loop_spec [of 3 5 "fds s"]
  by (auto simp: pcb_fd_install_def Let_def MAX_FILES_OPEN_PER_PROC_def fd_only_def split: if_splits)

lemma fd_not_minus_1: "k < 8 \<Longrightarrow> (of_nat k :: u32) \<noteq> - 1"
  using unat_of_nat_u32 [of k] by (auto simp: unsigned_minus_1_eq_mask mask_eq_exp_minus_1 simp del: unsigned_of_nat)

lemma sys_pipe_spec:
  fixes f f' :: "'a sysstate_scheme"
  assumes "sys_pipe f = Some (r, a, b, f')" and "fd_only f = (F, N)" and "length F = 8" and "b \<noteq> - 1"
  shows "\<exists>i k g. 3 \<le> i \<and> i < 8 \<and> 3 \<le> k \<and> k < 8 \<and> i \<noteq> k \<and> a = of_nat i \<and> b = of_nat k \<and> F ! i = - 1 \<and> F ! k = - 1
     \<and> fd_only f' = (F[i := g, k := g], N)"
proof -
  obtain x :: "'a sysstate_scheme" and g where x: "fd_only x = (F, N)" "unat g < MAX_FILE_OPEN" "fst (pcb_fd_install g x) = a"
    "pcb_fd_install g (snd (pcb_fd_install g x)) = (b, f')"
    using sys_pipe_installs [OF assms(1)] assms(2) by auto
  have g: "g \<noteq> - 1" using x(2) by (auto simp: MAX_FILE_OPEN_def unsigned_minus_1_eq_mask mask_eq_exp_minus_1)
  obtain y where y: "pcb_fd_install g x = (a, y)" using x(3) by (metis prod.collapse)
  have y2: "pcb_fd_install g y = (b, f')" using x(4) y by simp
  show ?thesis
  proof (cases "a = - 1")
    case True
    then have "y = x" using install_spec [OF y x(1)] fd_not_minus_1 by metis
    then show ?thesis using True y y2 assms(4) by simp
  next
    case False
    then obtain i where i: "3 \<le> i" "i < 8" "a = of_nat i" "F ! i = - 1" "fd_only y = (F[i := g], N)"
      using install_spec [OF y x(1)] by auto
    then obtain k where k: "3 \<le> k" "k < 8" "b = of_nat k" "F[i := g] ! k = - 1" "fd_only f' = (F[i := g, k := g], N)"
      using install_spec [OF y2 i(5)] assms(4) by auto
    moreover have "i \<noteq> k" using k(4) g i(2) assms(3) by auto
    ultimately show ?thesis using i by (auto simp: nth_list_update)
  qed
qed

lemma dup2_spec: "dup2 n old s = Some s' \<Longrightarrow> my_fds s = (F, N) \<Longrightarrow>
    (3 \<le> n \<longrightarrow> unat n < length F) \<and> my_fds s' = (F[unat old := (if n < 3 then n else F ! unat n)], N)"
  by (auto simp: dup2_def on_fs_def sys_dup2_def my_fds_def fd_only_def split: bind_splits if_splits)

lemma close_spec:
  assumes "close fd s = Some (r, s')" and "my_fds s = (F, N)" and "2 < sint fd"
  shows "my_fds s' = (F[unat fd := - 1], N)"
proof -
  obtain f where f: "sys_close fd (fs_view s) = Some (r, f)" "s' = fs_back f s"
    using assms(1) by (auto simp: close_def on_fs_def split: bind_splits)
  then show ?thesis using sys_close_only [OF f(1) assms(3)] assms(2) by (simp add: my_fds_def fd_only_def)
qed

section \<open>Pipelines of builtin commands\<close>

definition builtin_names :: "u8 list list" where
  "builtin_names = map ascii [''ls'', ''cd'', ''pwd'', ''ps'', ''clear'', ''mkdir'', ''rmdir'', ''rm'']"

definition builtin_line :: "u8 list \<Rightarrow> bool" where
  "builtin_line cmd = (case snd (cmd_parse cmd space) of [] \<Rightarrow> False | w # _ \<Rightarrow> w \<in> set builtin_names)"

lemma builtin_run_name:
  assumes "builtin_run s = Some (r, s')" and "arg 0 s = Some w" and "w \<in> set builtin_names"
  shows "r = 0"
proof -
  have "arg 0 (s\<lparr>final_path := []\<rparr>) = Some w" using assms(2) by (simp add: arg_def split: if_splits)
  then show ?thesis using assms(1,3) unfolding builtin_run_def Let_def
    by (simp only: Option.bind.bind_lunit split: if_split_asm) (auto simp: builtin_names_def bind_eq_Some_conv)
qed

lemma run_words_builtin:
  assumes "run_words a j cmd k s = Some (pc, s')" and "builtin_line cmd"
  shows "pc = At k \<and> my_fds s' = my_fds s"
proof -
  obtain n w ws where p: "cmd_parse cmd space = (n, w # ws)" and w: "w \<in> set builtin_names"
    using assms(2) by (cases "cmd_parse cmd space") (auto simp: builtin_line_def split: list.splits)
  let ?s = "s\<lparr>argc := n, argv := w # ws\<rparr>"
  obtain e t where e: "cmd_run a j ?s = Some (e, t, s')" "pc = (case e of Returned \<Rightarrow> At k | Asleep \<Rightarrow> In_wait k | _ \<Rightarrow> Gone e)"
    using assms(1) p by (auto simp: run_words_def split: bind_splits)
  obtain r s1 where b: "builtin_run ?s = Some (r, s1)" using e(1) by (auto simp: cmd_run_def split: bind_splits)
  have "r = 0" by (rule builtin_run_name [OF b _ w]) (simp add: arg_def)
  then have "e = Returned" "s' = s1" using e(1) b by (auto simp: cmd_run_def)
  then show ?thesis using e(2) my_keep_builtin_run [OF b] by simp
qed

lemma fs_back_line [simp]: "cmd_line (fs_back f (s :: 'a shell_scheme)) = cmd_line s"
  by (simp add: fs_back_def upd_task_def)

lemma on_fs_line: "on_fs call (s :: 'a shell_scheme) = Some (r, s') \<Longrightarrow> cmd_line s' = cmd_line s"
  by (auto simp: on_fs_def split: bind_splits)

lemma pipe_line: "pipe (s :: 'a shell_scheme) = Some (r, s') \<Longrightarrow> cmd_line s' = cmd_line s"
  and dup2_line: "dup2 n old (s :: 'a shell_scheme) = Some s' \<Longrightarrow> cmd_line s' = cmd_line s"
  by (auto simp: pipe_def dup2_def split: bind_splits dest!: on_fs_line)

lemma pipe_spec:
  assumes "pipe s = Some ((r, a, b), s')" and "my_fds s = (F, N)" and "length F = 8" and "b \<noteq> - 1"
  shows "\<exists>i k g. 3 \<le> i \<and> i < 8 \<and> 3 \<le> k \<and> k < 8 \<and> i \<noteq> k \<and> a = of_nat i \<and> b = of_nat k \<and> F ! i = - 1 \<and> F ! k = - 1
     \<and> my_fds s' = (F[i := g, k := g], N)"
  using assms sys_pipe_spec [of "fs_view s" r a b _ F N] by (auto simp: pipe_def on_fs_def my_fds_def split: bind_splits)

lemma install_length: "length (fds (snd (pcb_fd_install g s))) = length (fds s)"
  by (simp add: pcb_fd_install_def Let_def)

lemma pipe_length:
  assumes "pipe s = Some (r, s')"
  shows "length (fst (my_fds s')) = length (fst (my_fds s))"
proof -
  obtain q a b f where f: "sys_pipe (fs_view s) = Some (q, a, b, f)" "s' = fs_back f s"
    using assms by (auto simp: pipe_def on_fs_def split: bind_splits)
  obtain x :: sysstate and g where "fd_only x = fd_only (fs_view s)" "snd (pcb_fd_install g (snd (pcb_fd_install g x))) = f"
    using sys_pipe_installs [OF f(1)] by (metis snd_conv)
  then show ?thesis using install_length [of g x] install_length [of g "snd (pcb_fd_install g x)"] f(2)
    by (simp add: my_fds_def fd_only_def)
qed

lemma pieces_bar:
  "pieces bar l = (if bar \<in> set l then before_bar l # pieces bar (after_bar l) else [l])"
  unfolding before_bar_def after_bar_def by (subst pieces_first) (auto simp: takeWhile_eq_all_conv)

lemma pieces_ne: "0 < length (pieces sep l)"
  by (subst pieces_first) simp

text \<open>While the rest of a pipeline runs, descriptor 0 is the pipe and 1 is the pipe or, for the last command, the screen.\<close>

lemma pipe_part_rounds:
  assumes "pipe_part a j rest fd0 fd1 s = Some (pc, s1)" and "shell_rounds n a j pc s1 = Some (pc', s')" and "n = length (pieces bar rest)"
    and "\<forall>p\<in>set (pieces bar rest). builtin_line p" and "my_fds s = (F, N)" and "2 < sint fd0" and "2 < sint fd1"
  shows "pc' = At Next_line \<and> my_fds s' = (F[1 := 1, 0 := 0, unat fd0 := - 1, unat fd1 := - 1], N)"
  using assms
proof (induction n arbitrary: rest s pc s1)
  case 0
  then show ?case using pieces_ne [of bar rest] by simp
next
  case (Suc n)
  show ?case
  proof (cases "bar \<in> set rest")
    case True
    then have p: "pieces bar rest = before_bar rest # pieces bar (after_bar rest)" by (subst pieces_bar) simp
    have "run_words a j (before_bar rest) (Pipe_more (after_bar rest) fd0 fd1) s = Some (pc, s1)"
      using Suc.prems(1) True by (simp add: pipe_part_def)
    then have s1: "pc = At (Pipe_more (after_bar rest) fd0 fd1)" "my_fds s1 = (F, N)"
      using run_words_builtin Suc.prems(4,5) p by fastforce+
    then obtain pc2 s2 where "pipe_part a j (after_bar rest) fd0 fd1 s1 = Some (pc2, s2)" "shell_rounds n a j pc2 s2 = Some (pc', s')"
      using Suc.prems(2) by (auto split: bind_splits)
    then show ?thesis using Suc.IH [of "after_bar rest" s1 pc2 s2] Suc.prems(3,4,6,7) p s1(2) by auto
  next
    case False
    then have p: "pieces bar rest = [rest]" by (subst pieces_bar) simp
    obtain t where t: "dup2 1 1 s = Some t" "run_words a j rest (Pipe_done fd0 fd1) t = Some (pc, s1)"
      using Suc.prems(1) False by (auto simp: pipe_part_def split: bind_splits)
    have "my_fds t = (F[1 := 1], N)" using dup2_spec [OF t(1) Suc.prems(5)] by simp
    then have s1: "pc = At (Pipe_done fd0 fd1)" "my_fds s1 = (F[1 := 1], N)"
      using run_words_builtin [OF t(2)] Suc.prems(4) p by auto
    have "n = 0" using Suc.prems(3) p by simp
    then obtain u v r r' where u: "dup2 0 0 s1 = Some u" "close fd0 u = Some (r, v)" "close fd1 v = Some (r', s')" "pc' = At Next_line"
      using Suc.prems(2) s1(1) by (auto split: bind_splits)
    have "my_fds u = (F[1 := 1, 0 := 0], N)" using dup2_spec [OF u(1) s1(2)] by simp
    from close_spec [OF u(2) this Suc.prems(6)] have "my_fds v = (F[1 := 1, 0 := 0, unat fd0 := - 1], N)" .
    from close_spec [OF u(3) this Suc.prems(7)] u(4) show ?thesis by simp
  qed
qed

text \<open>
  C15: a pipeline of builtin commands ends with the descriptors it began with. On a line with bars whose parts all begin with
  the name of a builtin command, \<^verbatim>\<open>pipe_run\<close> and the rounds that follow it come back to the next line
  with standard input and output where they were and the descriptors of the pipe closed again.
\<close>

theorem pipeline_restores_descriptors:
  assumes "bar \<in> set (cmd_line s)" and "\<forall>p\<in>set (pieces bar (cmd_line s)). builtin_line p"
    and "my_fds s = (F, N)" and "length F = 8" and "F ! 0 = 0" and "F ! 1 = 1"
    and "pipe_run a j s = Some (pc, s1)" and "shell_rounds (length (pieces bar (cmd_line s))) a j pc s1 = Some (pc', s')"
  shows "pc' = At Next_line \<and> my_fds s' = my_fds s"
proof -
  let ?l = "cmd_line s"
  have p: "pieces bar ?l = before_bar ?l # pieces bar (after_bar ?l)" using assms(1) by (subst pieces_bar) simp
  obtain q fd0 fd1 t u where t: "pipe s = Some ((q, fd0, fd1), t)" "dup2 fd1 1 t = Some u"
    "run_words a j (before_bar ?l) (Pipe_first (after_bar ?l) fd0 fd1) u = Some (pc, s1)"
    using assms(7) by (auto simp: pipe_run_def pipe_line dup2_line split: bind_splits)
  have b: "fd1 \<noteq> - 1" using dup2_spec [OF t(2), of "fst (my_fds t)" "snd (my_fds t)"] pipe_length [OF t(1)] assms(3,4)
    by (auto simp: unsigned_minus_1_eq_mask mask_eq_exp_minus_1)
  obtain i k g where ik: "3 \<le> i" "i < 8" "3 \<le> k" "k < 8" "i \<noteq> k" "fd0 = of_nat i" "fd1 = of_nat k" "F ! i = - 1" "F ! k = - 1"
    "my_fds t = (F[i := g, k := g], N)"
    using pipe_spec [OF t(1) assms(3,4) b] by blast
  have fd: "unat fd0 = i" "unat fd1 = k" "2 < sint fd0" "2 < sint fd1" "\<not> fd0 < 3" "\<not> fd1 < 3"
    using ik(1-7) by (auto simp: unat_of_nat_u32 sint_of_nat_small word_less_nat_alt simp del: unsigned_of_nat signed_of_nat)
  have u: "my_fds u = (F[i := g, k := g, 1 := g], N)"
    using dup2_spec [OF t(2) ik(10)] fd ik(4,5) assms(4) by (simp add: nth_list_update)
  have s1: "pc = At (Pipe_first (after_bar ?l) fd0 fd1)" "my_fds s1 = (F[i := g, k := g, 1 := g], N)"
    using run_words_builtin [OF t(3)] assms(2) p u by auto
  then obtain v pc2 s2 where v: "dup2 fd0 0 s1 = Some v" "pipe_part a j (after_bar ?l) fd0 fd1 v = Some (pc2, s2)"
    "shell_rounds (length (pieces bar (after_bar ?l))) a j pc2 s2 = Some (pc', s')"
    using assms(8) p by (auto split: bind_splits)
  have "my_fds v = (F[i := g, k := g, 1 := g, 0 := g], N)"
    using dup2_spec [OF v(1) s1(2)] fd ik(1-5) assms(4) by (simp add: nth_list_update)
  from pipe_part_rounds [OF v(2,3) refl _ this fd(3,4)]
  have "pc' = At Next_line" and s': "my_fds s' = (F[i := g, k := g, 1 := g, 0 := g, 1 := 1, 0 := 0, i := - 1, k := - 1], N)"
    using assms(2) p fd(1,2) by auto
  moreover have "F[i := g, k := g, 1 := g, 0 := g, 1 := 1, 0 := 0, i := - 1, k := - 1] = F"
    using assms(4,5,6) ik(1-5,8,9) by (intro nth_equalityI) (auto simp: nth_list_update)
  ultimately show ?thesis using assms(3) by simp
qed

section \<open>A pipeline that runs to its end\<close>

lemma dup2_returns: "my_fds s = (F, N) \<Longrightarrow> unat old < length F \<Longrightarrow> (3 \<le> n \<longrightarrow> unat n < length F) \<Longrightarrow> \<exists>s'. dup2 n old s = Some s'"
  by (auto simp: dup2_def on_fs_def sys_dup2_def my_fds_def fd_only_def)

lemma close_returns:
  assumes "my_fds s = (F, 32)" and "length F = 8" and "\<forall>g\<in>set F. g = - 1 \<or> unat g < 32" and "k < 8" and "F ! k \<noteq> - 1"
  shows "\<exists>r s'. close (of_nat k) s = Some (r, s')"
proof -
  have "fd_ok (fs_view s)" "fds (fs_view s) = F"
    using assms(1-3) by (simp_all add: fd_ok_def my_fds_def fd_only_def MAX_FILES_OPEN_PER_PROC_def MAX_FILE_OPEN_def)
  then have "fd_local2global (of_nat k) (fs_view s) = Some (F ! k)"
    using fd_ok_lookup(1) [of "fs_view s" k] assms(4,5) by (simp add: MAX_FILES_OPEN_PER_PROC_def)
  then show ?thesis by (auto simp: close_def on_fs_def sys_close_def is_pipe_def Let_def split_beta)
qed

definition demo_pipeline :: shell where
  "demo_pipeline = demo_shell\<lparr>cmd_line := ascii ''clear|clear'', fsys := demo_calls\<rparr>"

lemma run_clear:
  "\<exists>s'. run_words a j (ascii ''clear'') k s = Some (At k, s') \<and> my_fds s' = my_fds s"
proof -
  have p: "cmd_parse (ascii ''clear'') space = (1, [ascii ''clear''])" by code_simp
  have neq: "ascii ''clear'' \<noteq> ascii ''ls''" "ascii ''clear'' \<noteq> ascii ''cd''" "ascii ''clear'' \<noteq> ascii ''pwd''" "ascii ''clear'' \<noteq> ascii ''ps''"
    by code_simp+
  have "\<exists>s'. run_words a j (ascii ''clear'') k s = Some (At k, s')"
    by (simp add: run_words_def p cmd_run_def builtin_run_def Let_def arg_def neq builtin_clear_def)
  moreover have "builtin_line (ascii ''clear'')" by code_simp
  ultimately show ?thesis using run_words_builtin by blast
qed

lemma demo_pipe: "\<exists>t. pipe demo_pipeline = Some ((0, 3, 4), t) \<and> my_fds t = ([0, 1, 2, 3, 3, - 1, - 1, - 1], 32)"
proof -
  have "fs_view demo_pipeline = demo_calls"
    by (simp add: fs_view_def demo_pipeline_def demo_shell_def demo_calls_defs zero_task_def)
  moreover have "map_option (\<lambda>(r, a, b, f). (r, a, b, fd_only f)) (sys_pipe demo_calls) = Some (0, 3, 4, [0, 1, 2, 3, 3, - 1, - 1, - 1], 32)"
    by code_simp
  ultimately show ?thesis by (auto simp: pipe_def on_fs_def my_fds_def)
qed

theorem pipeline_restores_descriptors_witness:
  "\<exists>pc s1 s'. pipe_run 0 0 demo_pipeline = Some (pc, s1) \<and> shell_rounds 2 0 0 pc s1 = Some (At Next_line, s') \<and> my_fds s' = my_fds demo_pipeline"
proof -
  have view: "my_fds demo_pipeline = ([0, 1, 2, - 1, - 1, - 1, - 1, - 1], 32)" by code_simp
  have l: "cmd_line demo_pipeline = ascii ''clear|clear''" by (simp add: demo_pipeline_def)
  have line: "pieces bar (ascii ''clear|clear'') = [ascii ''clear'', ascii ''clear'']" "bar \<in> set (ascii ''clear|clear'')"
    "before_bar (ascii ''clear|clear'') = ascii ''clear''" "after_bar (ascii ''clear|clear'') = ascii ''clear''"
    "bar \<notin> set (ascii ''clear'')" "builtin_line (ascii ''clear'')" by code_simp+
  obtain t where t: "pipe demo_pipeline = Some ((0, 3, 4), t)" "my_fds t = ([0, 1, 2, 3, 3, - 1, - 1, - 1], 32)" using demo_pipe by blast
  obtain u where u: "dup2 4 1 t = Some u" using dup2_returns [OF t(2), of 1 4] by auto
  then have uf: "my_fds u = ([0, 3, 2, 3, 3, - 1, - 1, - 1], 32)" using dup2_spec [OF u t(2)] by simp
  obtain v where v: "run_words 0 0 (ascii ''clear'') (Pipe_first (ascii ''clear'') 3 4) u = Some (At (Pipe_first (ascii ''clear'') 3 4), v)" "my_fds v = my_fds u"
    using run_clear by blast
  have run: "pipe_run 0 0 demo_pipeline = Some (At (Pipe_first (ascii ''clear'') 3 4), v)"
    using t(1) u v(1) pipe_line [OF t(1)] dup2_line [OF u] by (simp add: pipe_run_def l line)
  obtain w where w: "dup2 3 0 v = Some w" using dup2_returns [of v _ _ 0 3] v(2) uf by auto
  then have wf: "my_fds w = ([3, 3, 2, 3, 3, - 1, - 1, - 1], 32)" using dup2_spec [OF w, of _ 32] v(2) uf by simp
  obtain x where x: "dup2 1 1 w = Some x" using dup2_returns [OF wf, of 1 1] by auto
  then have xf: "my_fds x = ([3, 1, 2, 3, 3, - 1, - 1, - 1], 32)" using dup2_spec [OF x wf] by simp
  obtain y where y: "run_words 0 0 (ascii ''clear'') (Pipe_done 3 4) x = Some (At (Pipe_done 3 4), y)" "my_fds y = my_fds x" using run_clear by blast
  obtain z where z: "dup2 0 0 y = Some z" using dup2_returns [of y _ _ 0 0] y(2) xf by auto
  then have zf: "my_fds z = ([0, 1, 2, 3, 3, - 1, - 1, - 1], 32)" using dup2_spec [OF z, of _ 32] y(2) xf by simp
  obtain r a where a: "close 3 z = Some (r, a)" using close_returns [OF zf, of 3] by auto
  have af: "my_fds a = ([0, 1, 2, - 1, 3, - 1, - 1, - 1], 32)" using close_spec [OF a zf] by simp
  obtain q b where b: "close 4 a = Some (q, b)" using close_returns [OF af, of 4] by auto
  have rounds: "shell_rounds 2 0 0 (At (Pipe_first (ascii ''clear'') 3 4)) v = Some (At Next_line, b)"
    using w x y(1) z a b by (simp add: numeral_2_eq_2 pipe_part_def line(5))
  have n: "length (pieces bar (cmd_line demo_pipeline)) = 2" "bar \<in> set (cmd_line demo_pipeline)"
    "\<forall>p\<in>set (pieces bar (cmd_line demo_pipeline)). builtin_line p" unfolding l line(1) using line(2,6) by simp_all
  have "At Next_line = At Next_line \<and> my_fds b = my_fds demo_pipeline"
    by (rule pipeline_restores_descriptors [OF n(2,3) view _ _ _ run rounds [folded n(1)]]) simp_all
  then show ?thesis using run rounds by blast
qed

end
