(* ===== verification/User.thy ===== *)
theory User
  imports Shell_run File_session
begin

unbundle bit_operations_syntax

text \<open>
  The programs under \<^verbatim>\<open>user/\<close> that use the system calls: \<^verbatim>\<open>cat\<close>, \<^verbatim>\<open>echo\<close>, \<^verbatim>\<open>hello\<close>, \<^verbatim>\<open>fork-exec\<close> and \<^verbatim>\<open>pipe\<close>. A program gets its
  words; \<open>argv_addr\<close> is where the array of pointers to them lies. Its run ends with the status it passes
  to \<^verbatim>\<open>exit\<close> or returns to \<^verbatim>\<open>_start\<close>, which passes it to \<^verbatim>\<open>exit\<close>; with another program in its place; or asleep
  in \<^verbatim>\<open>wait\<close>. What a program does after \<^verbatim>\<open>fork\<close> is a function of the number that \<^verbatim>\<open>fork\<close> returned. The buffers
  of a program are lists, as long as the memory from \<^verbatim>\<open>malloc\<close> they stand for.
\<close>

section \<open>The programs\<close>

datatype prog_end = Exit u32 | Exec | Sleep

text \<open>\<^verbatim>\<open>printf\<close> of a text that is its own format: a percent sign would read an argument that was not passed.\<close>

definition print_format :: "u8 list \<Rightarrow> 'a pstate_scheme \<Rightarrow> 'a pstate_scheme option" where
  "print_format txt s = do { ASSERT (0x25 \<notin> set txt); print txt s }"

primrec echo_rest :: "u8 list list \<Rightarrow> 'a pstate_scheme \<Rightarrow> 'a pstate_scheme option" where
  "echo_rest [] s = Some s"
| "echo_rest (w # ws) s = do { s \<leftarrow> print [space] s; s \<leftarrow> print_format w s; echo_rest ws s }"

definition echo_main :: "u8 list list \<Rightarrow> 'a pstate_scheme \<Rightarrow> (prog_end \<times> 'a pstate_scheme) option" where
  "echo_main args s = (case tl args of
     [] \<Rightarrow> do { s \<leftarrow> println (ascii ''no args!'') s; Some (Exit (- 1), s) }
   | w # ws \<Rightarrow> do {
       s \<leftarrow> print_format w s;
       s \<leftarrow> echo_rest ws s;
       s \<leftarrow> print [newline] s;
       Some (Exit 0, s)
     })"

definition hello_main :: "u8 list list \<Rightarrow> addr \<Rightarrow> 'a pstate_scheme \<Rightarrow> (prog_end \<times> 'a pstate_scheme) option" where
  "hello_main args argv_addr s = do {
     s \<leftarrow> println (ascii ''hello user world'') s;
     ASSERT (args \<noteq> []);
     (r, s) \<leftarrow> sys_execv (hd args) argv_addr s;
     Some (if r = - 1 then Exit 0 else Exec, s)
   }"

text \<open>What a failed \<^verbatim>\<open>assert\<close> of a program prints before it loops for ever; elsewhere the failure is \<open>None\<close>.\<close>

definition user_panic_spin :: "u8 list \<Rightarrow> u32 \<Rightarrow> u8 list \<Rightarrow> u8 list \<Rightarrow> 'a pstate_scheme \<Rightarrow> 'a pstate_scheme option" where
  "user_panic_spin file line func condition s =
     println (replicate 4 newline @ ascii ''filename '' @ file @ [newline] @ ascii ''line '' @ decimal line @ [newline]
       @ ascii ''function '' @ func @ [newline] @ ascii ''condition '' @ condition) s"

text \<open>The path that \<^verbatim>\<open>cat\<close> and \<^verbatim>\<open>fork-exec\<close> build; when \<^verbatim>\<open>getcwd\<close> fails the buffer stays empty.\<close>

definition prog_path :: "u8 list \<Rightarrow> 'a pstate_scheme \<Rightarrow> (u8 list \<times> 'a pstate_scheme) option" where
  "prog_path w s =
     (if w = [] \<or> hd w \<noteq> slash then do {
        (cwd, s) \<leftarrow> getcwd s;
        let p = (case cwd of None \<Rightarrow> [] | Some c \<Rightarrow> c) @ [slash] @ w;
        ASSERT (length p < 512);
        Some (p, s)
      } else do { ASSERT (length w < 512); Some (w, s) })"

partial_function (option) cat_loop :: "u32 \<Rightarrow> 'a pstate_scheme \<Rightarrow> 'a pstate_scheme option" where
  "cat_loop fd s =
     Option.bind (read_fd fd 1024 s) (\<lambda>r.
       if fst (fst r) = - 1 then Some (snd r)
       else Option.bind (on_fs (sys_write 1 (snd (fst r))) (snd r)) (\<lambda>q. cat_loop fd (snd q)))"

definition cat_main :: "u8 list list \<Rightarrow> 'a pstate_scheme \<Rightarrow> (prog_end \<times> 'a pstate_scheme) option" where
  "cat_main args s =
     (if 2 < length args then do { s \<leftarrow> println (ascii ''cat: umimplement!'') s; Some (Exit (- 2), s) }
      else if length args = 1 then do {
        ((_, bytes), s) \<leftarrow> read_fd 0 512 s;
        ASSERT (length (c_string bytes) < 512);
        s \<leftarrow> print (c_string bytes) s;
        Some (Exit 0, s)
      }
      else do {
        (buf, s) \<leftarrow> sys_malloc 1024 s;
        if buf = NULL then do { s \<leftarrow> println (ascii ''cat: malloc memory failed'') s; Some (Exit (- 1), s) }
        else do {
          ASSERT (length args = 2);
          (abs_path, s) \<leftarrow> prog_path (args ! 1) s;
          (fd, s) \<leftarrow> on_fs (sys_open abs_path O_RDONLY) s;
          if fd = - 1 then do { s \<leftarrow> println (ascii ''cat: open: open '' @ args ! 1 @ ascii '' failed'') s; Some (Exit (- 1), s) }
          else do {
            s \<leftarrow> cat_loop fd s;
            s \<leftarrow> sys_free buf s;
            (_, s) \<leftarrow> close fd s;
            Some (Exit 0, s)
          }
        }
      })"

primrec print_args :: "nat \<Rightarrow> u8 list list \<Rightarrow> 'a pstate_scheme \<Rightarrow> 'a pstate_scheme option" where
  "print_args i [] s = Some s"
| "print_args i (w # ws) s = do {
     s \<leftarrow> println (ascii ''argv['' @ decimal (of_nat i) @ ascii ''] is '' @ w) s;
     print_args (Suc i) ws s
   }"

definition fork_exec_after :: "u32 \<Rightarrow> u8 list list \<Rightarrow> addr \<Rightarrow> 'a pstate_scheme \<Rightarrow> (prog_end \<times> 'a pstate_scheme) option" where
  "fork_exec_after p args argv_addr s =
     (if p \<noteq> 0 then do {
        s \<leftarrow> println ([newline] @ ascii ''fork-exec: father pid: '' @ decimal (sys_getpid s) @ ascii '', '') s;
        (r, s) \<leftarrow> sys_wait s;
        Some (case r of Waiting \<Rightarrow> Sleep | _ \<Rightarrow> Exit 0, s)
      }
      else do {
        ASSERT (1 < length args);
        s \<leftarrow> println ([newline] @ ascii ''fork-exec: child pid: '' @ decimal (sys_getpid s) @ ascii '', exec: , '') s;
        (abs_path, s) \<leftarrow> (if args ! 1 = [] \<or> hd (args ! 1) \<noteq> slash then prog_path (args ! 1) s else Some (args ! 1, s));
        (r, s) \<leftarrow> sys_execv abs_path argv_addr s;
        Some (if r = - 1 then Exit 0 else Exec, s)
      })"

definition fork_exec_main :: "u8 list list \<Rightarrow> addr \<Rightarrow> 'a pstate_scheme \<Rightarrow> (prog_end \<times> 'a pstate_scheme) option" where
  "fork_exec_main args argv_addr s = do {
     s \<leftarrow> print_args 0 args s;
     (p, s) \<leftarrow> sys_fork s;
     fork_exec_after p args argv_addr s
   }"

text \<open>The message has 23 characters and its terminator.\<close>

definition love :: "u8 list" where
  "love = ascii ''Hi, my son, I love you!'' @ [0]"

definition pipe_after :: "u32 \<Rightarrow> u32 \<Rightarrow> u32 \<Rightarrow> 'a pstate_scheme \<Rightarrow> (prog_end \<times> 'a pstate_scheme) option" where
  "pipe_after p fd0 fd1 s =
     (if p \<noteq> 0 then do {
        (_, s) \<leftarrow> close fd0 s;
        (_, s) \<leftarrow> on_fs (sys_write fd1 love) s;
        s \<leftarrow> println ([newline] @ ascii ''I'm father, my pid is '' @ decimal (sys_getpid s)) s;
        Some (Exit 8, s)
      }
      else do {
        (_, s) \<leftarrow> close fd1 s;
        ((_, bytes), s) \<leftarrow> read_fd fd0 24 s;
        s \<leftarrow> println ([newline] @ ascii ''I'm child, my pid is '' @ decimal (sys_getpid s)) s;
        s \<leftarrow> println (ascii ''I'm child, my father said to me: '' @ [0x22] @ c_string (bytes @ replicate 8 0) @ [0x22]) s;
        Some (Exit 9, s)
      })"

definition pipe_main :: "'a pstate_scheme \<Rightarrow> (prog_end \<times> 'a pstate_scheme) option" where
  "pipe_main s = do {
     ((_, fd0, fd1), s) \<leftarrow> pipe s;
     (p, s) \<leftarrow> sys_fork s;
     pipe_after p fd0 fd1 s
   }"

text \<open>\<^verbatim>\<open>_start\<close>\<close>

definition user_start :: "('a pstate_scheme \<Rightarrow> (prog_end \<times> 'a pstate_scheme) option) \<Rightarrow> 'a pstate_scheme \<Rightarrow> 'a pstate_scheme option" where
  "user_start main s = do {
     (e, s) \<leftarrow> main s;
     case e of Exit n \<Rightarrow> sys_exit n s | _ \<Rightarrow> Some s
   }"

section \<open>What reading leaves alone\<close>

definition slot_view :: "'a fstate_scheme \<Rightarrow> u32 list \<times> (addr \<times> u32) list \<times> 'a" where
  "slot_view s = (fds s, map (\<lambda>f. (fd_inode f, fd_flag f)) (file_table s), fstate.more s)"

lemma slot_view_upd [simp]:
  "slot_view (snd (kmalloc s)) = slot_view s" "slot_view (upd_slot g (\<lambda>f. f\<lparr>fd_pos := h f\<rparr>) s) = slot_view s"
proof -
  show "slot_view (snd (kmalloc s)) = slot_view s" by (simp add: slot_view_def kmalloc_def split: list.split)
  have "map (\<lambda>f. (fd_inode f, fd_flag f)) ((file_table s)[unat g := (file_table s ! unat g)\<lparr>fd_pos := x\<rparr>])
      = map (\<lambda>f. (fd_inode f, fd_flag f)) (file_table s)" for x
    by (cases "unat g < length (file_table s)") (simp_all add: map_update list_update_same_conv list_update_beyond)
  then show "slot_view (upd_slot g (\<lambda>f. f\<lparr>fd_pos := h f\<rparr>) s) = slot_view s" by (simp add: slot_view_def upd_slot_def set_slot_def)
qed

lemma slot_view_read_loop: "read_file_loop fd bs n s = Some (r, s') \<Longrightarrow> slot_view s' = slot_view s"
proof (induction n arbitrary: s r rule: less_induct)
  case (less n)
  have IH: "slot_view s' = slot_view s0" if "read_file_loop fd bs (n - min n (512 - m mod 512)) s0 = Some (r0, s')" "0 < n" for s0 m r0
    by (rule less(1) [OF _ that(1)]) (use that(2) in simp)
  from less(2) show ?case
    by (subst (asm) read_file_loop.simps) (auto simp: Let_def split: bind_splits if_splits dest!: IH)
qed

lemma slot_view_read: "file_read fd n s = Some (r, bs, s') \<Longrightarrow> slot_view s' = slot_view s"
  by (auto simp: file_read_def Let_def split_beta split: bind_splits if_splits dest!: slot_view_read_loop)

lemma slot_view_nth:
  assumes "slot_view s' = slot_view s" and "k < length (file_table s)"
  shows "fd_inode (file_table s' ! k) = fd_inode (file_table s ! k)" "fd_flag (file_table s' ! k) = fd_flag (file_table s ! k)"
    "length (file_table s') = length (file_table s)" "fds s' = fds s"
proof -
  let ?m = "\<lambda>s. map (\<lambda>f. (fd_inode f, fd_flag f)) (file_table s)"
  have m: "?m s' = ?m s" and f: "fds s' = fds s" using assms(1) by (simp_all add: slot_view_def)
  show l: "length (file_table s') = length (file_table s)" using arg_cong [OF m, of length] by simp
  show "fds s' = fds s" by (rule f)
  have "?m s' ! k = ?m s ! k" using m by simp
  then show "fd_inode (file_table s' ! k) = fd_inode (file_table s ! k)" "fd_flag (file_table s' ! k) = fd_flag (file_table s ! k)"
    using assms(2) l by simp_all
qed

lemma slot_view_console:
  fixes s s' :: "'a sysstate_scheme"
  assumes "slot_view s' = slot_view s"
  shows "console_out s' = console_out s"
  using assms by (cases s, cases s') (simp add: slot_view_def)

section \<open>Printing a file\<close>

text \<open>A descriptor of the running task that leads to an ordinary file at its start, and a standard output that is the screen.\<close>

definition cat_ready :: "u32 \<Rightarrow> u32 \<Rightarrow> 'a sysstate_scheme \<Rightarrow> bool" where
  "cat_ready fd g f = (3 \<le> unat fd \<and> fd_ok f \<and> unat fd < 8 \<and> fds f ! unat fd = g \<and> unat g < MAX_FILE_OPEN
     \<and> fd_flag (file_table f ! unat g) \<noteq> PIPE_FLAG \<and> is_pipe 1 f = Some False)"

lemma fd_local_any:
  assumes "fd_ok f" and "unat fd < 8" and "fds f ! unat fd = g" and "unat g < MAX_FILE_OPEN"
  shows "fd_local2global fd f = Some g" "sint fd = int (unat fd)"
proof -
  have "g \<noteq> - 1" using assms(4) by (auto simp: MAX_FILE_OPEN_def unsigned_minus_1_eq_mask mask_eq_exp_minus_1)
  then show "fd_local2global fd f = Some g"
    using fd_ok_lookup(1) [OF assms(1), of "unat fd"] assms(2,3) by (simp add: MAX_FILES_OPEN_PER_PROC_def)
  show "sint fd = int (unat fd)" using sint_of_nat_small [of "unat fd"] assms(2) by simp
qed

lemma cat_ready_read:
  assumes "cat_ready fd g f"
  shows "sys_read fd n f = file_read g n f"
proof -
  have c: "fd_ok f" "unat fd < 8" "fds f ! unat fd = g" "unat g < MAX_FILE_OPEN" "3 \<le> unat fd" "fd_flag (file_table f ! unat g) \<noteq> PIPE_FLAG"
    using assms by (simp_all add: cat_ready_def)
  note l = fd_local_any [OF c(1-4)]
  have "is_pipe fd f = Some False" using l(1) c(6) by (simp add: is_pipe_def)
  moreover have "fd \<noteq> 0" "fd \<noteq> 1" "fd \<noteq> 2" "\<not> sint fd < 0" using c(5) l(2) by auto
  ultimately show ?thesis using l(1) by (simp add: sys_read_def)
qed

lemma file_read_eof:
  assumes "fd_pos (file_table s ! unat g) = i_size (inodes s (fd_inode (file_table s ! unat g)))"
    and "unat (fd_pos (file_table s ! unat g)) + unat n < 2 ^ 32" and "n \<noteq> 0"
  shows "file_read g n s = Some (- 1, [], s)"
proof -
  let ?p = "fd_pos (file_table s ! unat g)"
  have "unat (?p + n) = unat ?p + unat n" using assms(2) by (simp add: unat_word_ariths)
  then have "?p < ?p + n" using assms(3) unat_gt_0 [of n] by (simp add: word_less_nat_alt)
  then show ?thesis using assms(1) by (simp add: file_read_def)
qed

lemma is_pipe_slots:
  assumes "slot_view f' = slot_view f" and "fd_ok f"
  shows "is_pipe fd f' = is_pipe fd f"
proof -
  have t: "length (file_table f) = 32" using assms(2) by (simp add: fd_ok_def MAX_FILE_OPEN_def)
  have l: "fd_local2global fd f' = fd_local2global fd f" using slot_view_nth(4) [OF assms(1), of 0] t by (simp add: fd_local2global_def)
  show ?thesis
  proof (cases "fd_local2global fd f")
    case (Some g)
    then have "0 \<le> sint g" "g \<in> set (fds f)" by (auto simp: fd_local2global_def Let_def split: if_splits)
    then have "unat g < 32" using assms(2) by (auto simp: fd_ok_def MAX_FILE_OPEN_def)
    then show ?thesis using slot_view_nth(2) [OF assms(1), of "unat g"] t l Some by (simp add: is_pipe_def)
  qed (simp add: is_pipe_def l)
qed

lemma cat_ready_view:
  assumes "cat_ready fd g f" and "slot_view f' = slot_view f"
  shows "cat_ready fd g f'"
proof -
  have ok: "fd_ok f" "unat g < length (file_table f)" using assms(1) by (simp_all add: cat_ready_def fd_ok_def)
  note n = slot_view_nth [OF assms(2) ok(2)]
  have "fd_ok f'" using ok(1) n(3,4) by (simp add: fd_ok_def)
  then show ?thesis using assms(1) n is_pipe_slots [OF assms(2) ok(1)] by (simp add: cat_ready_def)
qed

lemma cat_ready_console: "cat_ready fd g (f\<lparr>console_out := c\<rparr>) = cat_ready fd g f"
  by (simp add: cat_ready_def fd_ok_def is_pipe_def fd_local2global_def)

text \<open>
  C16: \<^verbatim>\<open>cat\<close> prints a file. For a file of less than 1024 bytes that was opened at its start, the loop of \<^verbatim>\<open>cat\<close> ends, and
  the text of the file, up to its first null byte, is what it has added to the screen.
\<close>

theorem cat_prints_file:
  assumes "cat_ready fd g (fs_view s)" and "i = inodes (fsys s) (fd_inode (file_table (fsys s) ! unat g))" and "readable i (fsys s)"
    and "unat (fd_pos (file_table (fsys s) ! unat g)) = 0" and "unat (i_size i) < 1024"
    and "heap_next (fsys s) = p # q # rest" and "p \<noteq> NULL" and "q \<noteq> NULL"
  shows "\<exists>s'. cat_loop fd s = Some s'
     \<and> console_out (fsys s') = console_out (fsys s) @ takeWhile (\<lambda>b. b \<noteq> 0) (file_bytes i (fsys s))"
proof -
  let ?f = "fs_view s" and ?C = "file_bytes i (fsys s)"
  have v: "inodes ?f = inodes (fsys s)" "file_table ?f = file_table (fsys s)" "disk ?f = disk (fsys s)" "heap_next ?f = heap_next (fsys s)"
    "console_out ?f = console_out (fsys s)" by (simp_all add: fs_view_def)
  have g: "unat g < length (file_table ?f)" using assms(1) by (simp add: cat_ready_def fd_ok_def)
  have C: "file_bytes i ?f = ?C" "length ?C = unat (i_size i)" using file_bytes_disk [OF v(3)] by (simp_all add: file_bytes_def)
  have fp: "file_ptr i ?f = file_ptr i (fsys s)" by (simp add: file_ptr_def fun_eq_iff v(3))
  have rd: "readable i ?f" using assms(3) unfolding readable_def fp v(3) .
  show ?thesis
  proof (cases "unat (i_size i) = 0")
    case True
    then have "file_read g 1024 ?f = Some (- 1, [], ?f)"
      using assms(2,4) by (intro file_read_eof) (simp_all add: v unat_eq_0)
    then have "cat_loop fd s = Some (fs_back ?f s)" by (subst cat_loop.simps) (simp add: read_fd_def on_fs_def cat_ready_read [OF assms(1)])
    then show ?thesis using C(2) True by (simp add: fs_back_def upd_task_def v)
  next
    case False
    obtain f1 where f1: "file_read g 1024 ?f = Some (of_nat (length ?C), ?C, f1)" "inodes f1 = inodes ?f"
      "unat (fd_pos (file_table f1 ! unat g)) = length ?C"
      using file_read_spec [of i ?f g 0 1024 p q rest] assms(2,4-8) rd g False C by (auto simp: v)
    note k = slot_view_read [OF f1(1)]
    define f2 where "f2 = f1\<lparr>console_out := console_out f1 @ takeWhile (\<lambda>b. b \<noteq> 0) ?C\<rparr>"
    have ready: "cat_ready fd g f1" "cat_ready fd g f2" using cat_ready_view [OF assms(1) k] by (simp_all add: f2_def cat_ready_console)
    have w: "sys_write 1 ?C f1 = Some (of_nat (length ?C), f2)"
      using ready(1) C(2) assms(5) by (simp add: sys_write_def cat_ready_def f2_def)
    have "i = inodes f1 (fd_inode (file_table f1 ! unat g))" using assms(2) f1(2) slot_view_nth(1) [OF k g] by (simp add: v)
    then have e: "file_read g 1024 f2 = Some (- 1, [], f2)"
      using f1(3) C(2) assms(5) by (intro file_read_eof) (simp_all add: f2_def word_unat_eq_iff)
    have ne: "(of_nat (length ?C) :: u32) \<noteq> - 1"
      using unat_of_nat_u32 [of "length ?C"] C(2) assms(5) by (auto simp: unsigned_minus_1_eq_mask mask_eq_exp_minus_1 simp del: unsigned_of_nat)
    have "cat_loop fd (fs_back f2 (fs_back f1 s)) = Some (fs_back f2 (fs_back f2 (fs_back f1 s)))"
      by (subst cat_loop.simps) (simp add: read_fd_def on_fs_def cat_ready_read [OF ready(2)] e)
    then have "cat_loop fd s = Some (fs_back f2 (fs_back f2 (fs_back f1 s)))"
      using f1(1) w ne by (subst cat_loop.simps) (simp add: read_fd_def on_fs_def cat_ready_read [OF assms(1)])
    moreover have "console_out f2 = console_out (fsys s) @ takeWhile (\<lambda>b. b \<noteq> 0) ?C"
      using slot_view_console [OF k] v(5) by (simp add: f2_def)
    ultimately show ?thesis by (simp add: fs_back_def upd_task_def)
  qed
qed

definition demo_cat :: shell where
  "demo_cat = demo_shell\<lparr>task := (\<lambda>_. zero_task\<lparr>fd_table := [0, 1, 2, 5, - 1, - 1, - 1, - 1]\<rparr>),
     fsys := fstate.extend (demo_four\<lparr>file_table := replicate 32 \<lparr>fd_pos = 0, fd_flag = 2, fd_inode = 0x9000\<rparr>\<rparr>)
       (sysstate.fields (\<lambda>_. empty_queue) empty_queue [] 0 0)\<rparr>"

lemma demo_cat_fs:
  "inodes (fsys demo_cat) = inodes demo_four" "disk (fsys demo_cat) = disk demo_four" "heap_next (fsys demo_cat) = heap_next demo_four"
  "file_table (fsys demo_cat) = replicate 32 \<lparr>fd_pos = 0, fd_flag = 2, fd_inode = 0x9000\<rparr>" "console_out (fsys demo_cat) = []"
  by (simp_all add: demo_cat_def demo_four_def demo_open_def demo_fs_def fstate.defs sysstate.defs)

theorem cat_prints_file_witness: "\<exists>s'. cat_loop 3 demo_cat = Some s' \<and> console_out (fsys s') = [10, 20, 30, 40]"
proof -
  let ?i = "inodes demo_four 0x9000"
  have "cat_ready 3 5 (fs_view demo_cat)"
    by (simp add: cat_ready_def fd_ok_def is_pipe_def fd_local2global_def fs_view_def demo_cat_fs MAX_FILE_OPEN_def MAX_FILES_OPEN_PER_PROC_def PIPE_FLAG_def)
      (simp add: demo_cat_def)
  moreover have "readable ?i (fsys demo_cat)"
  proof -
    have fp: "file_ptr ?i (fsys demo_cat) = file_ptr ?i demo_four" by (simp add: file_ptr_def fun_eq_iff demo_cat_fs)
    show ?thesis using demo_four_readable unfolding readable_def fp demo_cat_fs .
  qed
  moreover have "file_bytes ?i (fsys demo_cat) = [10, 20, 30, 40]"
    by (simp add: file_bytes_def file_byte_def file_ptr_def demo_cat_fs demo_four_def upt_rec)
  moreover have "i_size ?i = 4" "heap_next demo_four = 0x1000 # 0x2000 # [0x3000, 0x4000]" by (simp_all add: demo_four_def demo_open_def demo_fs_def)
  ultimately show ?thesis
    using cat_prints_file [of 3 5 demo_cat ?i "0x1000" "0x2000" "[0x3000, 0x4000]"] by (simp add: demo_cat_fs)
qed

end
