(* ===== verification/Syscall.thy ===== *)
theory Syscall
  imports Prelude
begin

text \<open>
  The way of a system call: the stubs of \<^verbatim>\<open>lib/user/syscall.c\<close> load registers and raise interrupt \<^verbatim>\<open>0x80\<close>, the
  entry in \<^verbatim>\<open>kernel/kernel.S\<close> pushes the three argument registers and calls the entry of \<^verbatim>\<open>syscall_table\<close> that \<^verbatim>\<open>eax\<close>
  selects, and \<^verbatim>\<open>userprog/syscall-init.c\<close> fills that table. The kernel functions are named by the constructors of
  \<open>kfun\<close>; what they do is the subject of the other theories.
\<close>

section \<open>The numbers\<close>

datatype syscall_nr =
    SYS_GETPID
  | SYS_MALLOC
  | SYS_FREE
  | SYS_FORK
  | SYS_PUTCHAR
  | SYS_CLEAR
  | SYS_OPEN
  | SYS_CLOSE
  | SYS_WRITE
  | SYS_READ
  | SYS_LSEEK
  | SYS_UNLINK
  | SYS_MKDIR
  | SYS_OPENDIR
  | SYS_CLOSEDIR
  | SYS_RMDIR
  | SYS_READDIR
  | SYS_REWINDDIR
  | SYS_STAT
  | SYS_GETCWD
  | SYS_CHDIR
  | SYS_PS
  | SYS_EXECV
  | SYS_WAIT
  | SYS_EXIT
  | SYS_PIPE
  | SYS_DUP2

text \<open>The value of an enumeration constant is its position.\<close>

definition syscall_nrs :: "syscall_nr list" where
  "syscall_nrs = [SYS_GETPID, SYS_MALLOC, SYS_FREE, SYS_FORK, SYS_PUTCHAR, SYS_CLEAR, SYS_OPEN, SYS_CLOSE, SYS_WRITE, SYS_READ, SYS_LSEEK, SYS_UNLINK, SYS_MKDIR, SYS_OPENDIR, SYS_CLOSEDIR, SYS_RMDIR, SYS_READDIR, SYS_REWINDDIR, SYS_STAT, SYS_GETCWD, SYS_CHDIR, SYS_PS, SYS_EXECV, SYS_WAIT, SYS_EXIT, SYS_PIPE, SYS_DUP2]"

fun position :: "'a \<Rightarrow> 'a list \<Rightarrow> nat" where
  "position x [] = 0"
| "position x (y # ys) = (if x = y then 0 else Suc (position x ys))"

definition nr :: "syscall_nr \<Rightarrow> nat" where
  "nr n = position n syscall_nrs"

section \<open>The table\<close>

datatype kfun =
    Sys_getpid
  | Sys_malloc
  | Sys_free
  | Sys_fork
  | Console_put_char
  | Cls_screen
  | Sys_open
  | Sys_close
  | Sys_write
  | Sys_read
  | Sys_lseek
  | Sys_unlink
  | Sys_mkdir
  | Sys_opendir
  | Sys_closedir
  | Sys_rmdir
  | Sys_readdir
  | Sys_rewinddir
  | Sys_stat
  | Sys_getcwd
  | Sys_chdir
  | Sys_ps
  | Sys_execv
  | Sys_wait
  | Sys_exit
  | Sys_pipe
  | Sys_dup2

definition SYSCALL_NR :: nat where "SYSCALL_NR = 32"

text \<open>The entries without a call are null pointers.\<close>

definition syscall_init :: "kfun option list" where
  "syscall_init = fold (\<lambda>(n, f) t. t[nr n := Some f])
     [(SYS_GETPID, Sys_getpid),
      (SYS_MALLOC, Sys_malloc),
      (SYS_FREE, Sys_free),
      (SYS_FORK, Sys_fork),
      (SYS_PUTCHAR, Console_put_char),
      (SYS_CLEAR, Cls_screen),
      (SYS_OPEN, Sys_open),
      (SYS_CLOSE, Sys_close),
      (SYS_WRITE, Sys_write),
      (SYS_READ, Sys_read),
      (SYS_LSEEK, Sys_lseek),
      (SYS_UNLINK, Sys_unlink),
      (SYS_MKDIR, Sys_mkdir),
      (SYS_OPENDIR, Sys_opendir),
      (SYS_CLOSEDIR, Sys_closedir),
      (SYS_RMDIR, Sys_rmdir),
      (SYS_READDIR, Sys_readdir),
      (SYS_REWINDDIR, Sys_rewinddir),
      (SYS_STAT, Sys_stat),
      (SYS_GETCWD, Sys_getcwd),
      (SYS_CHDIR, Sys_chdir),
      (SYS_PS, Sys_ps),
      (SYS_EXECV, Sys_execv),
      (SYS_WAIT, Sys_wait),
      (SYS_EXIT, Sys_exit),
      (SYS_PIPE, Sys_pipe),
      (SYS_DUP2, Sys_dup2)]
     (replicate SYSCALL_NR None)"

section \<open>The entry\<close>

record regs =
  r_eax :: u32
  r_ebx :: u32
  r_ecx :: u32
  r_edx :: u32

text \<open>
  The kernel function that is called, with the arguments on its stack. There is no test of \<^verbatim>\<open>eax\<close>: past the
  end of the table the call goes to whatever address lies there, which is \<open>None\<close> like a null entry.
\<close>

definition syscall_handler :: "regs \<Rightarrow> (kfun \<times> u32 list) option" where
  "syscall_handler r =
     (if unat (r_eax r) < length syscall_init
      then map_option (\<lambda>f. (f, [r_ebx r, r_ecx r, r_edx r])) (syscall_init ! unat (r_eax r)) else None)"

text \<open>The result goes to the saved \<^verbatim>\<open>eax\<close>, which \<^verbatim>\<open>intr_exit\<close> restores; the other registers are as before.\<close>

definition syscall_return :: "u32 \<Rightarrow> regs \<Rightarrow> regs" where
  "syscall_return v r = r\<lparr>r_eax := v\<rparr>"

section \<open>The stubs\<close>

definition syscall0 :: "syscall_nr \<Rightarrow> regs \<Rightarrow> regs" where
  "syscall0 n r = r\<lparr>r_eax := of_nat (nr n)\<rparr>"

definition syscall1 :: "syscall_nr \<Rightarrow> u32 \<Rightarrow> regs \<Rightarrow> regs" where
  "syscall1 n a r = r\<lparr>r_eax := of_nat (nr n), r_ebx := a\<rparr>"

definition syscall2 :: "syscall_nr \<Rightarrow> u32 \<Rightarrow> u32 \<Rightarrow> regs \<Rightarrow> regs" where
  "syscall2 n a b r = r\<lparr>r_eax := of_nat (nr n), r_ebx := a, r_ecx := b\<rparr>"

definition syscall3 :: "syscall_nr \<Rightarrow> u32 \<Rightarrow> u32 \<Rightarrow> u32 \<Rightarrow> regs \<Rightarrow> regs" where
  "syscall3 n a b c r = r\<lparr>r_eax := of_nat (nr n), r_ebx := a, r_ecx := b, r_edx := c\<rparr>"

text \<open>The stubs by the name of the C function; the registers when the interrupt is raised.\<close>

definition user_getpid :: "regs \<Rightarrow> regs" where
  "user_getpid r = syscall0 SYS_GETPID r"

definition user_malloc :: "u32 \<Rightarrow> regs \<Rightarrow> regs" where
  "user_malloc sz r = syscall1 SYS_MALLOC sz r"

definition user_free :: "u32 \<Rightarrow> regs \<Rightarrow> regs" where
  "user_free ptr r = syscall1 SYS_FREE ptr r"

definition user_fork :: "regs \<Rightarrow> regs" where
  "user_fork r = syscall0 SYS_FORK r"

definition user_putchar :: "u32 \<Rightarrow> regs \<Rightarrow> regs" where
  "user_putchar c r = syscall1 SYS_PUTCHAR c r"

definition user_clear :: "regs \<Rightarrow> regs" where
  "user_clear r = syscall0 SYS_CLEAR r"

definition user_open :: "u32 \<Rightarrow> u32 \<Rightarrow> regs \<Rightarrow> regs" where
  "user_open pathname flag r = syscall2 SYS_OPEN pathname flag r"

definition user_close :: "u32 \<Rightarrow> regs \<Rightarrow> regs" where
  "user_close fd r = syscall1 SYS_CLOSE fd r"

definition user_write :: "u32 \<Rightarrow> u32 \<Rightarrow> u32 \<Rightarrow> regs \<Rightarrow> regs" where
  "user_write fd buf count r = syscall3 SYS_WRITE fd buf count r"

definition user_read :: "u32 \<Rightarrow> u32 \<Rightarrow> u32 \<Rightarrow> regs \<Rightarrow> regs" where
  "user_read fd buf count r = syscall3 SYS_READ fd buf count r"

definition user_lseek :: "u32 \<Rightarrow> u32 \<Rightarrow> u32 \<Rightarrow> regs \<Rightarrow> regs" where
  "user_lseek fd offset whence r = syscall3 SYS_LSEEK fd offset whence r"

definition user_unlink :: "u32 \<Rightarrow> regs \<Rightarrow> regs" where
  "user_unlink pathname r = syscall1 SYS_UNLINK pathname r"

definition user_mkdir :: "u32 \<Rightarrow> regs \<Rightarrow> regs" where
  "user_mkdir pathname r = syscall1 SYS_MKDIR pathname r"

definition user_opendir :: "u32 \<Rightarrow> regs \<Rightarrow> regs" where
  "user_opendir name r = syscall1 SYS_OPENDIR name r"

definition user_closedir :: "u32 \<Rightarrow> regs \<Rightarrow> regs" where
  "user_closedir dir r = syscall1 SYS_CLOSEDIR dir r"

definition user_rmdir :: "u32 \<Rightarrow> regs \<Rightarrow> regs" where
  "user_rmdir pathname r = syscall1 SYS_RMDIR pathname r"

definition user_readdir :: "u32 \<Rightarrow> regs \<Rightarrow> regs" where
  "user_readdir dir r = syscall1 SYS_READDIR dir r"

definition user_rewinddir :: "u32 \<Rightarrow> regs \<Rightarrow> regs" where
  "user_rewinddir dir r = syscall1 SYS_REWINDDIR dir r"

definition user_stat :: "u32 \<Rightarrow> u32 \<Rightarrow> regs \<Rightarrow> regs" where
  "user_stat path buf r = syscall2 SYS_STAT path buf r"

definition user_getcwd :: "u32 \<Rightarrow> u32 \<Rightarrow> regs \<Rightarrow> regs" where
  "user_getcwd buf sz r = syscall2 SYS_GETCWD buf sz r"

definition user_chdir :: "u32 \<Rightarrow> regs \<Rightarrow> regs" where
  "user_chdir path r = syscall1 SYS_CHDIR path r"

definition user_ps :: "regs \<Rightarrow> regs" where
  "user_ps r = syscall0 SYS_PS r"

definition user_execv :: "u32 \<Rightarrow> u32 \<Rightarrow> regs \<Rightarrow> regs" where
  "user_execv pathname argv r = syscall2 SYS_EXECV pathname argv r"

definition user_exit :: "u32 \<Rightarrow> regs \<Rightarrow> regs" where
  "user_exit status r = syscall1 SYS_EXIT status r"

definition user_wait :: "u32 \<Rightarrow> regs \<Rightarrow> regs" where
  "user_wait status r = syscall1 SYS_WAIT status r"

definition user_pipe :: "u32 \<Rightarrow> regs \<Rightarrow> regs" where
  "user_pipe pipefd r = syscall1 SYS_PIPE pipefd r"

definition user_dup2 :: "u32 \<Rightarrow> u32 \<Rightarrow> regs \<Rightarrow> regs" where
  "user_dup2 new_fd old_fd r = syscall2 SYS_DUP2 new_fd old_fd r"

lemmas stub_defs = user_getpid_def user_malloc_def user_free_def user_fork_def user_putchar_def user_clear_def user_open_def user_close_def user_write_def user_read_def user_lseek_def user_unlink_def user_mkdir_def user_opendir_def user_closedir_def user_rmdir_def user_readdir_def user_rewinddir_def user_stat_def user_getcwd_def user_chdir_def user_ps_def user_execv_def user_exit_def user_wait_def user_pipe_def user_dup2_def

section \<open>The properties\<close>

lemma syscall_table_entries:
  "syscall_init = map Some [Sys_getpid, Sys_malloc, Sys_free, Sys_fork, Console_put_char, Cls_screen, Sys_open, Sys_close, Sys_write, Sys_read, Sys_lseek, Sys_unlink, Sys_mkdir, Sys_opendir, Sys_closedir, Sys_rmdir, Sys_readdir, Sys_rewinddir, Sys_stat, Sys_getcwd, Sys_chdir, Sys_ps, Sys_execv, Sys_wait, Sys_exit, Sys_pipe, Sys_dup2] @ replicate 5 None"
  by (simp add: syscall_init_def SYSCALL_NR_def nr_def syscall_nrs_def numeral_eq_Suc)


end
