(* ===== verification/Boot.thy ===== *)
theory Boot
  imports Shell_run Ide Keyboard Syscall
begin

unbundle bit_operations_syntax

text \<open>
  \<^verbatim>\<open>kernel/main.c\<close> and \<^verbatim>\<open>kernel/init.c\<close>: the order in which the parts of the kernel are initialised, copying the user programs
  from the raw disk into the file system, the first process; and the console of \<^verbatim>\<open>device/console.c\<close>, whose
  lock keeps the text of one call together.
\<close>

section \<open>The code\<close>

text \<open>\<open>raw\<close> is the first disk, which has no file system. A failed write ends in an endless loop, \<open>None\<close>.\<close>

definition loadelf2fs :: "'b fstate_scheme \<Rightarrow> u32 \<Rightarrow> u32 \<Rightarrow> u8 list \<Rightarrow> 'a sysstate_scheme \<Rightarrow> 'a sysstate_scheme option" where
  "loadelf2fs raw sec_base file_size fname s = do {
     let sec_cnt' = (file_size + of_nat SECTOR_SIZE - 1) div of_nat SECTOR_SIZE;
     let (buf, s) = kmalloc s;
     ASSERT (buf \<noteq> NULL);
     bytes \<leftarrow> ide_read sec_base (unat sec_cnt') raw;
     (fd, s) \<leftarrow> sys_open fname (4 OR 2) s;
     if fd = - 1 then Some s
     else do {
       (n, s) \<leftarrow> sys_write fd (take (unat file_size) bytes) s;
       ASSERT (n \<noteq> - 1);
       (_, s) \<leftarrow> sys_close fd s;
       Some s
     }
   }"

text \<open>
  The console; the lock calls are those of a task that does not have to wait. \<open>put_it\<close> is the routine of
  \<^verbatim>\<open>lib/kernel/print.S\<close> that puts a string, a character or a number on the screen.
\<close>

definition console_init :: "addr \<Rightarrow> 'a kstate_scheme \<Rightarrow> 'a kstate_scheme" where
  "console_init console_lock s = lock_init console_lock s"

definition console_acquire :: "addr \<Rightarrow> 'a kstate_scheme \<Rightarrow> 'a kstate_scheme option" where
  "console_acquire console_lock s = lock_acquire_now console_lock s"

definition console_release :: "addr \<Rightarrow> 'a kstate_scheme \<Rightarrow> 'a kstate_scheme option" where
  "console_release console_lock s = lock_release_now console_lock s"

definition console_put :: "addr \<Rightarrow> ('a kstate_scheme \<Rightarrow> 'a kstate_scheme) \<Rightarrow> 'a kstate_scheme \<Rightarrow> 'a kstate_scheme option" where
  "console_put console_lock put_it s = do {
     s \<leftarrow> console_acquire console_lock s;
     console_release console_lock (put_it s)
   }"

text \<open>
  The addresses that the linker gives to code and static data, and what the kernel holds after \<^verbatim>\<open>init_all\<close>: the tables of
  the processor, the handlers, the bytes written to ports, the keyboard, the table of system calls, the
  channels with the partitions found, and the state of the other parts.
\<close>

record image =
  at_idt :: addr
  at_entries :: "nat \<Rightarrow> u32"
  at_syscall_handler :: u32
  at_start_process :: addr
  at_init :: addr
  at_idle :: addr
  at_tss :: addr
  at_console_lock :: addr
  at_disk_done :: "nat \<Rightarrow> addr"
  at_disk_lock :: "nat \<Rightarrow> addr"

record board =
  idt :: "gate_desc list"
  idt_operand :: u64
  gdt :: "nat \<Rightarrow> gdt_desc"
  gdt_operand :: u64
  handler_tab :: handlers
  port_writes :: "(u16 \<times> u8) list"
  keys :: kbd
  syscall_table :: "kfun option list"
  channels :: "(ide_channel \<times> scan_state) list"
  kern :: shell

text \<open>The partitions of a disk in the order of the list that \<^verbatim>\<open>partition_scan\<close> makes.\<close>

definition listed :: "scan_state \<Rightarrow> partition list" where
  "listed st = map (\<lambda>r. case r of Prim i \<Rightarrow> prim_parts st ! i | Logic i \<Rightarrow> logic_parts st ! i) (partition_list st)"

text \<open>
  \<open>mem_bytes\<close> and \<open>hd_cnt\<close> are what the boot loader and the BIOS left in memory, \<open>st0\<close> the static partition tables, \<open>dev_no\<close> the
  loop variable that \<^verbatim>\<open>fs_init\<close> does not set. The file system is on the second disk, the state \<open>fsys\<close>.
\<close>

definition init_all :: "image \<Rightarrow> u32 \<Rightarrow> u8 \<Rightarrow> u8 \<Rightarrow> scan_state \<Rightarrow> kbd \<Rightarrow> (nat \<Rightarrow> gdt_desc) \<Rightarrow> shell \<Rightarrow> board option" where
  "init_all im mem_bytes hd_cnt dev_no st0 k g s = do {
     let (gates, h, pic, lidt) = idt_init (at_idt im) (at_entries im) (at_syscall_handler im);
     let s = mem_init mem_bytes s;
     s \<leftarrow> thread_init (at_start_process im) (at_init im) (at_idle im) s;
     (pit, h) \<leftarrow> timer_init intr_timer_handler_ptr h;
     let s = console_init (at_console_lock im) s;
     (k, h) \<leftarrow> keyboard_init intr_keyboard_handler_ptr k h;
     let (seg, g, lgdt) = tss_init (at_tss im) g;
     let s = s\<lparr>tss_seg := seg\<rparr>;
     let (_, s) = intr_enable s;
     (chs, h, s) \<leftarrow> ide_init hd_cnt (at_disk_done im) (at_disk_lock im) intr_hd_handler_ptr (\<lambda>_. fsys s) st0 h s;
     f \<leftarrow> fs_init dev_no (concat (map (\<lambda>(_, st). prim_parts st @ logic_parts st) chs)) (concat (map (\<lambda>(_, st). listed st) chs)) (fs_view s);
     Some \<lparr>idt = gates, idt_operand = lidt, gdt = g, gdt_operand = lgdt, handler_tab = h, port_writes = pic @ pit, keys = k,
       syscall_table = syscall_init, channels = chs, kern = fs_back f s\<rparr>
   }"

text \<open>\<^verbatim>\<open>main\<close>; \<^verbatim>\<open>cls_screen\<close> erases what the initialisation has written. The last call does not return to \<^verbatim>\<open>main\<close>.\<close>

primrec load_programs :: "'b fstate_scheme \<Rightarrow> (u32 \<times> u32 \<times> u8 list) list \<Rightarrow> 'a pstate_scheme \<Rightarrow> 'a pstate_scheme option" where
  "load_programs raw [] s = Some s"
| "load_programs raw (p # ps) s = do {
     (_, s) \<leftarrow> on_fs (\<lambda>f. do { f \<leftarrow> loadelf2fs raw (fst p) (fst (snd p)) (snd (snd p)) f; Some ((), f) }) s;
     load_programs raw ps s
   }"

definition boot_programs :: "(u32 \<times> u32 \<times> u8 list) list" where
  "boot_programs = [(300, 25000, ascii ''/hello''), (400, 25000, ascii ''/fork-exec''), (500, 25000, ascii ''/cat''),
     (600, 25000, ascii ''/pipe''), (700, 25000, ascii ''/echo''), (800, 50000, ascii ''/c4'')]"

definition put_text :: "u8 list \<Rightarrow> 'a pstate_scheme \<Rightarrow> 'a pstate_scheme" where
  "put_text txt s = s\<lparr>fsys := (fsys s)\<lparr>console_out := console_out (fsys s) @ txt\<rparr>\<rparr>"

definition main_after_init :: "image \<Rightarrow> 'b fstate_scheme \<Rightarrow> 'a pstate_scheme \<Rightarrow> 'a pstate_scheme option" where
  "main_after_init im raw s = do {
     let s = clear s;
     s \<leftarrow> console_put (at_console_lock im) (put_text (ascii ''[phanium@bochs /]$ '')) s;
     s \<leftarrow> load_programs raw boot_programs s;
     (fd, s) \<leftarrow> on_fs (sys_open (ascii ''/file0'') (ucast (O_CREAT OR O_RDWR))) s;
     (_, s) \<leftarrow> on_fs (sys_write fd (ascii ''hello world'')) s;
     thread_exit (running_thread s) True s
   }"

definition main :: "image \<Rightarrow> u32 \<Rightarrow> u8 \<Rightarrow> u8 \<Rightarrow> scan_state \<Rightarrow> kbd \<Rightarrow> (nat \<Rightarrow> gdt_desc) \<Rightarrow> 'b fstate_scheme \<Rightarrow> shell \<Rightarrow> board option" where
  "main im mem_bytes hd_cnt dev_no st0 k g raw s = do {
     b \<leftarrow> init_all im mem_bytes hd_cnt dev_no st0 k g s;
     s \<leftarrow> main_after_init im raw (kern b);
     Some (b\<lparr>kern := s\<rparr>)
   }"

text \<open>
  The first process. The parent reports children for ever: one round of its loop ends with a report or asleep
  in \<^verbatim>\<open>wait\<close>, from where it goes on with the same round. \<open>junk\<close> is the status that no child has set. The child is the shell.
\<close>

datatype init_pc = Init_loop | Init_shell shell_pc

definition init_round :: "u32 \<Rightarrow> 'a shell_scheme \<Rightarrow> (init_pc \<times> 'a shell_scheme) option" where
  "init_round junk s = do {
     (r, s) \<leftarrow> sys_wait s;
     s \<leftarrow> (case r of
         Waiting \<Rightarrow> Some s
       | Reaped p st \<Rightarrow> println (ascii ''init: recieve '' @ decimal (scast p) @ ascii '', (status: '' @ decimal (scast st) @ ascii '')'') s
       | No_child \<Rightarrow> println (ascii ''init: recieve '' @ decimal (- 1) @ ascii '', (status: '' @ decimal junk @ ascii '')'') s);
     Some (Init_loop, s)
   }"

definition init_after :: "u32 \<Rightarrow> 'a shell_scheme \<Rightarrow> (init_pc \<times> 'a shell_scheme) option" where
  "init_after ret_pid s =
     (if ret_pid \<noteq> 0 then do { s \<leftarrow> println (ascii ''init: hello'') s; Some (Init_loop, s) }
      else do {
        s \<leftarrow> println (ascii ''shell: hello'') s;
        let (pc, s) = shell_run s;
        Some (Init_shell pc, s)
      })"

definition init :: "'a shell_scheme \<Rightarrow> (init_pc \<times> 'a shell_scheme) option" where
  "init s = do { (ret_pid, s) \<leftarrow> sys_fork s; init_after ret_pid s }"

section \<open>Properties\<close>

lemma ide_read_same_sector: "lba \<le> max_lba \<Longrightarrow> ide_read lba n s = Some (concat (replicate n (disk s lba)))"
  by (induction n) simp_all



text \<open>
  The handlers after boot with one channel of disks: clock, keyboard and disk have their own, and every other
  vector has the general one.
\<close>

lemma register_table:
  "register_handler v f h = Some h' \<Longrightarrow> idt_table h' = (idt_table h)[unat v := f] \<and> unat v < length (idt_table h)"
  by (auto simp: register_handler_def split: if_splits)

lemma init_channels_table:
  assumes "init_channels 1 0 done_at lock_at f disk_of st0 base h s = Some (cs, h', s')"
  shows "idt_table h' = (idt_table h)[0x2e := f]"
  using assms by (auto simp: Let_def ide_channel_init_def split: bind_splits dest!: register_table)

lemma ide_init_table:
  assumes "ide_init hd_cnt done_at lock_at f disk_of st0 h s = Some (cs, h', s')" and "hd_cnt \<le> 2"
  shows "idt_table h' = (idt_table h)[0x2e := f]"
proof -
  have "0 < hd_cnt" using assms(1) by (simp add: ide_init_def split: if_splits)
  then have "DIV_ROUND_UP (unat hd_cnt) 2 = 1"
    using assms(2) unat_gt_0 [of hd_cnt] by (auto simp: DIV_ROUND_UP_def word_le_nat_alt)
  then show ?thesis using assms(1) init_channels_table by (simp add: ide_init_def split: if_splits)
qed

lemma boot_handlers:
  assumes "init_all im mem_bytes hd_cnt dev_no st0 k g s = Some b" and "hd_cnt \<le> 2" and "i < IDT_DESC_CNT"
  shows "idt_table (handler_tab b) ! i =
    (if i = 0x20 then intr_timer_handler_ptr else if i = 0x21 then intr_keyboard_handler_ptr
     else if i = 0x2e then intr_hd_handler_ptr else general_intr_handler)"
proof -
  have "idt_table (handler_tab b)
      = (replicate IDT_DESC_CNT general_intr_handler)[0x20 := intr_timer_handler_ptr, 0x21 := intr_keyboard_handler_ptr, 0x2e := intr_hd_handler_ptr]"
    using assms(1)
    by (auto simp: init_all_def timer_init_def keyboard_init_def idt_init_def exception_init_def Let_def split_beta
        split: bind_splits dest!: register_table ide_init_table [OF _ assms(2)])
  then show ?thesis using assms(3) by (simp add: IDT_DESC_CNT_def nth_list_update)
qed

text \<open>A call of the console with a free lock writes its text as a whole and leaves the lock free.\<close>

lemma console_put_whole:
  assumes "lock_free console_lock s" and "keeps_lock console_lock put_it"
  shows "console_put console_lock put_it s = Some (put_it s) \<and> lock_free console_lock (put_it s)"
  unfolding console_put_def console_acquire_def console_release_def using lk.critical_update [OF assms] lk.keeps_free [OF assms(2,1)] by simp

end
