(* ===== verification/Spec2Isabelle.thy ===== *)
theory Spec2Isabelle
  imports Prelude Bitmap Interrupt Klist Cstring Paging Thread Sync Memory Keyboard File_session Dir_content Fs_props Process_props Shell_props Ide_transfer Shell_run User Syscall Boot
begin

text \<open>
  A verification development for a small x86 kernel: 32-bit protected mode, one processor, preemptive
  tasks, user processes with their own address space, a file system on an IDE disk and a shell.

  \<^bold>\<open>The program and the theories.\<close> Paths are relative to \<^verbatim>\<open>src/\<close>. The definitions keep the names of the C functions;
  a loop of a function is a definition of its own next to it.

  \<^item> \<open>Prelude\<close>: the machine types of \<^verbatim>\<open>lib/stdint.h\<close> as words of their width, constants of \<^verbatim>\<open>kernel/global.h\<close>, the
    meaning of \<^verbatim>\<open>ASSERT\<close>.
  \<^item> \<open>Bitmap\<close> (\<^verbatim>\<open>lib/kernel/bitmap.c\<close>), \<open>Klist\<close> (\<^verbatim>\<open>lib/kernel/list.c\<close>), \<open>Cstring\<close> (\<^verbatim>\<open>lib/string.c\<close>), \<open>Stdio\<close>
    (\<^verbatim>\<open>lib/stdio.c\<close>, \<^verbatim>\<open>lib/kernel/stdio-kernel.c\<close>): the libraries that the kernel rests on. \<open>Klist\<close> works on a
    heap of link fields, \<open>Cstring\<close> and \<open>Stdio\<close> on a flat byte memory.
  \<^item> \<open>Interrupt\<close> (\<^verbatim>\<open>kernel/interrupt.c\<close>, \<^verbatim>\<open>userprog/tss.c\<close>): the interrupt flag, gates and segment descriptors.
  \<^item> \<open>Paging\<close> and \<open>Memory\<close> (\<^verbatim>\<open>kernel/memory.c\<close>): page tables read through the recursive entry of the page directory,
    frame pools, ranges of pages, and the block allocator.
  \<^item> \<open>Thread\<close> (\<^verbatim>\<open>thread/thread.c\<close>, \<^verbatim>\<open>thread/switch.S\<close>, the handler of \<^verbatim>\<open>device/timer.c\<close>) and \<open>Sync\<close> (\<^verbatim>\<open>thread/sync.c\<close>): tasks,
    the scheduler, semaphores and locks as one interleaved system. A task that a switch suspends inside
    the kernel has a stack of return points; the step relation runs the current task up to its next
    return point or delivers a clock interrupt when the flag allows it.
  \<^item> \<open>Process\<close> (\<^verbatim>\<open>userprog/process.c\<close>, \<^verbatim>\<open>thread/pid.c\<close>, task creation), \<open>Fork\<close> (\<^verbatim>\<open>userprog/fork.c\<close>, \<^verbatim>\<open>userprog/wait_exit.c\<close>), \<open>Exec\<close>
    (\<^verbatim>\<open>userprog/exec.c\<close>, the listing of processes), \<open>Process_props\<close>: processes. Their state joins the state of the memory
    manager with that of the file system; a file system call works on the descriptors of the running task.
  \<^item> \<open>Syscall\<close> (\<^verbatim>\<open>lib/user/syscall.c\<close>, \<^verbatim>\<open>userprog/syscall-init.c\<close>, the entry in \<^verbatim>\<open>kernel/kernel.S\<close>): how a system call reaches its function.
  \<^item> \<open>Ioqueue\<close> and \<open>Keyboard\<close> (\<^verbatim>\<open>device/ioqueue.c\<close>, \<^verbatim>\<open>device/keyboard.c\<close>); \<open>Ide\<close> (\<^verbatim>\<open>device/ide.c\<close>, the rest of \<^verbatim>\<open>device/timer.c\<close>);
    \<open>Ide_transfer\<close> (the transfers of \<^verbatim>\<open>device/ide.c\<close> through the ports of \<^verbatim>\<open>lib/kernel/io.h\<close>).
  \<^item> \<open>Disk\<close>, \<open>Inode\<close>, \<open>Dir\<close>, \<open>File\<close>, \<open>Fs\<close>, \<open>Fs_tree\<close> (\<^verbatim>\<open>fs/\<close> and \<^verbatim>\<open>shell/pipe.c\<close>): the file system down to the bytes of its
    sectors; \<open>File_content\<close>, \<open>Dir_content\<close>, \<open>Fs_props\<close> and \<open>File_session\<close> hold its properties,
    \<open>Fs_frame\<close> what each operation leaves alone, \<open>Fs_types\<close> the typing of descriptors under sequences of calls.
  \<^item> \<open>Shell_path\<close>, \<open>Shell\<close>, \<open>Shell_props\<close>, \<open>Shell_run\<close> (\<^verbatim>\<open>shell/\<close>): paths, line input, words, builtin commands, pipelines and the loop
    of the shell, cut at the points where it sleeps.
  \<^item> \<open>User\<close> (\<^verbatim>\<open>user/\<close>, \<^verbatim>\<open>lib/user/assert.c\<close>): the programs \<^verbatim>\<open>cat\<close>, \<^verbatim>\<open>echo\<close>, \<^verbatim>\<open>hello\<close>, \<^verbatim>\<open>fork-exec\<close> and \<^verbatim>\<open>pipe\<close>.
  \<^item> \<open>Boot\<close> (\<^verbatim>\<open>kernel/main.c\<close>, \<^verbatim>\<open>kernel/init.c\<close>, \<^verbatim>\<open>device/console.c\<close>): the order of the initialisation, the programs that the kernel
    stores at boot, the first process.

  \<^bold>\<open>How the code becomes definitions.\<close> A function is a HOL function from the state to an optional pair of
  result and state. \<open>None\<close> is a call that does not return to its caller in a defined way: a failed
  \<^verbatim>\<open>ASSERT\<close>, a \<^verbatim>\<open>PANIC\<close>, an endless loop, a fault, an access outside an array. The error values of the code,
  \<^verbatim>\<open>-1\<close> and \<^verbatim>\<open>NULL\<close>, are ordinary results. Integers have the width they have in C and wrap around; a
  signed value is a word read with \<open>sint\<close>. What the code reads from variables that it has not
  set is an argument or a field of the state. State is a chain of records, each of which extends the
  one below: links, page tables, tasks, memory manager, processes, shell.

  \<^bold>\<open>Loops.\<close> Loops with a counter are primitive recursive; others have a termination proof, and loops that may run
  for ever, such as the search for a terminating byte or a directory that is read until it ends, are
  partial functions with \<open>None\<close> for not returning. No fuel is used. The theorems about them state
  that they return.

  \<^bold>\<open>Interfaces.\<close> What a client relies on is stated as a locale and interpreted on the code: a pool of slots with first-fit
  search (\<open>slot_pool\<close>, on the bitmap), sequences behind pointer lists (\<open>list_heap\<close>, on \<^verbatim>\<open>list.c\<close>), a bounded queue
  (\<open>byte_queue\<close>, on the ring buffer, used by the keyboard, the pipes and the shell), and a mutex
  (\<open>mutex\<close>, on the lock calls of a task that does not have to wait, used by the pool of process numbers).

  \<^bold>\<open>What is proved.\<close>
  \<^item> Concurrency: at most one task is inside a lock, no assertion of scheduler, semaphores and locks fails,
    and no task is lost, in every reachable state under every interleaving; the scheduler is round-robin.
  \<^item> Memory: mapping and unmapping change one page; page allocation gives fresh contiguous pages on
    distinct free frames; the pools are disjoint at boot.
  \<^item> Files: reading returns the contents at the position, writing appends, and neither disturbs other
    blocks; what the system calls write to a file they read back; under every sequence of calls a
    descriptor in use names an entry of the file table; an inode or a directory entry that was stored is found again; releasing an inode frees its blocks.
  \<^item> Processes: numbers, waiting, the pages that a program segment needs, the dispatch of system calls.
  \<^item> Devices: the ring buffer is a queue, the keyboard handler always returns, a transfer through
    the ports of a controller that follows the ATA protocol reads and writes the sector as a whole, the partition
    search finds the whole chain.
  \<^item> User side: formatted output, resolved paths, line editing, splitting into words; a pipeline of
    builtin commands gives its descriptors back; \<^verbatim>\<open>cat\<close> prints the file.
  \<^item> Defects that follow from the code as it is, among them transfers of more than one sector, the
    deletion of an indirect directory block, a line of blanks in the shell.

  \<^bold>\<open>Not modelled.\<close> The boot loader and the screen routines are assembly; the text that reaches the screen is kept. The disk
  controller is hardware: \<open>Ide_transfer\<close> takes it as a parameter with the ATA protocol as hypothesis, and the file
  system works on whole sectors, which is what the transfers implement. Diagnostics that the kernel prints with \<^verbatim>\<open>printk\<close>
  have no effect on its state and are left out. \<^verbatim>\<open>user/c4.c\<close> is a third-party interpreter that is shipped as an example,
  \<^verbatim>\<open>test/\<close> holds manual tests. The heap addresses that the file system gets from \<^verbatim>\<open>sys_malloc\<close> are a list in its
  state; the allocator itself is in \<open>Memory\<close>. The file system runs one call at a time: that other tasks run while a
  call waits for the disk is modelled for locks and semaphores, not for the tables of the file system.
\<close>

end
